(* ===== verification/Prelude.thy ===== *)
theory Prelude
  imports Complex_Main "HOL-Library.Sublist" "HOL-Library.Multiset" "HOL-Library.Word"
begin

text \<open>
  What the components share: results as sums, Rust durations and instants, IEEE doubles as
  exact rationals with the special values, tables as association lists with upsert and
  delete, and the stable insertion sort behind the comparator-driven sorts of the program.

  A Rust \<open>Result<T, E>\<close> is \<open>'e + 't\<close> with the error on the left. A Rust \<open>String\<close> is the
  list of its UTF-8 bytes, a \<open>string\<close> of HOL. A \<open>Duration\<close> and an \<open>Instant\<close> are natural
  numbers of nanoseconds; a wall-clock \<open>Timestamp\<close> is an integer number of nanoseconds since
  the epoch.
\<close>

named_theorems table_simps \<open>lookup after an update of an association list\<close>

type_synonym ('e, 'a) result = "'e + 'a"
type_synonym duration = nat
type_synonym instant = nat
type_synonym timestamp = int
type_synonym bytes = string
type_synonym u8 = "8 word"
type_synonym u32 = "32 word"

abbreviation Err :: "'e \<Rightarrow> ('e, 'a) result" where "Err \<equiv> Inl"
abbreviation Ok :: "'a \<Rightarrow> ('e, 'a) result" where "Ok \<equiv> Inr"

section \<open>Integer bounds\<close>

definition u32_max :: nat where "u32_max = 2 ^ 32 - 1"
definition u64_max :: nat where "u64_max = 2 ^ 64 - 1"
definition i64_max :: int where "i64_max = 2 ^ 63 - 1"
definition i32_max :: int where "i32_max = 2 ^ 31 - 1"

definition secs :: "nat \<Rightarrow> duration" where "secs n = n * 1000000000"

definition duration_max :: duration where
  "duration_max = u64_max * 1000000000 + 999999999"

text \<open>\<open>Duration::saturating_mul\<close>.\<close>

definition duration_saturating_mul :: "duration \<Rightarrow> nat \<Rightarrow> duration" where
  "duration_saturating_mul d k = min (d * k) duration_max"

lemma duration_saturating_mul_le: "duration_saturating_mul d k \<le> duration_max"
  by (simp add: duration_saturating_mul_def)

lemma duration_saturating_mul_mono: "k \<le> k' \<Longrightarrow> duration_saturating_mul d k \<le> duration_saturating_mul d k'"
  by (simp add: duration_saturating_mul_def min.coboundedI1 mult_le_mono2 min_le_iff_disj)

section \<open>IEEE doubles\<close>

text \<open>
  A finite double is the rational it denotes; rounding and overflow of arithmetic are not
  modelled, so a sum, difference, product or quotient of finite doubles is exact. The negative
  zero is kept apart because \<open>f64::total_cmp\<close> distinguishes it from the positive one.
\<close>

datatype f64 = Fin rat | NegZero | PInf | NInf | NaN

fun f_is_finite :: "f64 \<Rightarrow> bool" where
  "f_is_finite (Fin _) = True"
| "f_is_finite NegZero = True"
| "f_is_finite _ = False"

fun f_key :: "f64 \<Rightarrow> int \<times> rat" where
  "f_key (Fin r) = (0, r)"
| "f_key NegZero = (0, 0)"
| "f_key PInf = (1, 0)"
| "f_key NInf = (-1, 0)"
| "f_key NaN = (2, 0)"

text \<open>The IEEE comparisons: false as soon as one side is NaN.\<close>

definition f_lt :: "f64 \<Rightarrow> f64 \<Rightarrow> bool" where
  "f_lt a b \<longleftrightarrow> a \<noteq> NaN \<and> b \<noteq> NaN \<and>
     (fst (f_key a) < fst (f_key b) \<or> fst (f_key a) = fst (f_key b) \<and> snd (f_key a) < snd (f_key b))"

definition f_eq :: "f64 \<Rightarrow> f64 \<Rightarrow> bool" where
  "f_eq a b \<longleftrightarrow> a \<noteq> NaN \<and> b \<noteq> NaN \<and> f_key a = f_key b"

definition f_ge :: "f64 \<Rightarrow> f64 \<Rightarrow> bool" where
  "f_ge a b \<longleftrightarrow> f_lt b a \<or> f_eq a b"

text \<open>\<open>a.total_cmp(&b).is_eq()\<close>: equality of the bit patterns.\<close>

definition f_total_eq :: "f64 \<Rightarrow> f64 \<Rightarrow> bool" where
  "f_total_eq a b \<longleftrightarrow> (case (a, b) of (Fin x, Fin y) \<Rightarrow> x = y | _ \<Rightarrow> a = b)"

lemma f_total_eq_iff [simp]: "f_total_eq a b \<longleftrightarrow> a = b"
  by (auto simp: f_total_eq_def split: f64.splits)

fun f_neg :: "f64 \<Rightarrow> f64" where
  "f_neg (Fin r) = (if r = 0 then NegZero else Fin (- r))"
| "f_neg NegZero = Fin 0"
| "f_neg PInf = NInf"
| "f_neg NInf = PInf"
| "f_neg NaN = NaN"

fun f_add :: "f64 \<Rightarrow> f64 \<Rightarrow> f64" where
  "f_add NaN _ = NaN"
| "f_add _ NaN = NaN"
| "f_add PInf NInf = NaN"
| "f_add NInf PInf = NaN"
| "f_add PInf _ = PInf"
| "f_add _ PInf = PInf"
| "f_add NInf _ = NInf"
| "f_add _ NInf = NInf"
| "f_add NegZero NegZero = NegZero"
| "f_add a b = Fin (snd (f_key a) + snd (f_key b))"

definition f_sub :: "f64 \<Rightarrow> f64 \<Rightarrow> f64" where
  "f_sub a b = f_add a (f_neg b)"

fun f_negative :: "f64 \<Rightarrow> bool" where
  "f_negative (Fin r) \<longleftrightarrow> r < 0"
| "f_negative NegZero \<longleftrightarrow> True"
| "f_negative NInf \<longleftrightarrow> True"
| "f_negative _ \<longleftrightarrow> False"

fun f_abs :: "f64 \<Rightarrow> f64" where
  "f_abs (Fin r) = Fin \<bar>r\<bar>"
| "f_abs NegZero = Fin 0"
| "f_abs PInf = PInf"
| "f_abs NInf = PInf"
| "f_abs NaN = NaN"

definition f_signed :: "bool \<Rightarrow> f64 \<Rightarrow> f64" where
  "f_signed neg a = (if neg then f_neg a else a)"

definition f_mul :: "f64 \<Rightarrow> f64 \<Rightarrow> f64" where
  "f_mul a b =
     (if a = NaN \<or> b = NaN then NaN
      else let neg = (f_negative a \<noteq> f_negative b) in
        if f_is_finite a \<and> f_is_finite b
        then f_signed neg (Fin (\<bar>snd (f_key a)\<bar> * \<bar>snd (f_key b)\<bar>))
        else if f_is_finite a \<and> snd (f_key a) = 0 \<or> f_is_finite b \<and> snd (f_key b) = 0 then NaN
        else f_signed neg PInf)"

definition f_div :: "f64 \<Rightarrow> f64 \<Rightarrow> f64" where
  "f_div a b =
     (if a = NaN \<or> b = NaN then NaN
      else let neg = (f_negative a \<noteq> f_negative b) in
        if f_is_finite a \<and> f_is_finite b then
          (if snd (f_key b) = 0
           then (if snd (f_key a) = 0 then NaN else f_signed neg PInf)
           else f_signed neg (Fin (\<bar>snd (f_key a)\<bar> / \<bar>snd (f_key b)\<bar>)))
        else if f_is_finite b then f_signed neg PInf
        else if f_is_finite a then f_signed neg (Fin 0)
        else NaN)"

text \<open>\<open>a.mul_add(b, c)\<close>.\<close>

definition f_mul_add :: "f64 \<Rightarrow> f64 \<Rightarrow> f64 \<Rightarrow> f64" where
  "f_mul_add a b c = f_add (f_mul a b) c"

lemma f_lt_Fin [simp]: "f_lt (Fin a) (Fin b) \<longleftrightarrow> a < b"
  by (simp add: f_lt_def)

lemma f_eq_Fin [simp]: "f_eq (Fin a) (Fin b) \<longleftrightarrow> a = b"
  by (simp add: f_eq_def)

lemma f_ge_Fin [simp]: "f_ge (Fin a) (Fin b) \<longleftrightarrow> b \<le> a"
  by (auto simp: f_ge_def)

lemma f_key_Fin_neg [simp]: "snd (f_key (f_neg (Fin r))) = - r" "fst (f_key (f_neg (Fin r))) = 0"
  by simp_all

lemma f_sub_Fin [simp]: "f_sub (Fin a) (Fin b) = Fin (a - b)"
  by (simp add: f_sub_def)

lemma f_add_Fin [simp]: "f_add (Fin a) (Fin b) = Fin (a + b)"
  by simp

lemma f_mul_nonneg [simp]: "0 \<le> a \<Longrightarrow> 0 \<le> b \<Longrightarrow> f_mul (Fin a) (Fin b) = Fin (a * b)"
  by (simp add: f_mul_def f_signed_def)

lemma f_div_nonneg [simp]: "0 \<le> a \<Longrightarrow> 0 < b \<Longrightarrow> f_div (Fin a) (Fin b) = Fin (a / b)"
  by (simp add: f_div_def f_signed_def)

lemma f_mul_add_nonneg [simp]:
  "0 \<le> a \<Longrightarrow> 0 \<le> b \<Longrightarrow> f_mul_add (Fin a) (Fin b) (Fin c) = Fin (a * b + c)"
  by (simp add: f_mul_add_def)

lemma f_lt_irrefl [simp]: "\<not> f_lt a a"
  by (simp add: f_lt_def)

lemma f_lt_trans: "f_lt a b \<Longrightarrow> f_lt b c \<Longrightarrow> f_lt a c"
  by (auto simp: f_lt_def)

lemma f_lt_total: "a \<noteq> NaN \<Longrightarrow> b \<noteq> NaN \<Longrightarrow> f_lt a b \<or> f_eq a b \<or> f_lt b a"
  by (cases "f_key a"; cases "f_key b") (auto simp: f_lt_def f_eq_def)

section \<open>Tables: association lists with one row per key\<close>

text \<open>
  A table keeps its rows in storage order. An upsert replaces the row of an existing key in
  place and appends a new one.
\<close>

fun upsert :: "'k \<Rightarrow> 'v \<Rightarrow> ('k \<times> 'v) list \<Rightarrow> ('k \<times> 'v) list" where
  "upsert k v [] = [(k, v)]"
| "upsert k v ((k', v') # t) = (if k = k' then (k, v) # t else (k', v') # upsert k v t)"

definition remove_key :: "'k \<Rightarrow> ('k \<times> 'v) list \<Rightarrow> ('k \<times> 'v) list" where
  "remove_key k t = filter (\<lambda>r. fst r \<noteq> k) t"

definition keys_distinct :: "('k \<times> 'v) list \<Rightarrow> bool" where
  "keys_distinct t \<longleftrightarrow> distinct (map fst t)"

lemma map_of_upsert [table_simps]: "map_of (upsert k v t) = (map_of t)(k \<mapsto> v)"
  by (induction k v t rule: upsert.induct) auto

lemma set_upsert: "set (upsert k v t) \<subseteq> insert (k, v) (set t)"
  by (induction k v t rule: upsert.induct) auto

lemma set_keys_upsert: "fst ` set (upsert k v t) = insert k (fst ` set t)"
  by (induction k v t rule: upsert.induct) auto

lemma keys_distinct_upsert [simp]: "keys_distinct t \<Longrightarrow> keys_distinct (upsert k v t)"
  unfolding keys_distinct_def
  by (induction k v t rule: upsert.induct) (auto simp: set_keys_upsert)

lemma length_upsert: "length (upsert k v t) = length t + (if k \<in> fst ` set t then 0 else 1)"
  by (induction k v t rule: upsert.induct) auto

lemma length_upsert_le: "length (upsert k v t) \<le> Suc (length t)"
  by (simp add: length_upsert)

lemma keys_distinct_filter [simp]: "keys_distinct t \<Longrightarrow> keys_distinct (filter P t)"
  unfolding keys_distinct_def by (induction t) auto

lemma keys_distinct_remove_key [simp]: "keys_distinct t \<Longrightarrow> keys_distinct (remove_key k t)"
  by (simp add: remove_key_def)

lemma map_of_remove_key [table_simps]: "map_of (remove_key k t) = (map_of t)(k := None)"
  by (induction t) (auto simp: remove_key_def fun_eq_iff)

lemma map_of_filter_distinct:
  "keys_distinct t \<Longrightarrow>
   map_of (filter P t) k = (case map_of t k of None \<Rightarrow> None | Some v \<Rightarrow> if P (k, v) then Some v else None)"
  unfolding keys_distinct_def
proof (induction t)
  case (Cons r t)
  then show ?case
    by (cases r) (force split: option.splits simp: map_of_eq_None_iff)
qed simp

lemma keys_distinct_Nil [simp]: "keys_distinct []"
  by (simp add: keys_distinct_def)

section \<open>Comparator-driven stable sort\<close>

text \<open>
  \<open>Ordering\<close>, and \<open>slice::sort_by\<close> as the standard library runs it on up to twenty
  elements (\<open>insertion_sort_shift_left\<close>): the elements are taken from left to right, and each
  is moved left past the sorted prefix while it compares \<open>Less\<close> than its left neighbour. On
  longer slices the library merges such runs, with the same result for any comparator that is
  a total order; for one that is not, the library leaves the order unspecified.
\<close>

datatype ordering = Less | Equal | Greater

definition cmp_linorder :: "'a::linorder \<Rightarrow> 'a \<Rightarrow> ordering" where
  "cmp_linorder a b = (if a < b then Less else if b < a then Greater else Equal)"

text \<open>The prefix is kept reversed, so its head is the left neighbour of the hole.\<close>

fun shift_left :: "('a \<Rightarrow> 'a \<Rightarrow> ordering) \<Rightarrow> 'a \<Rightarrow> 'a list \<Rightarrow> 'a list" where
  "shift_left cmp x [] = [x]"
| "shift_left cmp x (y # ys) = (if cmp x y = Less then y # shift_left cmp x ys else x # y # ys)"

definition sort_by :: "('a \<Rightarrow> 'a \<Rightarrow> ordering) \<Rightarrow> 'a list \<Rightarrow> 'a list" where
  "sort_by cmp xs = rev (foldl (\<lambda>acc x. shift_left cmp x acc) [] xs)"

lemma mset_shift_left: "mset (shift_left cmp x ys) = add_mset x (mset ys)"
  by (induction cmp x ys rule: shift_left.induct) auto

lemma set_shift_left [simp]: "set (shift_left cmp x ys) = insert x (set ys)"
  by (induction cmp x ys rule: shift_left.induct) auto

lemma mset_foldl_shift_left:
  "mset (foldl (\<lambda>acc x. shift_left cmp x acc) ys xs) = mset ys + mset xs"
  by (induction xs arbitrary: ys) (auto simp: mset_shift_left)

lemma mset_sort_by [simp]: "mset (sort_by cmp xs) = mset xs"
  by (simp add: sort_by_def mset_foldl_shift_left)

lemma set_sort_by [simp]: "set (sort_by cmp xs) = set xs"
  by (metis mset_sort_by set_mset_mset)

lemma length_sort_by [simp]: "length (sort_by cmp xs) = length xs"
  by (metis mset_sort_by size_mset)

lemma sort_by_Nil [simp]: "sort_by cmp [] = []"
  by (simp add: sort_by_def)

text \<open>
  Any relation that the comparator decides and that is transitive orders the result: if
  \<open>cmp x y = Less\<close> puts \<open>x\<close> before \<open>y\<close>, and everything else allows \<open>y\<close> before \<open>x\<close>.
\<close>

lemma sorted_shift_left:
  assumes "transp le"
    and less: "\<And>y. y \<in> set ys \<Longrightarrow> cmp x y = Less \<Longrightarrow> le x y"
    and other: "\<And>y. y \<in> set ys \<Longrightarrow> cmp x y \<noteq> Less \<Longrightarrow> le y x"
    and "sorted_wrt (\<lambda>a b. le b a) ys"
  shows "sorted_wrt (\<lambda>a b. le b a) (shift_left cmp x ys)"
  using less other assms(4)
proof (induction ys)
  case (Cons y ys)
  have tail: "le z x" if "le y x" "z \<in> set ys" for z
    using Cons.prems(3) that \<open>transp le\<close> by (auto dest: transpD)
  show ?case
    using Cons by (auto simp: tail)
qed simp

lemma sorted_sort_by:
  assumes "transp le"
    and "\<And>x y. x \<in> set xs \<Longrightarrow> y \<in> set xs \<Longrightarrow> cmp x y = Less \<Longrightarrow> le x y"
    and "\<And>x y. x \<in> set xs \<Longrightarrow> y \<in> set xs \<Longrightarrow> cmp x y \<noteq> Less \<Longrightarrow> le y x"
  shows "sorted_wrt le (sort_by cmp xs)"
proof -
  have "sorted_wrt (\<lambda>a b. le b a) (foldl (\<lambda>acc x. shift_left cmp x acc) ys zs)"
    if "sorted_wrt (\<lambda>a b. le b a) ys" "set ys \<union> set zs \<subseteq> set xs" for ys zs
    using that
  proof (induction zs arbitrary: ys)
    case (Cons z zs)
    have "sorted_wrt (\<lambda>a b. le b a) (shift_left cmp z ys)"
      using Cons.prems assms by (intro sorted_shift_left) auto
    then show ?case using Cons by simp
  qed simp
  from this[of "[]" xs] show ?thesis
    by (simp add: sort_by_def sorted_wrt_rev)
qed

end
