(* ===== verification/Strings.thy ===== *)
theory Strings
  imports Prelude
begin

text \<open>
  The operations of Rust's \<open>str\<close> that the program uses, on UTF-8 bytes. Every pattern the
  program searches for is ASCII, so a match on bytes is a match on characters. White space is
  the Unicode property, recognised in its UTF-8 encodings.
\<close>

abbreviation nl :: char where "nl \<equiv> CHR 0x0A"
abbreviation cr :: char where "cr \<equiv> CHR 0x0D"

abbreviation code :: "char \<Rightarrow> nat" where "code c \<equiv> of_char c"

section \<open>Prefixes, suffixes and substrings\<close>

definition strip_prefix :: "string \<Rightarrow> string \<Rightarrow> string option" where
  "strip_prefix p s = (if prefix p s then Some (drop (length p) s) else None)"

definition strip_suffix :: "string \<Rightarrow> string \<Rightarrow> string option" where
  "strip_suffix p s = (if suffix p s then Some (take (length s - length p) s) else None)"

text \<open>\<open>str::find\<close>: the leftmost occurrence.\<close>

fun find_sub :: "string \<Rightarrow> string \<Rightarrow> nat option" where
  "find_sub p [] = (if p = [] then Some 0 else None)"
| "find_sub p (c # s) = (if prefix p (c # s) then Some 0 else map_option Suc (find_sub p s))"

text \<open>\<open>str::rfind\<close>: the rightmost occurrence.\<close>

fun rfind_sub :: "string \<Rightarrow> string \<Rightarrow> nat option" where
  "rfind_sub p [] = (if p = [] then Some 0 else None)"
| "rfind_sub p (c # s) = (case rfind_sub p s of
     Some i \<Rightarrow> Some (Suc i)
   | None \<Rightarrow> if prefix p (c # s) then Some 0 else None)"

definition split_once :: "string \<Rightarrow> string \<Rightarrow> (string \<times> string) option" where
  "split_once p s = map_option (\<lambda>i. (take i s, drop (i + length p) s)) (find_sub p s)"

definition rsplit_once :: "string \<Rightarrow> string \<Rightarrow> (string \<times> string) option" where
  "rsplit_once p s = map_option (\<lambda>i. (take i s, drop (i + length p) s)) (rfind_sub p s)"

text \<open>\<open>str::split\<close> at a character: always at least one piece.\<close>

fun split_char :: "char \<Rightarrow> string \<Rightarrow> string list" where
  "split_char c [] = [[]]"
| "split_char c (x # s) =
     (if x = c then [] # split_char c s
      else (case split_char c s of [] \<Rightarrow> [[x]] | y # ys \<Rightarrow> (x # y) # ys))"

definition trim_start_matches :: "char \<Rightarrow> string \<Rightarrow> string" where
  "trim_start_matches c s = dropWhile (\<lambda>x. x = c) s"

definition trim_end_matches :: "char \<Rightarrow> string \<Rightarrow> string" where
  "trim_end_matches c s = rev (dropWhile (\<lambda>x. x = c) (rev s))"

fun join :: "string \<Rightarrow> string list \<Rightarrow> string" where
  "join sep [] = []"
| "join sep [x] = x"
| "join sep (x # y # ys) = x @ sep @ join sep (y # ys)"

lemma strip_prefix_Some: "strip_prefix p s = Some t \<longleftrightarrow> s = p @ t"
  by (auto simp: strip_prefix_def prefix_def)

lemma strip_prefix_None: "strip_prefix p s = None \<longleftrightarrow> \<not> prefix p s"
  by (simp add: strip_prefix_def)

lemma strip_suffix_Some: "strip_suffix p s = Some t \<longleftrightarrow> s = t @ p"
  by (auto simp: strip_suffix_def suffix_def)

lemma strip_prefix_append [simp]: "strip_prefix p (p @ t) = Some t"
  by (simp add: strip_prefix_Some)

lemma strip_suffix_append [simp]: "strip_suffix p (t @ p) = Some t"
  by (simp add: strip_suffix_Some)

lemma find_sub_Some: "find_sub p s = Some i \<Longrightarrow> i \<le> length s \<and> take i s @ p @ drop (i + length p) s = s"
proof (induction p s arbitrary: i rule: find_sub.induct)
  case (2 p c s)
  then show ?case
    by (cases "prefix p (c # s)") (auto simp: prefix_def)
qed (auto split: if_splits)

lemma find_sub_None: "find_sub p s = None \<longleftrightarrow> \<not> sublist p s"
  by (induction p s rule: find_sub.induct) (auto simp: sublist_Cons_right)

lemma find_sub_least: "find_sub p s = Some i \<Longrightarrow> j < i \<Longrightarrow> \<not> prefix p (drop j s)"
proof (induction p s arbitrary: i j rule: find_sub.induct)
  case (2 p c s)
  then show ?case
    by (cases j) (auto split: if_splits)
qed (auto split: if_splits)

lemma split_once_Some: "split_once p s = Some (a, b) \<Longrightarrow> s = a @ p @ b"
  unfolding split_once_def using find_sub_Some by fastforce

lemma split_once_None: "split_once p s = None \<longleftrightarrow> \<not> sublist p s"
  by (simp add: split_once_def find_sub_None)

lemma find_sub_skip: "c \<notin> set a \<Longrightarrow> find_sub (c # p) (a @ s) = map_option ((+) (length a)) (find_sub (c # p) s)"
proof (induction a)
  case Nil
  show ?case by (simp add: option.map_ident_strong)
next
  case (Cons x a)
  then show ?case by (auto simp: option.map_comp comp_def)
qed

lemma find_sub_here [simp]: "find_sub p (p @ s) = Some 0"
  by (cases p; cases s) auto

lemma split_once_first [simp]: "c \<notin> set a \<Longrightarrow> split_once (c # p) (a @ c # p @ b) = Some (a, b)"
  using find_sub_here[of "c # p" b] by (simp add: split_once_def find_sub_skip del: find_sub_here)

lemma split_once_char_fst: "split_once [c] s = Some (a, b) \<Longrightarrow> c \<notin> set a"
proof (unfold split_once_def, clarsimp)
  fix i assume i: "find_sub [c] s = Some i" and "c \<in> set (take i s)"
  then obtain j where "j < i" "j < length s" "s ! j = c"
    by (auto simp: in_set_conv_nth)
  then have "prefix [c] (drop j s)"
    by (simp add: Cons_nth_drop_Suc [symmetric])
  with find_sub_least[OF i \<open>j < i\<close>] show False by simp
qed

lemma split_char_nonempty [simp]: "split_char c s \<noteq> []"
  by (induction s) (auto split: list.splits)

lemma split_char_no_sep: "x \<in> set (split_char c s) \<Longrightarrow> c \<notin> set x"
  by (induction s arbitrary: x) (auto split: if_splits list.splits)

lemma split_char_notin: "c \<notin> set s \<Longrightarrow> split_char c s = [s]"
  by (induction s) auto

lemma split_char_append: "split_char c (a @ c # b) = split_char c a @ split_char c b"
  by (induction a) (auto split: list.splits)

lemma join_split_char: "join [c] (split_char c s) = s"
proof (induction s)
  case (Cons x s)
  obtain y ys where y: "split_char c s = y # ys" by (cases "split_char c s") auto
  with Cons show ?case by (cases ys) auto
qed simp

lemma trim_start_matches_id [simp]: "s = [] \<or> hd s \<noteq> c \<Longrightarrow> trim_start_matches c s = s"
  by (cases s) (auto simp: trim_start_matches_def)

lemma trim_start_matches_hd: "trim_start_matches c s = [] \<or> hd (trim_start_matches c s) \<noteq> c"
  using hd_dropWhile[of "\<lambda>x. x = c" s] by (auto simp: trim_start_matches_def)

lemma trim_start_matches_Cons [simp]: "trim_start_matches c (c # s) = trim_start_matches c s"
  by (simp add: trim_start_matches_def)

lemma split_char_join:
  "xs \<noteq> [] \<Longrightarrow> \<forall>x \<in> set xs. c \<notin> set x \<Longrightarrow> split_char c (join [c] xs) = xs"
  by (induction "[c]" xs rule: join.induct) (auto simp: split_char_notin split_char_append)

lemma join_eq_Nil: "\<forall>x \<in> set xs. x \<noteq> [] \<Longrightarrow> join sep xs = [] \<longleftrightarrow> xs = []"
  by (induction sep xs rule: join.induct) auto

lemma join_inject:
  assumes "\<forall>x \<in> set xs. c \<notin> set x \<and> x \<noteq> []" "\<forall>y \<in> set ys. c \<notin> set y \<and> y \<noteq> []"
    and "join [c] xs = join [c] ys"
  shows "xs = ys"
proof (cases "xs = []")
  case True
  with assms show ?thesis by (auto simp: join_eq_Nil dest: sym)
next
  case False
  with assms have "ys \<noteq> []" by (metis join.simps(1) join_eq_Nil)
  with False assms show ?thesis by (metis split_char_join)
qed

lemma append_char_inject:
  "c \<notin> set a \<Longrightarrow> c \<notin> set b \<Longrightarrow> a @ c # s = b @ c # t \<longleftrightarrow> a = b \<and> s = t"
proof (induction a arbitrary: b)
  case Nil
  then show ?case by (cases b) auto
next
  case (Cons x a)
  then show ?case by (cases b) auto
qed

section \<open>Lines\<close>

text \<open>\<open>str::split_inclusive\<close> at the newline, and the line without its terminator.\<close>

fun split_inclusive :: "string \<Rightarrow> string list" where
  "split_inclusive [] = []"
| "split_inclusive (c # s) =
     (if c = nl then [c] # split_inclusive s
      else (case split_inclusive s of [] \<Rightarrow> [[c]] | l # ls \<Rightarrow> (c # l) # ls))"

definition chomp :: "string \<Rightarrow> string \<times> string" where
  "chomp l = (case strip_suffix [nl] l of
     None \<Rightarrow> (l, [])
   | Some l' \<Rightarrow> (case strip_suffix [cr] l' of None \<Rightarrow> (l', [nl]) | Some l'' \<Rightarrow> (l'', [cr, nl])))"

text \<open>\<open>BufRead::lines\<close>, before its UTF-8 check.\<close>

definition buf_lines :: "bytes \<Rightarrow> bytes list" where
  "buf_lines s = map (fst \<circ> chomp) (split_inclusive s)"

lemma concat_split_inclusive [simp]: "concat (split_inclusive s) = s"
  by (induction s) (auto split: list.splits)

lemma chomp_append: "fst (chomp l) @ snd (chomp l) = l"
  by (auto simp: chomp_def strip_suffix_Some split: option.splits)

lemma split_inclusive_line [simp]: "nl \<notin> set a \<Longrightarrow> split_inclusive (a @ nl # b) = (a @ [nl]) # split_inclusive b"
  by (induction a) auto

lemma chomp_line [simp]: "a = [] \<or> last a \<noteq> cr \<Longrightarrow> chomp (a @ [nl]) = (a, [nl])"
  by (cases a rule: rev_cases) (auto simp: chomp_def strip_suffix_def suffix_def)

lemma buf_lines_Nil [simp]: "buf_lines [] = []"
  by (simp add: buf_lines_def)

lemma buf_lines_line [simp]:
  "nl \<notin> set a \<Longrightarrow> a = [] \<or> last a \<noteq> cr \<Longrightarrow> buf_lines (a @ nl # b) = a # buf_lines b"
  by (simp add: buf_lines_def)

section \<open>UTF-8\<close>

definition cont_byte :: "char \<Rightarrow> bool" where
  "cont_byte c \<longleftrightarrow> 128 \<le> code c \<and> code c \<le> 191"

definition byte_in :: "nat \<Rightarrow> nat \<Rightarrow> char \<Rightarrow> bool" where
  "byte_in lo hi c \<longleftrightarrow> lo \<le> code c \<and> code c \<le> hi"

definition utf8_second3 :: "char \<Rightarrow> char \<Rightarrow> bool" where
  "utf8_second3 a b \<longleftrightarrow>
     (if code a = 224 then byte_in 160 191 b else if code a = 237 then byte_in 128 159 b else cont_byte b)"

definition utf8_second4 :: "char \<Rightarrow> char \<Rightarrow> bool" where
  "utf8_second4 a b \<longleftrightarrow>
     (if code a = 240 then byte_in 144 191 b else if code a = 244 then byte_in 128 143 b else cont_byte b)"

fun utf8_valid :: "bytes \<Rightarrow> bool" where
  "utf8_valid [] = True"
| "utf8_valid (a # s) =
     (if code a < 128 then utf8_valid s
      else case s of [] \<Rightarrow> False | b # s2 \<Rightarrow>
        if byte_in 194 223 a then cont_byte b \<and> utf8_valid s2
        else case s2 of [] \<Rightarrow> False | c # s3 \<Rightarrow>
          if byte_in 224 239 a then utf8_second3 a b \<and> cont_byte c \<and> utf8_valid s3
          else case s3 of [] \<Rightarrow> False | d # s4 \<Rightarrow>
            byte_in 240 244 a \<and> utf8_second4 a b \<and> cont_byte c \<and> cont_byte d \<and> utf8_valid s4)"

lemma utf8_valid_ascii [simp]: "\<forall>c \<in> set s. code c < 128 \<Longrightarrow> utf8_valid s"
  by (induction s) auto

section \<open>White space\<close>

text \<open>The number of bytes of the white-space character a string starts with, or 0.\<close>

fun ws_len :: "string \<Rightarrow> nat" where
  "ws_len [] = 0"
| "ws_len (a # s) =
     (if code a \<in> {9, 10, 11, 12, 13, 32} then 1
      else case s of [] \<Rightarrow> 0 | b # s2 \<Rightarrow>
        if code a = 194 then (if code b \<in> {133, 160} then 2 else 0)
        else case s2 of [] \<Rightarrow> 0 | c # s3 \<Rightarrow>
          if code a = 225 \<and> code b = 154 \<and> code c = 128
             \<or> code a = 226 \<and> code b = 128
                 \<and> (byte_in 128 138 c \<or> code c \<in> {168, 169, 175})
             \<or> code a = 226 \<and> code b = 129 \<and> code c = 159
             \<or> code a = 227 \<and> code b = 128 \<and> code c = 128
          then 3 else 0)"

function split_ws :: "string \<Rightarrow> string \<Rightarrow> string list" where
  "split_ws cur [] = (if cur = [] then [] else [rev cur])"
| "split_ws cur (c # s) =
     (if 0 < ws_len (c # s)
      then (if cur = [] then [] else [rev cur]) @ split_ws [] (drop (ws_len (c # s) - 1) s)
      else split_ws (c # cur) s)"
  by pat_completeness auto
termination
  by (relation "measure (\<lambda>(cur, s). length s)") auto

definition split_whitespace :: "string \<Rightarrow> string list" where
  "split_whitespace s = split_ws [] s"

text \<open>\<open>s.trim().is_empty()\<close>.\<close>

definition is_blank :: "string \<Rightarrow> bool" where
  "is_blank s \<longleftrightarrow> split_whitespace s = []"

text \<open>Printable ASCII, neither white space nor the start of an encoded one.\<close>

definition plain :: "char \<Rightarrow> bool" where
  "plain c \<longleftrightarrow> 33 \<le> code c \<and> code c < 127"

lemma ws_len_plain [simp]: "plain c \<Longrightarrow> ws_len (c # s) = 0"
  by (auto simp: plain_def split: list.splits)

lemma ws_len_space [simp]: "ws_len (CHR '' '' # s) = 1"
  by simp

lemma split_ws_plain: "\<forall>c \<in> set w. plain c \<Longrightarrow> split_ws cur (w @ s) = split_ws (rev w @ cur) s"
proof (induction w arbitrary: cur)
  case (Cons c w)
  then show ?case by (simp del: ws_len.simps)
qed simp

lemma split_whitespace_join:
  "\<forall>w \<in> set ws. w \<noteq> [] \<and> (\<forall>c \<in> set w. plain c) \<Longrightarrow> split_whitespace (join '' '' ws) = ws"
  unfolding split_whitespace_def
proof (induction "'' ''" ws rule: join.induct)
  case (2 x)
  then show ?case using split_ws_plain[of x "[]" "[]"] by simp
next
  case (3 x y ys)
  then have "split_ws [] (x @ '' '' @ join '' '' (y # ys)) = x # split_ws [] (join '' '' (y # ys))"
    by (simp add: split_ws_plain del: ws_len.simps)
  with 3 show ?case by simp
qed simp

section \<open>Decimal numbers\<close>

datatype int_error = IntEmpty | InvalidDigit | PosOverflow

definition is_digit :: "char \<Rightarrow> bool" where
  "is_digit c \<longleftrightarrow> 48 \<le> code c \<and> code c \<le> 57"

fun parse_digits :: "nat \<Rightarrow> nat \<Rightarrow> string \<Rightarrow> (int_error, nat) result" where
  "parse_digits hi acc [] = Ok acc"
| "parse_digits hi acc (c # s) =
     (if \<not> is_digit c then Err InvalidDigit
      else if hi < acc * 10 + (code c - 48) then Err PosOverflow
      else parse_digits hi (acc * 10 + (code c - 48)) s)"

text \<open>\<open>str::parse\<close> at an unsigned type whose greatest value is \<open>hi\<close>: one leading plus is allowed.\<close>

fun parse_uint :: "nat \<Rightarrow> string \<Rightarrow> (int_error, nat) result" where
  "parse_uint hi [] = Err IntEmpty"
| "parse_uint hi [c] = (if c = CHR ''+'' \<or> c = CHR ''-'' then Err InvalidDigit else parse_digits hi 0 [c])"
| "parse_uint hi (c # s) = parse_digits hi 0 (if c = CHR ''+'' then s else c # s)"

definition digit_char :: "nat \<Rightarrow> char" where
  "digit_char d = char_of (48 + d)"

fun show_nat :: "nat \<Rightarrow> string" where
  "show_nat n = (if n < 10 then [digit_char n] else show_nat (n div 10) @ [digit_char (n mod 10)])"

declare show_nat.simps [simp del]

definition show_int :: "int \<Rightarrow> string" where
  "show_int i = (if i < 0 then ''-'' @ show_nat (nat (- i)) else show_nat (nat i))"

lemma code_digit_char: "d < 10 \<Longrightarrow> code (digit_char d) = 48 + d"
  by (simp add: digit_char_def)

lemma parse_digits_bound: "parse_digits hi acc s = Ok n \<Longrightarrow> acc \<le> hi \<Longrightarrow> n \<le> hi"
  by (induction hi acc s rule: parse_digits.induct) (auto split: if_splits)

lemma parse_uint_bound: "parse_uint hi s = Ok n \<Longrightarrow> n \<le> hi"
  by (cases "(hi, s)" rule: parse_uint.cases) (auto split: if_splits dest: parse_digits_bound)

lemma parse_digits_snoc:
  assumes "parse_digits hi acc s = Ok m" "is_digit c" "m * 10 + (code c - 48) \<le> hi"
  shows "parse_digits hi acc (s @ [c]) = Ok (m * 10 + (code c - 48))"
  using assms by (induction hi acc s rule: parse_digits.induct) (auto split: if_splits)

lemma parse_digits_show_nat: "n \<le> hi \<Longrightarrow> parse_digits hi 0 (show_nat n) = Ok n"
proof (induction n rule: show_nat.induct)
  case (1 n)
  show ?case
  proof (cases "n < 10")
    case True
    with "1.prems" show ?thesis
      by (simp add: show_nat.simps[of n] is_digit_def code_digit_char)
  next
    case False
    with 1 have "parse_digits hi 0 (show_nat (n div 10)) = Ok (n div 10)" by simp
    from parse_digits_snoc[OF this, of "digit_char (n mod 10)"] "1.prems" False
    show ?thesis
      by (simp add: show_nat.simps[of n] is_digit_def code_digit_char)
  qed
qed

lemma show_nat_digits: "\<forall>c \<in> set (show_nat n). is_digit c"
proof (induction n rule: show_nat.induct)
  case (1 n)
  then show ?case
    by (cases "n < 10") (auto simp: show_nat.simps[of n] is_digit_def code_digit_char)
qed

lemma show_nat_nonempty [simp]: "show_nat n \<noteq> []"
  by (subst show_nat.simps) simp

lemma parse_uint_digits: "s \<noteq> [] \<Longrightarrow> \<forall>c \<in> set s. is_digit c \<Longrightarrow> parse_uint hi s = parse_digits hi 0 s"
  by (cases "(hi, s)" rule: parse_uint.cases) (auto simp: is_digit_def)

lemma parse_uint_show_nat [simp]: "n \<le> hi \<Longrightarrow> parse_uint hi (show_nat n) = Ok n"
  using show_nat_digits by (simp add: parse_uint_digits parse_digits_show_nat)

lemma show_nat_inject [simp]: "show_nat m = show_nat n \<longleftrightarrow> m = n"
  by (metis parse_uint_show_nat max.cobounded1 max.cobounded2 sum.inject(2))

end
