(* ===== verification/Narinfo.thy ===== *)
theory Narinfo
  imports Strings
begin

text \<open>
  crates/narinfo/src/lib.rs: narinfo files, the Nix base32 encoding of their hashes, the
  fingerprint a signature covers, and the verification of signatures.

  The base64 and hex decoders (crate \<open>data_encoding\<close>) and the Ed25519 operations (crate
  \<open>ed25519_compact\<close>) are the parameters of a \<open>crypto\<close> record.
\<close>

unbundle bit_operations_syntax

record crypto =
  base64_decode :: "string \<Rightarrow> u8 list option"
  base64_nopad_decode :: "string \<Rightarrow> u8 list option"
  hex_decode :: "string \<Rightarrow> u8 list option"
  pk_validate :: "u8 list \<Rightarrow> bool"
  ed_verify :: "u8 list \<Rightarrow> bytes \<Rightarrow> u8 list \<Rightarrow> bool"

datatype narinfo_error =
    IoError
  | MalformedLine string
  | MissingStorePath
  | ParseInt string int_error
  | MissingPublicKeySeparator string
  | InvalidPublicKeyBase64 string
  | InvalidPublicKeySize nat
  | InvalidPublicKeyEncoding string

record narinfo =
  store_path :: string
  ni_url :: string
  compression :: string
  file_hash :: string
  file_size :: nat
  nar_hash :: string
  nar_size :: nat
  references :: "string list"
  deriver :: string
  sig :: "string list"
  ca :: string

definition narinfo_default :: narinfo where
  "narinfo_default = \<lparr>store_path = [], ni_url = [], compression = [], file_hash = [], file_size = 0,
     nar_hash = [], nar_size = 0, references = [], deriver = [], sig = [], ca = []\<rparr>"

section \<open>Nix base32\<close>

definition nix_base32_alphabet :: string where
  "nix_base32_alphabet = ''0123456789abcdfghijklmnpqrsvwxyz''"

definition base32_len :: "u8 list \<Rightarrow> nat" where
  "base32_len bs = (length bs * 8 - 1) div 5 + 1"

definition byte_at :: "u8 list \<Rightarrow> nat \<Rightarrow> u8 option" where
  "byte_at bs i = (if i < length bs then Some (bs ! i) else None)"

text \<open>The body of the encoder's loop at \<open>n\<close>, on 32-bit words as in the code.\<close>

definition base32_digit :: "u8 list \<Rightarrow> nat \<Rightarrow> nat" where
  "base32_digit bs n =
     (let b = n * 5; i = b div 8; j = b mod 8;
          c = (drop_bit j (ucast (bs ! i)) :: u32)
              OR (case byte_at bs (i + 1) of None \<Rightarrow> 0 | Some b' \<Rightarrow> push_bit (8 - j) (ucast b'))
      in unat (c AND 0x1F))"

definition nix_base32_encode :: "u8 list \<Rightarrow> string" where
  "nix_base32_encode bs =
     (if bs = [] then []
      else map (\<lambda>n. nix_base32_alphabet ! base32_digit bs n) (rev [0..<base32_len bs]))"

text \<open>The reference: the bytes as a little-endian number, written in base 32.\<close>

fun le_value :: "u8 list \<Rightarrow> nat" where
  "le_value [] = 0"
| "le_value (b # bs) = unat b + 256 * le_value bs"

lemma unat_u8: "unat (b :: u8) < 256"
proof -
  have "unat b < 2 ^ LENGTH(8)" by (rule unsigned_less)
  then show ?thesis by simp
qed

lemma le_value_bound: "le_value bs < 256 ^ length bs"
proof (induction bs)
  case (Cons b bs)
  with unat_u8[of b] show ?case by simp
qed simp

lemma le_value_drop: "le_value bs div 256 ^ i = le_value (drop i bs)"
proof (induction i arbitrary: bs)
  case (Suc i)
  show ?case
  proof (cases bs)
    case (Cons b bs')
    with unat_u8[of b] have "le_value bs div 256 = le_value bs'" by (simp add: Cons)
    then show ?thesis using Suc[of bs'] by (simp add: Cons div_mult2_eq)
  qed simp
qed simp

lemma le_value_inject: "length as = length bs \<Longrightarrow> le_value as = le_value bs \<Longrightarrow> as = bs"
proof (induction as bs rule: list_induct2)
  case (Cons a as b bs)
  from Cons.prems have eq: "unat a + 256 * le_value as = unat b + 256 * le_value bs" by simp
  then have "(unat a + 256 * le_value as) mod 256 = (unat b + 256 * le_value bs) mod 256" by simp
  then have "unat a = unat b" using unat_u8[of a] unat_u8[of b] by simp
  with eq Cons.IH show ?case by (simp add: word_unat_eq_iff)
qed simp

lemma or_push_bit_add:
  fixes x y :: nat
  assumes "x < 2 ^ n"
  shows "x OR push_bit n y = x + push_bit n y"
proof (rule disjunctive_add [symmetric])
  fix k
  have "x = take_bit n x" using assms by (simp add: take_bit_nat_eq_self)
  then show "\<not> bit x k \<or> \<not> bit (push_bit n y) k"
    by (metis bit_push_bit_iff bit_take_bit_iff linorder_not_le)
qed

lemma and_31: "x AND 31 = x mod 32" for x :: nat
  using take_bit_eq_mask[of 5 x] by (simp add: take_bit_eq_mod mask_eq_exp_minus_1)

lemma unat_shift_window:
  fixes b b' :: u8
  assumes "j < 8"
  shows "unat (((drop_bit j (ucast b) :: u32) OR push_bit (8 - j) (ucast b')) AND 0x1F)
    = ((unat b + 256 * unat b') div 2 ^ j) mod 32"
proof -
  have lt: "unat b div 2 ^ j < 2 ^ (8 - j)"
  proof -
    have "unat b < 2 ^ (8 - j) * 2 ^ j"
      using unat_u8[of b] assms by (simp flip: power_add)
    then show ?thesis by (simp add: less_mult_imp_div_less)
  qed
  have push: "unat (push_bit (8 - j) (ucast b') :: u32) = unat b' * 2 ^ (8 - j)"
  proof -
    have "unat b' * 2 ^ (8 - j) < 256 * 2 ^ 8"
      using unat_u8[of b'] power_increasing[of "8 - j" 8 "2::nat"]
      by (intro mult_less_le_imp_less) auto
    then show ?thesis
      using unat_u8[of b']
      by (simp only: unsigned_push_bit_eq unsigned_ucast_eq)
        (simp add: push_bit_eq_mult take_bit_nat_eq_self)
  qed
  have drop: "unat (drop_bit j (ucast b) :: u32) = unat b div 2 ^ j"
    using unat_u8[of b]
    by (simp only: unsigned_drop_bit_eq unsigned_ucast_eq)
      (simp add: drop_bit_eq_div take_bit_nat_eq_self)
  have "unat ((drop_bit j (ucast b) :: u32) OR push_bit (8 - j) (ucast b'))
      = unat b div 2 ^ j + unat b' * 2 ^ (8 - j)"
    using or_push_bit_add[OF lt, of "unat b'"] push drop
    by (simp add: unsigned_or_eq push_bit_eq_mult)
  also have "\<dots> = (unat b + 256 * unat b') div 2 ^ j"
  proof -
    have "256 * unat b' = unat b' * 2 ^ (8 - j) * 2 ^ j"
      using assms by (simp flip: power_add add: mult.assoc)
    then show ?thesis by (simp only: div_mult_self3 power_eq_0_iff) simp
  qed
  finally show ?thesis
    by (simp add: unsigned_and_eq and_31)
qed

lemma base32_index:
  assumes "bs \<noteq> []" "n < base32_len bs"
  shows "n * 5 div 8 < length bs"
proof -
  have "n \<le> (length bs * 8 - 1) div 5" using assms(2) by (simp add: base32_len_def)
  then have "n * 5 \<le> (length bs * 8 - 1) div 5 * 5" by simp
  also have "\<dots> \<le> length bs * 8 - 1" by (rule div_times_less_eq_dividend)
  also have "\<dots> < length bs * 8" using assms(1) by simp
  finally show ?thesis by (rule less_mult_imp_div_less)
qed

lemma base32_digit_eq:
  assumes "bs \<noteq> []" "n < base32_len bs"
  shows "base32_digit bs n = le_value bs div 32 ^ n mod 32"
proof -
  define i j where "i = n * 5 div 8" and "j = n * 5 mod 8"
  define b' where "b' = (case byte_at bs (i + 1) of None \<Rightarrow> 0 | Some b \<Rightarrow> b)"
  have ij: "5 * n = 8 * i + j" "j < 8" by (simp_all add: i_def j_def)
  have i: "i < length bs" using base32_index[OF assms] by (simp add: i_def)
  have tail: "\<exists>z. le_value (drop (Suc i) bs) = unat b' + 256 * z"
  proof (cases "Suc i < length bs")
    case True
    then show ?thesis by (auto simp: b'_def byte_at_def simp flip: Cons_nth_drop_Suc)
  qed (simp add: b'_def byte_at_def)
  then obtain z where z: "le_value (drop i bs) = unat (bs ! i) + 256 * (unat b' + 256 * z)"
    using i by (auto simp flip: Cons_nth_drop_Suc)
  have "(32::nat) ^ n = 2 ^ (8 * i + j)"
    by (simp add: power_mult flip: ij(1))
  also have "\<dots> = 256 ^ i * 2 ^ j" by (simp add: power_add power_mult)
  finally have "le_value bs div 32 ^ n = le_value (drop i bs) div 2 ^ j"
    by (simp add: div_mult2_eq le_value_drop)
  also have "\<dots> mod 32 = ((unat (bs ! i) + 256 * unat b') div 2 ^ j) mod 32"
  proof -
    have "(65536::nat) = 32 * 2 ^ (11 - j) * 2 ^ j"
      using ij(2) by (simp flip: power_add add: mult.assoc)
    then have "le_value (drop i bs) = (unat (bs ! i) + 256 * unat b') + 32 * 2 ^ (11 - j) * z * 2 ^ j"
      by (simp add: z algebra_simps)
    then have "le_value (drop i bs) div 2 ^ j
        = 32 * (2 ^ (11 - j) * z) + (unat (bs ! i) + 256 * unat b') div 2 ^ j"
      by (simp only: div_mult_self1 mult.assoc [symmetric] power_eq_0_iff) simp
    then show ?thesis by simp
  qed
  also have "\<dots> = base32_digit bs n"
  proof -
    have "(case byte_at bs (i + 1) of None \<Rightarrow> 0 | Some b \<Rightarrow> push_bit (8 - j) (ucast b))
        = (push_bit (8 - j) (ucast b') :: u32)"
      by (simp add: b'_def split: option.split)
    then show ?thesis
      using unat_shift_window[OF ij(2), of "bs ! i" b']
      unfolding base32_digit_def Let_def by (fold i_def j_def) simp
  qed
  finally show ?thesis by simp
qed

text \<open>Two numbers with the same base-32 digits agree modulo the power of 32.\<close>

lemma digits_determine:
  fixes a b :: nat
  assumes "\<forall>n < len. a div 32 ^ n mod 32 = b div 32 ^ n mod 32"
  shows "a mod 32 ^ len = b mod 32 ^ len"
  using assms
proof (induction len)
  case (Suc len)
  then show ?case by (simp add: mod_mult2_eq mult.commute [of 32])
qed simp

lemma le_value_len: "bs \<noteq> [] \<Longrightarrow> le_value bs < 32 ^ base32_len bs"
proof -
  assume "bs \<noteq> []"
  have "length bs * 8 \<le> 5 * base32_len bs"
  proof -
    obtain m where m: "length bs * 8 = Suc m" using \<open>bs \<noteq> []\<close> by (cases "length bs * 8") auto
    have "m < 5 + 5 * (m div 5)" by (rule dividend_less_times_div) simp
    then show ?thesis by (simp add: base32_len_def m)
  qed
  then have "(2::nat) ^ (length bs * 8) \<le> 2 ^ (5 * base32_len bs)"
    by (rule power_increasing) simp
  then have "(256::nat) ^ length bs \<le> 32 ^ base32_len bs"
    by (simp add: power_mult mult.commute [of "length bs"])
  with le_value_bound[of bs] show ?thesis by simp
qed

lemma alphabet_nth_inject:
  "a < 32 \<Longrightarrow> b < 32 \<Longrightarrow> nix_base32_alphabet ! a = nix_base32_alphabet ! b \<longleftrightarrow> a = b"
proof -
  have "distinct nix_base32_alphabet" "length nix_base32_alphabet = 32"
    by (simp_all add: nix_base32_alphabet_def)
  then show "a < 32 \<Longrightarrow> b < 32 \<Longrightarrow> ?thesis" by (simp add: nth_eq_iff_index_eq)
qed

lemma base32_digit_lt: "base32_digit bs n < 32"
proof -
  have "unat (c AND 0x1F) < 32" for c :: u32
    by (simp add: unsigned_and_eq and_31)
  then show ?thesis by (simp add: base32_digit_def Let_def)
qed

lemma length_nix_base32_encode: "length (nix_base32_encode bs) = (if bs = [] then 0 else base32_len bs)"
  by (simp add: nix_base32_encode_def)

lemma nix_base32_encode_alphabet: "set (nix_base32_encode bs) \<subseteq> set nix_base32_alphabet"
proof -
  have "length nix_base32_alphabet = 32" by (simp add: nix_base32_alphabet_def)
  then show ?thesis by (auto simp: nix_base32_encode_def base32_digit_lt)
qed

lemma nix_base32_encode_le_value:
  "bs \<noteq> [] \<Longrightarrow> nix_base32_encode bs =
     map (\<lambda>n. nix_base32_alphabet ! (le_value bs div 32 ^ n mod 32)) (rev [0..<base32_len bs])"
  by (simp add: nix_base32_encode_def base32_digit_eq)

lemma nix_base32_encode_inject:
  assumes "length as = length bs" "nix_base32_encode as = nix_base32_encode bs"
  shows "as = bs"
proof (cases "as = []")
  case False
  with assms have ne: "as \<noteq> []" "bs \<noteq> []" and len: "base32_len as = base32_len bs"
    by (auto simp: base32_len_def)
  from assms(2) have "\<forall>n < base32_len bs. le_value as div 32 ^ n mod 32 = le_value bs div 32 ^ n mod 32"
    by (simp add: nix_base32_encode_le_value[OF ne(1)] nix_base32_encode_le_value[OF ne(2)] len
        map_eq_conv alphabet_nth_inject del: map_eq_conv) (auto simp: alphabet_nth_inject)
  then have "le_value as mod 32 ^ base32_len bs = le_value bs mod 32 ^ base32_len bs"
    by (rule digits_determine)
  with le_value_len[OF ne(1)] le_value_len[OF ne(2)] len assms(1) show ?thesis
    by (simp add: le_value_inject)
qed (use assms in simp)

section \<open>Hash and key fields\<close>

definition is_ascii_hexdigit :: "char \<Rightarrow> bool" where
  "is_ascii_hexdigit c \<longleftrightarrow> is_digit c \<or> byte_in 65 70 c \<or> byte_in 97 102 c"

definition normalize_nar_hash :: "crypto \<Rightarrow> string \<Rightarrow> string" where
  "normalize_nar_hash C s =
     (case split_once '':'' s of
        None \<Rightarrow> s
      | Some (algo, digest) \<Rightarrow>
          if algo = ''sha256'' \<and> length digest = 64 \<and> list_all is_ascii_hexdigit digest
          then (case hex_decode C digest of
                  Some bs \<Rightarrow> algo @ '':'' @ nix_base32_encode bs
                | None \<Rightarrow> s)
          else s)"

definition is_store_hash :: "string \<Rightarrow> bool" where
  "is_store_hash hash \<longleftrightarrow> length hash = 32 \<and> list_all (\<lambda>b. b \<in> set nix_base32_alphabet) hash"

definition decode_base64_lenient :: "crypto \<Rightarrow> string \<Rightarrow> u8 list option" where
  "decode_base64_lenient C input =
     (if suffix ''='' input then base64_decode C input else base64_nopad_decode C input)"

definition parse_public_key :: "crypto \<Rightarrow> string \<Rightarrow> (narinfo_error, string \<times> u8 list) result" where
  "parse_public_key C input =
     (case split_once '':'' input of
        None \<Rightarrow> Err (MissingPublicKeySeparator input)
      | Some (name, b64) \<Rightarrow>
          if name = [] then Err (MissingPublicKeySeparator input)
          else (case decode_base64_lenient C b64 of
              None \<Rightarrow> Err (InvalidPublicKeyBase64 input)
            | Some raw \<Rightarrow>
                if length raw \<noteq> 32 then Err (InvalidPublicKeySize (length raw))
                else if \<not> pk_validate C raw then Err (InvalidPublicKeyEncoding input)
                else Ok (name, raw)))"

text \<open>What the hex decoder is relied on for: two digits make a byte.\<close>

definition hex_decode_ok :: "crypto \<Rightarrow> bool" where
  "hex_decode_ok C \<longleftrightarrow> (\<forall>s bs. hex_decode C s = Some bs \<longrightarrow> length s = 2 * length bs)"

lemma normalize_nar_hash_idem:
  assumes "hex_decode_ok C"
  shows "normalize_nar_hash C (normalize_nar_hash C s) = normalize_nar_hash C s"
proof (cases "normalize_nar_hash C s = s")
  case False
  then obtain digest bs where d: "split_once '':'' s = Some (''sha256'', digest)" "length digest = 64"
    "hex_decode C digest = Some bs" "normalize_nar_hash C s = ''sha256:'' @ nix_base32_encode bs"
    by (auto simp: normalize_nar_hash_def split: option.splits if_splits)
  with assms have "length bs = 32" by (fastforce simp: hex_decode_ok_def)
  then have "length (nix_base32_encode bs) = 52"
    by (auto simp: length_nix_base32_encode base32_len_def)
  moreover have "split_once '':'' (''sha256'' @ CHR '':'' # [] @ nix_base32_encode bs)
      = Some (''sha256'', nix_base32_encode bs)"
    by (rule split_once_first) simp
  ultimately have "normalize_nar_hash C (''sha256:'' @ nix_base32_encode bs) = ''sha256:'' @ nix_base32_encode bs"
    by (simp add: normalize_nar_hash_def)
  then show ?thesis by (simp only: d(4))
qed simp

lemma parse_public_key_Ok_iff:
  "parse_public_key C input = Ok (name, key) \<longleftrightarrow>
     (\<exists>b64. split_once '':'' input = Some (name, b64) \<and> name \<noteq> [] \<and>
        decode_base64_lenient C b64 = Some key \<and> length key = 32 \<and> pk_validate C key)"
  by (auto simp: parse_public_key_def split: option.splits)

section \<open>Parsing\<close>

definition parse_field :: "string \<Rightarrow> string \<Rightarrow> narinfo \<Rightarrow> (narinfo_error, narinfo) result" where
  "parse_field key v ni =
     (if key = ''StorePath'' then Ok (ni\<lparr>store_path := v\<rparr>)
      else if key = ''URL'' then Ok (ni\<lparr>ni_url := v\<rparr>)
      else if key = ''Compression'' then Ok (ni\<lparr>compression := v\<rparr>)
      else if key = ''FileHash'' then Ok (ni\<lparr>file_hash := v\<rparr>)
      else if key = ''FileSize'' then
        (case parse_uint u64_max v of Err e \<Rightarrow> Err (ParseInt ''FileSize'' e) | Ok n \<Rightarrow> Ok (ni\<lparr>file_size := n\<rparr>))
      else if key = ''NarHash'' then Ok (ni\<lparr>nar_hash := v\<rparr>)
      else if key = ''NarSize'' then
        (case parse_uint u64_max v of Err e \<Rightarrow> Err (ParseInt ''NarSize'' e) | Ok n \<Rightarrow> Ok (ni\<lparr>nar_size := n\<rparr>))
      else if key = ''References'' \<and> v \<noteq> [] then Ok (ni\<lparr>references := split_whitespace v\<rparr>)
      else if key = ''Deriver'' then Ok (ni\<lparr>deriver := v\<rparr>)
      else if key = ''Sig'' then Ok (ni\<lparr>sig := sig ni @ [v]\<rparr>)
      else if key = ''CA'' then Ok (ni\<lparr>ca := v\<rparr>)
      else Ok ni)"

fun parse_lines :: "bytes list \<Rightarrow> narinfo \<Rightarrow> (narinfo_error, narinfo) result" where
  "parse_lines [] ni = Ok ni"
| "parse_lines (l # ls) ni =
     (if \<not> utf8_valid l then Err IoError
      else if l = [] then parse_lines ls ni
      else (case split_once '': '' l of
              None \<Rightarrow> Err (MalformedLine l)
            | Some (key, v) \<Rightarrow>
                (case parse_field key v ni of Err e \<Rightarrow> Err e | Ok ni' \<Rightarrow> parse_lines ls ni')))"

definition narinfo_parse :: "bytes \<Rightarrow> (narinfo_error, narinfo) result" where
  "narinfo_parse body =
     (case parse_lines (buf_lines body) narinfo_default of
        Err e \<Rightarrow> Err e
      | Ok ni \<Rightarrow> if store_path ni = [] then Err MissingStorePath else Ok ni)"

section \<open>Fingerprint and signatures\<close>

definition abs_reference :: "string \<Rightarrow> string" where
  "abs_reference r = (if prefix ''/nix/store/'' r then r else ''/nix/store/'' @ r)"

definition fingerprint :: "crypto \<Rightarrow> narinfo \<Rightarrow> string" where
  "fingerprint C ni =
     ''1;'' @ store_path ni @ '';'' @ normalize_nar_hash C (nar_hash ni) @ '';''
       @ show_nat (nar_size ni) @ '';'' @ join '','' (map abs_reference (references ni))"

text \<open>The loop over the signature lines of \<open>verify_fingerprint\<close>.\<close>

fun any_signature :: "crypto \<Rightarrow> string \<Rightarrow> string \<Rightarrow> u8 list \<Rightarrow> string list \<Rightarrow> bool" where
  "any_signature C fp key_name key [] = False"
| "any_signature C fp key_name key (s # ss) =
     (case split_once '':'' s of
        None \<Rightarrow> any_signature C fp key_name key ss
      | Some (name, b64) \<Rightarrow>
          if name \<noteq> key_name then any_signature C fp key_name key ss
          else (case base64_decode C b64 of
              None \<Rightarrow> any_signature C fp key_name key ss
            | Some raw \<Rightarrow>
                if length raw \<noteq> 64 then any_signature C fp key_name key ss
                else if ed_verify C key fp raw then True
                else any_signature C fp key_name key ss))"

definition verify_fingerprint :: "crypto \<Rightarrow> string \<Rightarrow> string list \<Rightarrow> string \<Rightarrow> (narinfo_error, bool) result" where
  "verify_fingerprint C fp sigs public_key =
     (case parse_public_key C public_key of
        Err e \<Rightarrow> Err e
      | Ok (key_name, key) \<Rightarrow> Ok (any_signature C fp key_name key sigs))"

definition narinfo_verify :: "crypto \<Rightarrow> narinfo \<Rightarrow> string \<Rightarrow> (narinfo_error, bool) result" where
  "narinfo_verify C ni public_key = verify_fingerprint C (fingerprint C ni) (sig ni) public_key"

text \<open>A signature line signs \<open>fp\<close> under a key: the specification the loop decides.\<close>

definition signs :: "crypto \<Rightarrow> string \<Rightarrow> string \<Rightarrow> u8 list \<Rightarrow> string \<Rightarrow> bool" where
  "signs C fp key_name key s \<longleftrightarrow>
     (\<exists>b64 raw. split_once '':'' s = Some (key_name, b64) \<and> base64_decode C b64 = Some raw \<and>
        length raw = 64 \<and> ed_verify C key fp raw)"

lemma any_signature_iff: "any_signature C fp key_name key ss \<longleftrightarrow> (\<exists>s \<in> set ss. signs C fp key_name key s)"
  by (induction C fp key_name key ss rule: any_signature.induct) (auto simp: signs_def split: option.splits)

lemma verify_fingerprint_True_iff:
  "verify_fingerprint C fp sigs pk = Ok True \<longleftrightarrow>
     (\<exists>name key. parse_public_key C pk = Ok (name, key) \<and> (\<exists>s \<in> set sigs. signs C fp name key s))"
  by (auto simp: verify_fingerprint_def any_signature_iff split: sum.splits)

section \<open>A printed narinfo parses back\<close>

text \<open>The narinfo format as Nix writes it, and the values it can carry on one line.\<close>

definition line :: "string \<times> string \<Rightarrow> string" where
  "line kv = fst kv @ '': '' @ snd kv @ [nl]"

definition narinfo_fields :: "narinfo \<Rightarrow> (string \<times> string) list" where
  "narinfo_fields ni =
     [(''StorePath'', store_path ni), (''URL'', ni_url ni), (''Compression'', compression ni),
      (''FileHash'', file_hash ni), (''FileSize'', show_nat (file_size ni)),
      (''NarHash'', nar_hash ni), (''NarSize'', show_nat (nar_size ni)),
      (''References'', join '' '' (references ni)), (''Deriver'', deriver ni)]
     @ map (\<lambda>s. (''Sig'', s)) (sig ni) @ [(''CA'', ca ni)]"

definition narinfo_render :: "narinfo \<Rightarrow> string" where
  "narinfo_render ni = concat (map line (narinfo_fields ni))"

definition line_value :: "string \<Rightarrow> bool" where
  "line_value v \<longleftrightarrow> (\<forall>c \<in> set v. code c < 128 \<and> c \<noteq> nl \<and> c \<noteq> cr)"

definition printable_narinfo :: "narinfo \<Rightarrow> bool" where
  "printable_narinfo ni \<longleftrightarrow>
     store_path ni \<noteq> [] \<and> line_value (store_path ni) \<and> line_value (ni_url ni) \<and>
     line_value (compression ni) \<and> line_value (file_hash ni) \<and> line_value (nar_hash ni) \<and>
     line_value (deriver ni) \<and> line_value (ca ni) \<and> list_all line_value (sig ni) \<and>
     file_size ni \<le> u64_max \<and> nar_size ni \<le> u64_max \<and>
     list_all (\<lambda>r. r \<noteq> [] \<and> list_all plain r) (references ni)"

definition key_name_ok :: "string \<Rightarrow> bool" where
  "key_name_ok k \<longleftrightarrow> (\<forall>c \<in> set k. code c < 128 \<and> c \<noteq> nl \<and> c \<noteq> cr \<and> c \<noteq> CHR '':'')"

lemma buf_lines_line_field:
  assumes "key_name_ok k" "line_value v"
  shows "buf_lines (line (k, v) @ s) = (k @ '': '' @ v) # buf_lines s"
proof -
  have "nl \<notin> set (k @ '': '' @ v)" "\<forall>c \<in> set (k @ '': '' @ v). c \<noteq> cr"
    using assms by (auto simp: key_name_ok_def line_value_def)
  then have "buf_lines ((k @ '': '' @ v) @ nl # s) = (k @ '': '' @ v) # buf_lines s"
    by (intro buf_lines_line) (auto dest: last_in_set split: if_splits)
  then show ?thesis by (simp add: line_def)
qed

definition field_ok :: "string \<times> string \<Rightarrow> bool" where
  "field_ok kv \<longleftrightarrow> key_name_ok (fst kv) \<and> line_value (snd kv)"

fun apply_fields :: "(string \<times> string) list \<Rightarrow> narinfo \<Rightarrow> (narinfo_error, narinfo) result" where
  "apply_fields [] ni = Ok ni"
| "apply_fields ((k, v) # kvs) ni =
     (case parse_field k v ni of Err e \<Rightarrow> Err e | Ok ni' \<Rightarrow> apply_fields kvs ni')"

lemma parse_lines_field:
  assumes "key_name_ok k" "line_value v"
  shows "parse_lines ((k @ '': '' @ v) # ls) ni =
    (case parse_field k v ni of Err e \<Rightarrow> Err e | Ok ni' \<Rightarrow> parse_lines ls ni')"
proof -
  have "utf8_valid (k @ '': '' @ v)"
    using assms by (intro utf8_valid_ascii) (auto simp: key_name_ok_def line_value_def)
  moreover have "split_once '': '' (k @ '': '' @ v) = Some (k, v)"
    using split_once_first[of "CHR '':''" k "'' ''" v] assms by (auto simp: key_name_ok_def)
  ultimately show ?thesis by simp
qed

lemma buf_lines_fields:
  "list_all field_ok kvs \<Longrightarrow> buf_lines (concat (map line kvs)) = map (\<lambda>kv. fst kv @ '': '' @ snd kv) kvs"
proof (induction kvs)
  case (Cons kv kvs)
  then show ?case
    using buf_lines_line_field[of "fst kv" "snd kv" "concat (map line kvs)"] by (simp add: field_ok_def)
qed simp

lemma parse_lines_fields:
  "list_all field_ok kvs \<Longrightarrow> parse_lines (map (\<lambda>kv. fst kv @ '': '' @ snd kv) kvs) ni = apply_fields kvs ni"
proof (induction kvs ni rule: apply_fields.induct)
  case (2 k v kvs ni)
  then show ?case
    using parse_lines_field[of k v "map (\<lambda>kv. fst kv @ '': '' @ snd kv) kvs" ni]
    by (simp add: field_ok_def split: sum.split del: parse_lines.simps)
qed simp

lemma apply_fields_append:
  "apply_fields (xs @ ys) ni = (case apply_fields xs ni of Err e \<Rightarrow> Err e | Ok ni' \<Rightarrow> apply_fields ys ni')"
  by (induction xs ni rule: apply_fields.induct) (auto split: sum.split)

lemma apply_sig_fields:
  "apply_fields (map (\<lambda>s. (''Sig'', s)) ss) ni = Ok (ni\<lparr>sig := sig ni @ ss\<rparr>)"
  by (induction ss arbitrary: ni) (simp_all add: parse_field_def)

lemma narinfo_fields_ok:
  assumes "printable_narinfo ni"
  shows "list_all field_ok (narinfo_fields ni)"
proof -
  have nats: "line_value (show_nat n)" for n
    using show_nat_digits[of n] by (fastforce simp: line_value_def is_digit_def)
  have "set (join '' '' rs) \<subseteq> insert CHR '' '' (\<Union> (set ` set rs))" for rs :: "string list"
    by (induction "'' ''" rs rule: join.induct) auto
  then have "line_value (join '' '' (references ni))"
    using assms by (fastforce simp: printable_narinfo_def list_all_iff line_value_def plain_def)
  with nats assms show ?thesis
    by (simp add: narinfo_fields_def printable_narinfo_def field_ok_def key_name_ok_def list_all_iff)
qed

lemma narinfo_parse_render:
  assumes ok: "printable_narinfo ni"
  shows "narinfo_parse (narinfo_render ni) = Ok ni"
proof -
  have "split_whitespace (join '' '' (references ni)) = references ni"
    using ok by (intro split_whitespace_join) (auto simp: printable_narinfo_def list_all_iff)
  moreover have "join '' '' (references ni) = [] \<longleftrightarrow> references ni = []"
    using ok by (intro join_eq_Nil) (auto simp: printable_narinfo_def list_all_iff)
  ultimately have "apply_fields (narinfo_fields ni) narinfo_default = Ok ni"
    using ok by (simp add: narinfo_fields_def printable_narinfo_def apply_fields_append
        apply_sig_fields parse_field_def narinfo_default_def)
  then have "parse_lines (buf_lines (narinfo_render ni)) narinfo_default = Ok ni"
    by (simp only: narinfo_render_def buf_lines_fields[OF narinfo_fields_ok[OF ok]]
        parse_lines_fields[OF narinfo_fields_ok[OF ok]])
  with ok show ?thesis by (simp add: narinfo_parse_def printable_narinfo_def)
qed

section \<open>What a signature covers\<close>

definition fingerprint_text_ok :: "crypto \<Rightarrow> narinfo \<Rightarrow> bool" where
  "fingerprint_text_ok C ni \<longleftrightarrow> CHR '';'' \<notin> set (store_path ni) \<and>
     CHR '';'' \<notin> set (normalize_nar_hash C (nar_hash ni)) \<and>
     list_all (\<lambda>r. CHR '','' \<notin> set r) (references ni)"

lemma fingerprint_inject:
  assumes "fingerprint_text_ok C a" "fingerprint_text_ok C b"
  shows "fingerprint C a = fingerprint C b \<longleftrightarrow>
    store_path a = store_path b \<and>
    normalize_nar_hash C (nar_hash a) = normalize_nar_hash C (nar_hash b) \<and>
    nar_size a = nar_size b \<and> map abs_reference (references a) = map abs_reference (references b)"
proof -
  have sep: "CHR '';'' \<notin> set (show_nat n)" for n
    using show_nat_digits[of n] by (auto simp: is_digit_def)
  have refs: "\<forall>r \<in> set (map abs_reference (references x)). CHR '','' \<notin> set r \<and> r \<noteq> []"
    if "fingerprint_text_ok C x" for x
    using that by (auto simp: fingerprint_text_ok_def list_all_iff abs_reference_def)
  have "join '','' (map abs_reference (references a)) = join '','' (map abs_reference (references b))
      \<longleftrightarrow> map abs_reference (references a) = map abs_reference (references b)"
    using join_inject[OF refs[OF assms(1)] refs[OF assms(2)]] by auto
  with assms sep show ?thesis
    by (simp add: fingerprint_def fingerprint_text_ok_def append_char_inject)
qed

lemma fingerprint_signed_fields:
  "fingerprint C (ni\<lparr>ni_url := u, compression := c, file_hash := h, file_size := n, deriver := d, sig := s, ca := a\<rparr>)
     = fingerprint C ni"
  by (simp add: fingerprint_def)

section \<open>A concrete instance of the decoders\<close>

text \<open>
  A hex decoder as documented (both cases, two digits a byte), and toy signatures that are the
  message's length repeated, to evaluate the model at.
\<close>

definition hex_digit :: "char \<Rightarrow> nat option" where
  "hex_digit c = (if byte_in 48 57 c then Some (code c - 48)
     else if byte_in 97 102 c then Some (code c - 87)
     else if byte_in 65 70 c then Some (code c - 55) else None)"

fun hex_ref :: "string \<Rightarrow> u8 list option" where
  "hex_ref [] = Some []"
| "hex_ref [c] = None"
| "hex_ref (c # d # s) = (case (hex_digit c, hex_digit d, hex_ref s) of
     (Some x, Some y, Some bs) \<Rightarrow> Some (of_nat (16 * x + y) # bs) | _ \<Rightarrow> None)"

definition crypto_demo :: crypto where
  "crypto_demo = \<lparr>base64_decode = (\<lambda>s. Some (map (\<lambda>c. of_nat (code c)) s)),
     base64_nopad_decode = (\<lambda>s. Some (map (\<lambda>c. of_nat (code c)) s)),
     hex_decode = hex_ref, pk_validate = (\<lambda>_. True),
     ed_verify = (\<lambda>key msg sg. sg = replicate 64 (of_nat (length msg)))\<rparr>"

lemma hex_ref_length: "hex_ref s = Some bs \<Longrightarrow> length s = 2 * length bs"
  by (induction s arbitrary: bs rule: hex_ref.induct) (auto split: option.splits)

lemma crypto_demo_hex: "hex_decode_ok crypto_demo"
  by (simp add: hex_decode_ok_def crypto_demo_def hex_ref_length)

section \<open>Properties\<close>

text \<open>
  The word-level encoder is Nix's base32: the input bytes read as a little-endian number,
  written in base 32 with the most significant digit first. In particular no index into the
  bytes or the alphabet is out of range.
\<close>

theorem nix_base32_encode_spec:
  "nix_base32_encode bs =
     (if bs = [] then []
      else map (\<lambda>n. nix_base32_alphabet ! (le_value bs div 32 ^ n mod 32)) (rev [0..<base32_len bs]))
   \<and> list_all (\<lambda>n. n * 5 div 8 < length bs) (if bs = [] then [] else [0..<base32_len bs])"
  using nix_base32_encode_le_value[of bs] base32_index[of bs]
  by (simp add: list_all_iff nix_base32_encode_def [of "[]"])

text \<open>
  A 32-byte digest encodes to 52 characters of the alphabet, and two digests with the same
  encoding are equal.
\<close>

theorem nix_base32_digest:
  assumes "length as = 32" "length bs = 32"
  shows "length (nix_base32_encode as) = 52 \<and> set (nix_base32_encode as) \<subseteq> set nix_base32_alphabet \<and>
    (nix_base32_encode as = nix_base32_encode bs \<longleftrightarrow> as = bs)"
proof -
  have "as \<noteq> []" using assms by auto
  then have "length (nix_base32_encode as) = 52"
    using assms by (simp add: length_nix_base32_encode base32_len_def)
  with assms show ?thesis
    using nix_base32_encode_alphabet nix_base32_encode_inject[of as bs] by auto
qed

theorem nix_base32_digest_witness:
  "length (nix_base32_encode (replicate 32 7)) = 52 \<and>
   nix_base32_encode (replicate 32 7) \<noteq> nix_base32_encode (replicate 32 9)"
  using nix_base32_digest[of "replicate 32 7" "replicate 32 9"] by (simp add: replicate_eq_replicate)

text \<open>
  C30: A narinfo written field by field in Nix's format parses back to the same record, whatever
  its signatures and references.
\<close>

theorem narinfo_roundtrip:
  assumes "printable_narinfo ni"
  shows "narinfo_parse (narinfo_render ni) = Ok ni"
  using assms by (rule narinfo_parse_render)

theorem narinfo_roundtrip_witness:
  "narinfo_parse (narinfo_render (narinfo_default\<lparr>store_path := ''/nix/store/abc-hello'', nar_size := 123,
     references := [''abc-hello'', ''dep''], sig := [''key:sig='']\<rparr>))
   = Ok (narinfo_default\<lparr>store_path := ''/nix/store/abc-hello'', nar_size := 123,
     references := [''abc-hello'', ''dep''], sig := [''key:sig='']\<rparr>)"
  by (rule narinfo_roundtrip)
    (simp add: printable_narinfo_def narinfo_default_def line_value_def plain_def u64_max_def)

text \<open>
  A body is accepted only when every non-empty line is valid UTF-8 with a key and a value;
  the result then names a store path and its sizes fit 64 bits. Every other body is an error.
\<close>

theorem narinfo_parse_sound:
  assumes "narinfo_parse body = Ok ni"
  shows "store_path ni \<noteq> [] \<and> file_size ni \<le> u64_max \<and> nar_size ni \<le> u64_max \<and>
    list_all (\<lambda>l. utf8_valid l \<and> (l = [] \<or> sublist '': '' l)) (buf_lines body)"
proof -
  have field: "file_size ni'' \<le> u64_max \<and> nar_size ni'' \<le> u64_max"
    if "parse_field k v ni' = Ok ni''" "file_size ni' \<le> u64_max" "nar_size ni' \<le> u64_max" for k v ni' ni''
    using that parse_uint_bound by (auto simp: parse_field_def split: if_splits sum.splits)
  have "file_size ni'' \<le> u64_max \<and> nar_size ni'' \<le> u64_max \<and>
      list_all (\<lambda>l. utf8_valid l \<and> (l = [] \<or> sublist '': '' l)) ls"
    if "parse_lines ls ni' = Ok ni''" "file_size ni' \<le> u64_max" "nar_size ni' \<le> u64_max" for ls ni' ni''
    using that
  proof (induction ls ni' rule: parse_lines.induct)
    case (2 l ls ni')
    have u: "utf8_valid l" using "2.prems"(1) by (auto split: if_splits)
    show ?case
    proof (cases "l = []")
      case True
      with "2.prems" "2.IH"(1) show ?thesis by simp
    next
      case False
      obtain k v where kv: "split_once '': '' l = Some (k, v)"
        using "2.prems"(1) u False by (auto split: option.splits)
      obtain ni2 where ni2: "parse_field k v ni' = Ok ni2" "parse_lines ls ni2 = Ok ni''"
        using "2.prems"(1) u False kv by (auto split: sum.splits)
      from field[OF ni2(1)] "2.prems" have "file_size ni2 \<le> u64_max" "nar_size ni2 \<le> u64_max" by auto
      then have "file_size ni'' \<le> u64_max \<and> nar_size ni'' \<le> u64_max \<and>
         list_all (\<lambda>l. utf8_valid l \<and> (l = [] \<or> sublist '': '' l)) ls"
        using u by (intro "2.IH"(2)[OF _ False kv refl ni2(1) ni2(2)]) auto
      moreover have "sublist '': '' l" using kv split_once_None[of "'': ''" l] by auto
      ultimately show ?thesis using u by simp
    qed
  qed simp
  from this[of "buf_lines body" narinfo_default] assms show ?thesis
    by (simp add: narinfo_parse_def narinfo_default_def split: sum.splits if_splits)
qed

theorem narinfo_parse_sound_witness:
  "store_path (narinfo_default\<lparr>store_path := ''/x'', nar_size := 7\<rparr>) \<noteq> []"
proof -
  let ?ni = "narinfo_default\<lparr>store_path := ''/x'', nar_size := 7\<rparr>"
  have "narinfo_parse (narinfo_render ?ni) = Ok ?ni"
    by (rule narinfo_parse_render) (simp add: printable_narinfo_def narinfo_default_def line_value_def u64_max_def)
  from narinfo_parse_sound[OF this] show ?thesis by blast
qed

text \<open>
  Verification answers yes exactly when the public key parses and some signature line
  carries the key's name and a 64-byte signature of the fingerprint that the key verifies.
\<close>

theorem narinfo_verify_iff:
  "narinfo_verify C ni pk = Ok True \<longleftrightarrow>
     (\<exists>name key. parse_public_key C pk = Ok (name, key) \<and>
        (\<exists>s \<in> set (sig ni). signs C (fingerprint C ni) name key s))"
  by (simp add: narinfo_verify_def verify_fingerprint_True_iff)

text \<open>
  C23: The fingerprint binds exactly the signed fields of narinfos whose store path and normalised hash
  contain no semicolon and whose references contain no comma (which the parser does not check): two such
  narinfos have the same fingerprint if and only if they agree on store path, normalised NAR hash, NAR
  size and references, so among them a signature cannot be moved to other values of these; and of any
  narinfo it says nothing about the URL, compression, file hash and size, deriver, content address or signatures.
\<close>

theorem fingerprint_binds:
  assumes "fingerprint_text_ok C a" "fingerprint_text_ok C b"
  shows "(fingerprint C a = fingerprint C b \<longleftrightarrow>
      store_path a = store_path b \<and>
      normalize_nar_hash C (nar_hash a) = normalize_nar_hash C (nar_hash b) \<and>
      nar_size a = nar_size b \<and> map abs_reference (references a) = map abs_reference (references b))
    \<and> fingerprint C (a\<lparr>ni_url := u, compression := c, file_hash := h, file_size := n, deriver := d, sig := ss, ca := ca'\<rparr>)
      = fingerprint C a"
  using fingerprint_inject[OF assms] by (simp add: fingerprint_def)

theorem fingerprint_binds_witness:
  "fingerprint crypto_demo (narinfo_default\<lparr>store_path := ''/nix/store/a''\<rparr>)
   \<noteq> fingerprint crypto_demo (narinfo_default\<lparr>store_path := ''/nix/store/a'', nar_size := 1\<rparr>)"
proof -
  let ?a = "narinfo_default\<lparr>store_path := ''/nix/store/a''\<rparr>"
  have ok: "fingerprint_text_ok crypto_demo ?a" "fingerprint_text_ok crypto_demo (?a\<lparr>nar_size := 1\<rparr>)"
    by code_simp+
  from fingerprint_binds[OF ok] show ?thesis by (simp add: narinfo_default_def)
qed

lemma join_append: "xs \<noteq> [] \<Longrightarrow> ys \<noteq> [] \<Longrightarrow> join sep (xs @ ys) = join sep xs @ sep @ join sep ys"
proof (induction sep xs rule: join.induct)
  case (2 sep x)
  then show ?case by (cases ys) simp_all
qed simp_all

lemma abs_reference_comma:
  "abs_reference (x @ '',/nix/store/'' @ y) = abs_reference x @ '','' @ abs_reference (''/nix/store/'' @ y)"
proof -
  have "prefix p (x @ CHR '','' # z) \<longleftrightarrow> prefix p x" if "CHR '','' \<notin> set p" for p z
    using that by (auto simp: prefix_append prefix_Cons)
  from this[of "''/nix/store/''"] show ?thesis by (simp add: abs_reference_def)
qed

text \<open>
  C31: A signature does not tell a reference that contains a comma from two references: joining two of
  them into one word leaves the answer of the verification unchanged, for every key and every
  signature, and the parser reads both forms.
\<close>

theorem references_ambiguous:
  "narinfo_verify C (ni\<lparr>references := pre @ (x @ '',/nix/store/'' @ y) # post\<rparr>) pk =
     narinfo_verify C (ni\<lparr>references := pre @ x # (''/nix/store/'' @ y) # post\<rparr>) pk \<and>
   map_sum id references (narinfo_parse (''StorePath: /nix/store/s'' @ [nl] @ ''References: a,/nix/store/b'' @ [nl])) =
     Ok [''a,/nix/store/b''] \<and>
   map_sum id references (narinfo_parse (''StorePath: /nix/store/s'' @ [nl] @ ''References: a /nix/store/b'' @ [nl])) =
     Ok [''a'', ''/nix/store/b'']"
proof -
  let ?r = "map abs_reference"
  have one: "join '','' (?r ((x @ '',/nix/store/'' @ y) # post)) = join '','' (?r (x # (''/nix/store/'' @ y) # post))" for post
    unfolding list.map abs_reference_comma by (cases post) simp_all
  have "join '','' (?r (pre @ (x @ '',/nix/store/'' @ y) # post)) = join '','' (?r (pre @ x # (''/nix/store/'' @ y) # post))"
    using one[of post] by (cases "pre = []") (simp_all only: map_append append_Nil, simp_all only: join_append[of "?r pre"] list.map list.distinct map_is_Nil_conv not_False_eq_True)
  then have "fingerprint C (ni\<lparr>references := pre @ (x @ '',/nix/store/'' @ y) # post\<rparr>) =
      fingerprint C (ni\<lparr>references := pre @ x # (''/nix/store/'' @ y) # post\<rparr>)"
    by (simp add: fingerprint_def)
  moreover have "map_sum id references (narinfo_parse (''StorePath: /nix/store/s'' @ [nl] @ ''References: a,/nix/store/b'' @ [nl])) =
     Ok [''a,/nix/store/b'']" by code_simp
  moreover have "map_sum id references (narinfo_parse (''StorePath: /nix/store/s'' @ [nl] @ ''References: a /nix/store/b'' @ [nl])) =
     Ok [''a'', ''/nix/store/b'']" by code_simp
  ultimately show ?thesis by (simp add: narinfo_verify_def)
qed

text \<open>
  Normalisation makes attic's hexadecimal hashes verify like Nix's base32 ones: a narinfo
  whose hash is written in hex has the fingerprint of the same narinfo with the hash in base32,
  and normalising twice is normalising once.
\<close>

theorem normalize_nar_hash_attic:
  assumes "hex_decode_ok C" "length digest = 64" "list_all is_ascii_hexdigit digest"
    "hex_decode C digest = Some bs"
  shows "fingerprint C (ni\<lparr>nar_hash := ''sha256:'' @ digest\<rparr>)
      = fingerprint C (ni\<lparr>nar_hash := ''sha256:'' @ nix_base32_encode bs\<rparr>)
    \<and> normalize_nar_hash C (normalize_nar_hash C s) = normalize_nar_hash C s"
proof -
  have "split_once '':'' (''sha256'' @ CHR '':'' # [] @ digest) = Some (''sha256'', digest)"
    by (rule split_once_first) simp
  then have hex: "normalize_nar_hash C (''sha256:'' @ digest) = ''sha256:'' @ nix_base32_encode bs"
    using assms by (simp add: normalize_nar_hash_def)
  with normalize_nar_hash_idem[OF assms(1), of "''sha256:'' @ digest"] normalize_nar_hash_idem[OF assms(1), of s]
  show ?thesis by (simp add: fingerprint_def)
qed

theorem normalize_nar_hash_attic_witness:
  "fingerprint crypto_demo (narinfo_default\<lparr>nar_hash := ''sha256:'' @ replicate 64 CHR ''0''\<rparr>)
   = fingerprint crypto_demo (narinfo_default\<lparr>nar_hash := ''sha256:'' @ nix_base32_encode (replicate 32 0)\<rparr>)"
proof -
  have "hex_decode crypto_demo (replicate 64 CHR ''0'') = Some (replicate 32 0)"
    "list_all is_ascii_hexdigit (replicate 64 CHR ''0'')" "length (replicate 64 CHR ''0'') = 64"
    by code_simp+
  from normalize_nar_hash_attic[OF crypto_demo_hex this(3,2,1)] show ?thesis by blast
qed

end
