(* ===== verification/Health.thy ===== *)
theory Health
  imports Strings "HOL-Library.Product_Lexorder"
begin

text \<open>
  crates/health/src/lib.rs: the health of each upstream. The prober keeps a table of
  \<open>UpstreamHealth\<close> rows by URL; a probe or a race records a latency or a failure, which moves
  an exponential moving average and a three-state status. The table is an association list in
  the iteration order of the \<open>HashMap\<close>, about which nothing is assumed. The persistence
  callback is modelled by the list of the snapshots it was called with.

  The failure counter is a \<open>u32\<close> and the query counter a \<open>u64\<close>, as in the code, so they wrap.
\<close>

section \<open>Data\<close>

datatype health_status = Active | Degraded | Down

text \<open>The states from best to worst.\<close>

primrec severity :: "health_status \<Rightarrow> nat" where
  "severity Active = 0"
| "severity Degraded = 1"
| "severity Down = 2"

instantiation health_status :: linorder
begin

definition less_eq_health_status :: "health_status \<Rightarrow> health_status \<Rightarrow> bool" where
  "a \<le> b \<longleftrightarrow> severity a \<le> severity b"

definition less_health_status :: "health_status \<Rightarrow> health_status \<Rightarrow> bool" where
  "a < b \<longleftrightarrow> severity a < severity b"

instance
proof
  fix a b :: health_status
  assume "a \<le> b" "b \<le> a"
  then show "a = b" by (cases a; cases b) (simp_all add: less_eq_health_status_def)
qed (auto simp: less_eq_health_status_def less_health_status_def)

end

lemma health_status_bounds: "Active \<le> s" "s \<le> Down"
  by (cases s; simp add: less_eq_health_status_def)+

definition status_as_str :: "health_status \<Rightarrow> string" where
  "status_as_str s = (case s of Active \<Rightarrow> ''ACTIVE'' | Degraded \<Rightarrow> ''DEGRADED'' | Down \<Rightarrow> ''DOWN'')"

record upstream_health =
  h_url :: string
  h_priority :: int
  h_ema :: f64
  h_last_probe :: "instant option"
  h_fails :: u32
  h_queries :: "64 word"
  h_status :: health_status

definition health_new :: "string \<Rightarrow> int \<Rightarrow> upstream_health" where
  "health_new url pri = \<lparr>h_url = url, h_priority = pri, h_ema = Fin 0, h_last_probe = None,
     h_fails = 0, h_queries = 0, h_status = Active\<rparr>"

definition compute_status :: "u32 \<Rightarrow> health_status" where
  "compute_status fails = (if 10 \<le> fails then Down else if 3 \<le> fails then Degraded else Active)"

definition backoff_interval :: "duration \<Rightarrow> u32 \<Rightarrow> duration" where
  "backoff_interval base fails =
     duration_saturating_mul base (if fails \<le> 2 then 1 else if fails \<le> 9 then 4 else 10)"

type_synonym health_table = "(string \<times> upstream_health) list"
type_synonym health_snapshot = "string \<times> f64 \<times> u32 \<times> 64 word"

record prober =
  p_alpha :: f64
  p_table :: health_table
  p_persist :: bool
  p_persisted :: "health_snapshot list"

definition prober_new :: "f64 \<Rightarrow> prober" where
  "prober_new alpha = \<lparr>p_alpha = alpha, p_table = [], p_persist = False, p_persisted = []\<rparr>"

definition get_health :: "prober \<Rightarrow> string \<Rightarrow> upstream_health option" where
  "get_health p url = map_of (p_table p) url"

section \<open>Operations\<close>

fun init_upstreams :: "prober \<Rightarrow> (string \<times> int) list \<Rightarrow> prober" where
  "init_upstreams p [] = p"
| "init_upstreams p ((url, pri) # us) =
     init_upstreams
       (if get_health p url = None then p\<lparr>p_table := upsert url (health_new url pri) (p_table p)\<rparr> else p) us"

text \<open>\<open>u64::try_from(n.max(0)).unwrap_or_default()\<close> and \<open>u32::try_from(n.max(0)).unwrap_or(u32::MAX)\<close>.\<close>

definition u64_of_count :: "int \<Rightarrow> 64 word" where
  "u64_of_count n = (if max n 0 \<le> int u64_max then word_of_int (max n 0) else 0)"

definition u32_of_count :: "int \<Rightarrow> u32" where
  "u32_of_count n = (if max n 0 \<le> int u32_max then word_of_int (max n 0) else word_of_nat u32_max)"

definition seed :: "prober \<Rightarrow> string \<Rightarrow> f64 \<Rightarrow> int \<Rightarrow> int \<Rightarrow> prober" where
  "seed p url ema fails queries =
     (case get_health p url of
        None \<Rightarrow> p
      | Some h \<Rightarrow> p\<lparr>p_table := upsert url
          (h\<lparr>h_ema := ema, h_queries := u64_of_count queries, h_fails := u32_of_count fails,
             h_status := compute_status (u32_of_count fails)\<rparr>) (p_table p)\<rparr>)"

definition snapshot :: "upstream_health \<Rightarrow> health_snapshot" where
  "snapshot h = (h_url h, h_ema h, h_fails h, h_queries h)"

definition run_callback :: "upstream_health \<Rightarrow> prober \<Rightarrow> prober" where
  "run_callback h p = (if p_persist p then p\<lparr>p_persisted := p_persisted p @ [snapshot h]\<rparr> else p)"

definition set_health_persistence :: "prober \<Rightarrow> prober" where
  "set_health_persistence p = p\<lparr>p_persist := True\<rparr>"

text \<open>The moving average \<open>alpha.mul_add(ms, (1.0 - alpha) * ema)\<close>.\<close>

definition ema_update :: "f64 \<Rightarrow> f64 \<Rightarrow> f64 \<Rightarrow> f64" where
  "ema_update alpha ms ema = f_mul_add alpha ms (f_mul (f_sub (Fin 1) alpha) ema)"

definition health_latency :: "f64 \<Rightarrow> instant \<Rightarrow> f64 \<Rightarrow> upstream_health \<Rightarrow> upstream_health" where
  "health_latency alpha now ms h =
     h\<lparr>h_ema := (if h_queries h = 0 then ms else ema_update alpha ms (h_ema h)),
       h_fails := 0, h_queries := h_queries h + 1, h_status := Active, h_last_probe := Some now\<rparr>"

definition record_latency :: "prober \<Rightarrow> instant \<Rightarrow> string \<Rightarrow> f64 \<Rightarrow> prober" where
  "record_latency p now url ms =
     (case get_health p url of
        None \<Rightarrow> p
      | Some h \<Rightarrow> let h' = health_latency (p_alpha p) now ms h
                 in run_callback h' (p\<lparr>p_table := upsert url h' (p_table p)\<rparr>))"

definition health_failure :: "upstream_health \<Rightarrow> upstream_health" where
  "health_failure h = h\<lparr>h_fails := h_fails h + 1, h_status := compute_status (h_fails h + 1)\<rparr>"

definition record_failure :: "prober \<Rightarrow> string \<Rightarrow> prober" where
  "record_failure p url =
     (case get_health p url of
        None \<Rightarrow> p
      | Some h \<Rightarrow> let h' = health_failure h
                 in run_callback h' (p\<lparr>p_table := upsert url h' (p_table p)\<rparr>))"

text \<open>The comparator of \<open>sorted_by_latency\<close>, branch by branch.\<close>

definition partial_cmp_or_equal :: "f64 \<Rightarrow> f64 \<Rightarrow> ordering" where
  "partial_cmp_or_equal a b = (if f_lt a b then Less else if f_lt b a then Greater else Equal)"

definition within_window :: "upstream_health \<Rightarrow> upstream_health \<Rightarrow> bool" where
  "within_window a b \<longleftrightarrow> f_lt (Fin 0) (h_ema b) \<and>
     f_lt (f_div (f_abs (f_sub (h_ema a) (h_ema b))) (h_ema b)) (Fin (1 / 10))"

definition health_cmp :: "upstream_health \<Rightarrow> upstream_health \<Rightarrow> ordering" where
  "health_cmp a b =
     (if h_status a = Down \<and> h_status b \<noteq> Down then Greater
      else if h_status a \<noteq> Down \<and> h_status b = Down then Less
      else if within_window a b \<and> h_priority a \<noteq> h_priority b
        then cmp_linorder (h_priority a) (h_priority b)
      else if f_eq (h_ema a) (Fin 0) \<and> \<not> f_eq (h_ema b) (Fin 0) then Greater
      else if \<not> f_eq (h_ema a) (Fin 0) \<and> f_eq (h_ema b) (Fin 0) then Less
      else partial_cmp_or_equal (h_ema a) (h_ema b))"

definition sorted_by_latency :: "prober \<Rightarrow> upstream_health list" where
  "sorted_by_latency p = sort_by health_cmp (map snd (p_table p))"

text \<open>
  \<open>probe_upstream\<close>: a HEAD and then a GET of \<open>/nix-cache-info\<close>; the answers of the backend,
  whether the whole probe ran into \<open>PROBE_TIMEOUT\<close>, and the measured time are inputs.
\<close>

datatype probe_answer = ProbeResponse nat | ProbeMissing | ProbeError

definition probe_timeout :: duration where "probe_timeout = secs 10"

fun probe_methods :: "probe_answer list \<Rightarrow> bool" where
  "probe_methods [] = False"
| "probe_methods (a # as) = (case a of ProbeResponse st \<Rightarrow> if st = 200 then True else probe_methods as
                                     | _ \<Rightarrow> probe_methods as)"

definition probe_upstream ::
  "prober \<Rightarrow> instant \<Rightarrow> string \<Rightarrow> probe_answer \<Rightarrow> probe_answer \<Rightarrow> bool \<Rightarrow> f64 \<Rightarrow> prober" where
  "probe_upstream p now url head_answer get_answer timed_out elapsed_ms =
     (if get_health p url = None then p
      else if \<not> timed_out \<and> probe_methods [head_answer, get_answer]
      then record_latency p now url elapsed_ms
      else record_failure p url)"

text \<open>
  One tick of \<open>run_probe_loop\<close>: the upstreams to probe now, and the new \<open>last_probed\<close> map.
  \<open>finished\<close> tells of each URL whether its previous probe task has ended.
\<close>

definition check_tick :: "duration \<Rightarrow> duration" where
  "check_tick interval = max (interval div 4) (secs 1)"

definition should_probe ::
  "duration \<Rightarrow> instant \<Rightarrow> (string \<Rightarrow> bool) \<Rightarrow> (string \<rightharpoonup> instant) \<Rightarrow> string \<times> u32 \<Rightarrow> bool" where
  "should_probe interval now finished last_probed entry =
     (case last_probed (fst entry) of
        None \<Rightarrow> True
      | Some probed \<Rightarrow> finished (fst entry) \<and> backoff_interval interval (snd entry) \<le> now - probed)"

fun probe_tick ::
  "duration \<Rightarrow> instant \<Rightarrow> (string \<Rightarrow> bool) \<Rightarrow> (string \<times> u32) list \<Rightarrow> (string \<rightharpoonup> instant)
     \<Rightarrow> string list \<times> (string \<rightharpoonup> instant)" where
  "probe_tick interval now finished [] last_probed = ([], last_probed)"
| "probe_tick interval now finished ((url, fails) # es) last_probed =
     (if should_probe interval now finished last_probed (url, fails)
      then (let (spawned, lp) = probe_tick interval now finished es (last_probed(url \<mapsto> now)) in (url # spawned, lp))
      else probe_tick interval now finished es last_probed)"

definition probe_entries :: "prober \<Rightarrow> (string \<times> u32) list" where
  "probe_entries p = map (\<lambda>r. (h_url (snd r), h_fails (snd r))) (p_table p)"

text \<open>\<open>add_upstream\<close> also spawns a probe of the new URL when it returns true.\<close>

definition add_upstream :: "prober \<Rightarrow> string \<Rightarrow> int \<Rightarrow> bool \<times> prober" where
  "add_upstream p url pri =
     (if get_health p url \<noteq> None then (False, p)
      else (True, p\<lparr>p_table := upsert url (health_new url pri) (p_table p)\<rparr>))"

definition remove_upstream :: "prober \<Rightarrow> string \<Rightarrow> prober" where
  "remove_upstream p url = p\<lparr>p_table := remove_key url (p_table p)\<rparr>"

section \<open>The health invariant\<close>

text \<open>One row per URL, filed under its own URL, with the status its counter calls for.\<close>

definition prober_inv :: "prober \<Rightarrow> bool" where
  "prober_inv p \<longleftrightarrow> keys_distinct (p_table p) \<and>
     (\<forall>(url, h) \<in> set (p_table p). h_url h = url \<and> h_status h = compute_status (h_fails h))"

named_theorems health_defs \<open>the operations of the prober\<close>

lemmas [health_defs] = get_health_def seed_def record_latency_def record_failure_def
  run_callback_def health_latency_def health_failure_def add_upstream_def remove_upstream_def
  set_health_persistence_def prober_new_def

lemma compute_status_0 [simp]: "compute_status 0 = Active"
  by (simp add: compute_status_def)

lemma prober_inv_upsert:
  assumes "prober_inv p" "h_url h = url" "h_status h = compute_status (h_fails h)"
  shows "prober_inv (p\<lparr>p_table := upsert url h (p_table p)\<rparr>)"
  using assms set_upsert[of url h "p_table p"] by (fastforce simp: prober_inv_def)

lemma prober_inv_callback [simp]: "prober_inv (run_callback h p) \<longleftrightarrow> prober_inv p"
  by (simp add: run_callback_def prober_inv_def)

lemma get_health_inv:
  "prober_inv p \<Longrightarrow> get_health p url = Some h \<Longrightarrow> h_url h = url \<and> h_status h = compute_status (h_fails h)"
  by (fastforce simp: prober_inv_def get_health_def dest: map_of_SomeD)

lemma prober_inv_new: "prober_inv (prober_new alpha)"
  by (simp add: prober_inv_def prober_new_def)

lemma prober_inv_init: "prober_inv p \<Longrightarrow> prober_inv (init_upstreams p us)"
  by (induction p us rule: init_upstreams.induct) (auto simp: prober_inv_upsert health_new_def)

lemma prober_inv_seed: "prober_inv p \<Longrightarrow> prober_inv (seed p url ema fails queries)"
  by (auto simp: seed_def intro!: prober_inv_upsert dest: get_health_inv split: option.split)

lemma prober_inv_latency: "prober_inv p \<Longrightarrow> prober_inv (record_latency p now url ms)"
  by (auto simp: record_latency_def Let_def health_latency_def intro!: prober_inv_upsert
      dest: get_health_inv split: option.split)

lemma prober_inv_failure: "prober_inv p \<Longrightarrow> prober_inv (record_failure p url)"
  by (auto simp: record_failure_def Let_def health_failure_def intro!: prober_inv_upsert
      dest: get_health_inv split: option.split)

lemma prober_inv_probe:
  "prober_inv p \<Longrightarrow> prober_inv (probe_upstream p now url ha ga timed_out ms)"
  by (simp add: probe_upstream_def prober_inv_latency prober_inv_failure)

lemma prober_inv_add: "prober_inv p \<Longrightarrow> prober_inv (snd (add_upstream p url pri))"
  by (auto simp: add_upstream_def health_new_def intro!: prober_inv_upsert)

lemma prober_inv_persist: "prober_inv p \<Longrightarrow> prober_inv (set_health_persistence p)"
  by (simp add: set_health_persistence_def prober_inv_def)

lemma prober_inv_remove: "prober_inv p \<Longrightarrow> prober_inv (remove_upstream p url)"
  by (auto simp: remove_upstream_def prober_inv_def remove_key_def)

lemmas prober_inv_ops = prober_inv_init prober_inv_seed prober_inv_latency prober_inv_failure
  prober_inv_persist prober_inv_probe prober_inv_add prober_inv_remove

text \<open>The states the running program can reach: any interleaving of the operations.\<close>

inductive prober_step :: "prober \<Rightarrow> prober \<Rightarrow> bool" where
  step_init: "prober_step p (init_upstreams p us)"
| step_seed: "prober_step p (seed p url ema fails queries)"
| step_persist: "prober_step p (set_health_persistence p)"
| step_latency: "prober_step p (record_latency p now url ms)"
| step_failure: "prober_step p (record_failure p url)"
| step_probe: "prober_step p (probe_upstream p now url ha ga timed_out ms)"
| step_add: "prober_step p (snd (add_upstream p url pri))"
| step_remove: "prober_step p (remove_upstream p url)"

inductive prober_reachable :: "f64 \<Rightarrow> prober \<Rightarrow> bool" for alpha where
  reach_new: "prober_reachable alpha (prober_new alpha)"
| reach_step: "prober_reachable alpha p \<Longrightarrow> prober_step p q \<Longrightarrow> prober_reachable alpha q"

lemma prober_step_inv: "prober_step p q \<Longrightarrow> prober_inv p \<Longrightarrow> prober_inv q"
  by (induction rule: prober_step.induct)
    (auto intro: prober_inv_ops)

lemma prober_reachable_inv: "prober_reachable alpha p \<Longrightarrow> prober_inv p"
  by (induction rule: prober_reachable.induct) (auto intro: prober_inv_new prober_step_inv)

section \<open>Lookups after the operations\<close>

lemma get_health_upsert [simp]:
  "get_health (p\<lparr>p_table := upsert url h (p_table p)\<rparr>) u = (if u = url then Some h else get_health p u)"
  by (simp add: get_health_def map_of_upsert)

lemma get_health_callback [simp]: "get_health (run_callback h p) u = get_health p u"
  by (simp add: run_callback_def get_health_def)

lemma get_health_latency:
  "get_health (record_latency p now url ms) u =
     (if u = url then map_option (health_latency (p_alpha p) now ms) (get_health p url) else get_health p u)"
  by (auto simp: record_latency_def Let_def split: option.split)

lemma get_health_failure:
  "get_health (record_failure p url) u =
     (if u = url then map_option health_failure (get_health p url) else get_health p u)"
  by (auto simp: record_failure_def Let_def split: option.split)

lemma get_health_failures:
  "get_health (((\<lambda>p. record_failure p url) ^^ n) p) url = map_option (health_failure ^^ n) (get_health p url)"
  by (induction n) (auto simp: get_health_failure option.map_comp comp_def option.map_ident)

lemma health_failure_funpow: "h_fails ((health_failure ^^ n) h) = h_fails h + of_nat n"
  by (induction n) (auto simp: health_failure_def)

lemma health_failure_status:
  "h_status h = compute_status (h_fails h) \<Longrightarrow>
   h_status ((health_failure ^^ n) h) = compute_status (h_fails h + of_nat n)"
  by (cases n) (auto simp: health_failure_def health_failure_funpow ac_simps)

lemma compute_status_of_nat:
  assumes "n < 2 ^ 32"
  shows "compute_status (of_nat n) = (if 10 \<le> n then Down else if 3 \<le> n then Degraded else Active)"
proof -
  have "(k :: u32) \<le> of_nat n \<longleftrightarrow> unat k \<le> n" for k
    using assms by (simp add: word_le_nat_alt unat_of_nat take_bit_nat_eq_self)
  from this[of 10] this[of 3] show ?thesis by (simp add: compute_status_def)
qed

section \<open>The order of the upstreams\<close>

abbreviation is_down :: "upstream_health \<Rightarrow> bool" where
  "is_down h \<equiv> h_status h = Down"

lemma health_cmp_down: "is_down a \<Longrightarrow> \<not> is_down b \<Longrightarrow> health_cmp a b = Greater"
  and health_cmp_up: "\<not> is_down a \<Longrightarrow> is_down b \<Longrightarrow> health_cmp a b = Less"
  by (simp_all add: health_cmp_def)

lemma sort_health_down_last: "sorted_wrt (\<lambda>a b. is_down a \<longrightarrow> is_down b) (sort_by health_cmp hs)"
  by (rule sorted_sort_by) (auto simp: transp_def dest: health_cmp_down health_cmp_up)

text \<open>The rank by status, then latency with the unknown latency 0 last.\<close>

definition latency_key :: "upstream_health \<Rightarrow> nat \<times> nat \<times> int \<times> rat" where
  "latency_key h = (of_bool (is_down h), of_bool (f_eq (h_ema h) (Fin 0)), f_key (h_ema h))"

lemma health_cmp_key:
  assumes "\<not> (within_window a b \<and> h_priority a \<noteq> h_priority b)" "h_ema a \<noteq> NaN" "h_ema b \<noteq> NaN"
  shows "health_cmp a b = Less \<Longrightarrow> latency_key a \<le> latency_key b"
    and "health_cmp a b \<noteq> Less \<Longrightarrow> latency_key b \<le> latency_key a"
  using assms
  by (cases "f_key (h_ema a)"; cases "f_key (h_ema b)";
      auto simp: health_cmp_def latency_key_def partial_cmp_or_equal_def f_lt_def split: if_splits)+

lemma sort_health_by_key:
  assumes "\<forall>a \<in> set hs. \<forall>b \<in> set hs. within_window a b \<longrightarrow> h_priority a = h_priority b"
    and "\<forall>a \<in> set hs. h_ema a \<noteq> NaN"
  shows "sorted (map latency_key (sort_by health_cmp hs))"
proof -
  have "sorted_wrt (\<lambda>a b. latency_key a \<le> latency_key b) (sort_by health_cmp hs)"
    by (rule sorted_sort_by) (use assms in \<open>auto simp: transp_def intro: health_cmp_key order_trans\<close>)
  then show ?thesis by (simp add: sorted_map)
qed

section \<open>One tick of the probe loop\<close>

lemma probe_tick_sound:
  assumes "distinct (map fst es)" "probe_tick interval now finished es lp = (spawned, lp')"
  shows "distinct spawned \<and> set spawned \<subseteq> fst ` set es \<and>
    (\<forall>e \<in> set es. fst e \<in> set spawned \<longleftrightarrow> should_probe interval now finished lp e) \<and>
    lp' = (\<lambda>u. if u \<in> set spawned then Some now else lp u)"
  using assms
proof (induction interval now finished es lp arbitrary: spawned lp' rule: probe_tick.induct)
  case (2 interval now finished url fails es lp)
  have other: "should_probe interval now finished (lp(url \<mapsto> now)) e = should_probe interval now finished lp e"
    if "e \<in> set es" for e
    using that 2(3) by (force simp: should_probe_def)
  show ?case
  proof (cases "should_probe interval now finished lp (url, fails)")
    case True
    with 2(4) obtain sp where sp: "probe_tick interval now finished es (lp(url \<mapsto> now)) = (sp, lp')"
      "spawned = url # sp" by (auto split: prod.splits)
    have "distinct (map fst es)" using 2(3) by simp
    note IH = 2(1)[OF True this sp(1)]
    have "\<forall>e \<in> set es. fst e \<in> set sp \<longleftrightarrow> should_probe interval now finished lp e"
      using IH other by blast
    moreover have "url \<notin> fst ` set es" using 2(3) by simp
    ultimately show ?thesis using IH sp(2) True by (auto simp: fun_eq_iff)
  next
    case False
    with 2(4) have "probe_tick interval now finished es lp = (spawned, lp')" by simp
    with 2(2)[OF False _ this] 2(3) False show ?thesis by auto
  qed
qed auto

section \<open>Properties\<close>

text \<open>
  C22: In every state the prober can reach, the table has one row per URL, each row carries its
  own URL, and its status is the one its failure counter calls for.
\<close>

theorem prober_invariant:
  assumes "prober_reachable alpha p"
  shows "prober_inv p"
  using assms by (rule prober_reachable_inv)

theorem prober_invariant_witness:
  "prober_inv (record_failure (snd (add_upstream (prober_new (Fin (3/10))) ''u'' 1)) ''u'')"
proof (rule prober_invariant)
  show "prober_reachable (Fin (3/10)) (record_failure (snd (add_upstream (prober_new (Fin (3/10))) ''u'' 1)) ''u'')"
    by (rule reach_step [OF reach_step [OF reach_new step_add] step_failure])
qed

text \<open>
  The three-state machine: from a clean row, fewer than 3 consecutive failures leave an
  upstream active, 3 to 9 degrade it, 10 or more take it down (below the width of the
  counter); one success makes it active again and clears the counter, and no other row moves.
\<close>

theorem status_progression:
  assumes "get_health p url = Some h" "h_fails h = 0" "h_status h = Active" "n < 2 ^ 32"
  shows "\<exists>h'. get_health (((\<lambda>p. record_failure p url) ^^ n) p) url = Some h' \<and>
      h_fails h' = of_nat n \<and>
      h_status h' = (if 10 \<le> n then Down else if 3 \<le> n then Degraded else Active) \<and>
      (\<exists>h''. get_health (record_latency (((\<lambda>p. record_failure p url) ^^ n) p) now url ms) url = Some h'' \<and>
        h_status h'' = Active \<and> h_fails h'' = 0) \<and>
      get_health (record_failure p url) v = (if v = url then Some (health_failure h) else get_health p v)"
  using assms health_failure_status[of h n]
  by (simp add: get_health_failures get_health_latency get_health_failure health_failure_funpow
      health_latency_def compute_status_of_nat)

theorem status_progression_witness:
  "\<exists>h. get_health (((\<lambda>p. record_failure p ''u'') ^^ 10) (snd (add_upstream (prober_new (Fin (3/10))) ''u'' 1))) ''u''
     = Some h \<and> h_status h = Down"
proof -
  let ?p = "snd (add_upstream (prober_new (Fin (3/10))) ''u'' 1)"
  have "get_health ?p ''u'' = Some (health_new ''u'' 1)"
    by (simp add: add_upstream_def prober_new_def get_health_def)
  from status_progression[OF this, of 10 0 "Fin 1" "''v''"] show ?thesis
    by (auto simp: health_new_def)
qed

text \<open>
  A recorded latency sets the average to the sample when there is no history, and otherwise
  to \<open>alpha * sample + (1 - alpha) * average\<close>, which lies between the two; it counts one query
  and leaves the other upstreams alone.
\<close>

theorem latency_average:
  assumes "get_health p url = Some h" "p_alpha p = Fin a" "0 \<le> a" "a \<le> 1"
    "h_ema h = Fin e" "0 \<le> e" "0 \<le> m"
  shows "\<exists>r. map_option h_ema (get_health (record_latency p now url (Fin m)) url) = Some (Fin r) \<and>
      r = (if h_queries h = 0 then m else a * m + (1 - a) * e) \<and> min m e \<le> r \<and> r \<le> max m e \<and>
      map_option h_queries (get_health (record_latency p now url (Fin m)) url) = Some (h_queries h + 1) \<and>
      get_health (record_latency p now url (Fin m)) v
        = (if v = url then Some (health_latency (Fin a) now (Fin m) h) else get_health p v)"
proof -
  have "min m e \<le> a * m + (1 - a) * e" "a * m + (1 - a) * e \<le> max m e"
  proof -
    have "a * min m e + (1 - a) * min m e \<le> a * m + (1 - a) * e"
      using assms(3,4) by (intro add_mono mult_left_mono) auto
    then show "min m e \<le> a * m + (1 - a) * e" by (simp add: algebra_simps)
    have "a * m + (1 - a) * e \<le> a * max m e + (1 - a) * max m e"
      using assms(3,4) by (intro add_mono mult_left_mono) auto
    then show "a * m + (1 - a) * e \<le> max m e" by (simp add: algebra_simps)
  qed
  with assms show ?thesis
    by (simp add: get_health_latency health_latency_def ema_update_def)
qed

theorem latency_average_witness:
  "\<exists>r. map_option h_ema (get_health (record_latency
      (record_latency (snd (add_upstream (prober_new (Fin (3/10))) ''u'' 1)) 0 ''u'' (Fin 100)) 0 ''u'' (Fin 50)) ''u'')
    = Some (Fin r) \<and> 50 \<le> r \<and> r \<le> 100"
proof -
  let ?p = "record_latency (snd (add_upstream (prober_new (Fin (3/10))) ''u'' 1)) 0 ''u'' (Fin 100)"
  let ?h = "health_latency (Fin (3/10)) 0 (Fin 100) (health_new ''u'' 1)"
  have "get_health ?p ''u'' = Some ?h" "p_alpha ?p = Fin (3/10)" "h_ema ?h = Fin 100"
    by (simp_all add: get_health_latency add_upstream_def prober_new_def health_new_def
        health_latency_def record_latency_def get_health_def run_callback_def)
  from latency_average[OF this(1,2) _ _ this(3), of 50 0 "''u''"] show ?thesis by auto
qed

text \<open>
  The latency order is a permutation of the table in which no usable upstream comes after a
  down one, whatever the iteration order of the hash map and the latencies.
\<close>

theorem sorted_by_latency_down_last:
  "mset (sorted_by_latency p) = image_mset snd (mset (p_table p)) \<and>
   sorted_wrt (\<lambda>a b. h_status a = Down \<longrightarrow> h_status b = Down) (sorted_by_latency p)"
  unfolding sorted_by_latency_def by (simp add: sort_health_down_last)

text \<open>
  When no two upstreams with different priorities are within ten per cent of each other, the
  order is by status and then by latency, the unmeasured upstreams last.
\<close>

theorem sorted_by_latency_by_latency:
  assumes "\<forall>(u, a) \<in> set (p_table p). h_ema a \<noteq> NaN"
    and "\<forall>(u, a) \<in> set (p_table p). \<forall>(v, b) \<in> set (p_table p). within_window a b \<longrightarrow> h_priority a = h_priority b"
  shows "sorted (map latency_key (sorted_by_latency p))"
  unfolding sorted_by_latency_def
  by (rule sort_health_by_key) (use assms in force)+

theorem sorted_by_latency_by_latency_witness:
  "sorted (map latency_key (sorted_by_latency
     ((prober_new (Fin (3/10)))\<lparr>p_table := [(''a'', (health_new ''a'' 1)\<lparr>h_ema := Fin 50\<rparr>),
        (''b'', (health_new ''b'' 9)\<lparr>h_ema := Fin 10\<rparr>)]\<rparr>)))"
  by (rule sorted_by_latency_by_latency) (simp_all add: within_window_def health_new_def)

text \<open>
  The comparator is not a total order. Three active upstreams eight per cent apart with
  falling priorities form a cycle, so on longer lists the sort's result is unspecified; and two
  upstreams that are within the window in one direction only each compare greater than the
  other, so the winner depends on the iteration order of the hash map.
\<close>

theorem health_cmp_not_total_order:
  "(\<exists>a b c. health_cmp a b = Less \<and> health_cmp b c = Less \<and> health_cmp c a = Less) \<and>
   (\<exists>p a b. health_cmp a b = Greater \<and> health_cmp b a = Greater \<and>
      sorted_by_latency (p\<lparr>p_table := [(h_url a, a), (h_url b, b)]\<rparr>)
        \<noteq> sorted_by_latency (p\<lparr>p_table := [(h_url b, b), (h_url a, a)]\<rparr>))"
proof
  let ?m = "\<lambda>u pri e. (health_new u pri)\<lparr>h_ema := Fin e\<rparr>"
  have "health_cmp (?m ''a'' 3 100) (?m ''c'' 1 116) = Less"
    "health_cmp (?m ''c'' 1 116) (?m ''b'' 2 108) = Less"
    "health_cmp (?m ''b'' 2 108) (?m ''a'' 3 100) = Less"
    by (simp_all add: health_cmp_def within_window_def partial_cmp_or_equal_def cmp_linorder_def health_new_def)
  then show "\<exists>a b c. health_cmp a b = Less \<and> health_cmp b c = Less \<and> health_cmp c a = Less" by blast
  have g: "health_cmp (?m ''a'' 2 100) (?m ''b'' 1 (221/2)) = Greater"
    "health_cmp (?m ''b'' 1 (221/2)) (?m ''a'' 2 100) = Greater"
    by (simp_all add: health_cmp_def within_window_def partial_cmp_or_equal_def cmp_linorder_def health_new_def)
  then have "sorted_by_latency (p\<lparr>p_table := [(''a'', ?m ''a'' 2 100), (''b'', ?m ''b'' 1 (221/2))]\<rparr>)
      \<noteq> sorted_by_latency (p\<lparr>p_table := [(''b'', ?m ''b'' 1 (221/2)), (''a'', ?m ''a'' 2 100)]\<rparr>)" for p :: prober
    by (simp add: sorted_by_latency_def sort_by_def) (simp add: health_new_def)
  with g show "\<exists>p a b. health_cmp a b = Greater \<and> health_cmp b a = Greater \<and>
      sorted_by_latency (p\<lparr>p_table := [(h_url a, a), (h_url b, b)]\<rparr>)
        \<noteq> sorted_by_latency (p\<lparr>p_table := [(h_url b, b), (h_url a, a)]\<rparr>)"
    by (intro exI [of _ undefined] exI [of _ "?m ''a'' 2 100"] exI [of _ "?m ''b'' 1 (221/2)"])
      (simp add: health_new_def)
qed

text \<open>
  One tick of the probe loop starts at most one probe per upstream, exactly for the upstreams
  never probed or whose last probe has ended and whose interval has passed; the interval is the
  base, four times it or ten times it by status, and saturates instead of overflowing.
\<close>

theorem probe_loop_tick:
  assumes "prober_inv p"
    and "probe_tick interval now finished (probe_entries p) lp = (spawned, lp')"
  shows "distinct spawned \<and>
    (\<forall>url h. get_health p url = Some h \<longrightarrow>
       (url \<in> set spawned \<longleftrightarrow> (case lp url of None \<Rightarrow> True | Some t \<Rightarrow> finished url \<and>
          duration_saturating_mul interval
            (case h_status h of Active \<Rightarrow> 1 | Degraded \<Rightarrow> 4 | Down \<Rightarrow> 10) \<le> now - t))) \<and>
    lp' = (\<lambda>u. if u \<in> set spawned then Some now else lp u)"
proof -
  have urls: "map fst (probe_entries p) = map fst (p_table p)"
    using assms(1) by (auto simp: probe_entries_def prober_inv_def)
  have bo: "backoff_interval interval f = duration_saturating_mul interval
      (case compute_status f of Active \<Rightarrow> 1 | Degraded \<Rightarrow> 4 | Down \<Rightarrow> 10)" for f
  proof -
    have "f \<le> 2 \<longleftrightarrow> \<not> 3 \<le> f" "f \<le> 9 \<longleftrightarrow> \<not> 10 \<le> f" "10 \<le> f \<Longrightarrow> 3 \<le> f"
      by (simp_all add: word_le_nat_alt) arith+
    then show ?thesis by (simp add: backoff_interval_def compute_status_def)
  qed
  note sound = probe_tick_sound[OF _ assms(2)]
  have "distinct (map fst (probe_entries p))"
    using assms(1) by (simp only: urls) (simp add: prober_inv_def keys_distinct_def)
  note sound = sound[OF this]
  then have spawned: "\<forall>e \<in> set (probe_entries p).
      fst e \<in> set spawned \<longleftrightarrow> should_probe interval now finished lp e" by blast
  have entry: "(url, h_fails h) \<in> set (probe_entries p)" "h_status h = compute_status (h_fails h)"
    if "get_health p url = Some h" for url h
  proof -
    from that have mem: "(url, h) \<in> set (p_table p)" unfolding get_health_def by (rule map_of_SomeD)
    with assms(1) have "h_url h = url" by (auto simp: prober_inv_def)
    with mem show "(url, h_fails h) \<in> set (probe_entries p)" by (force simp: probe_entries_def)
    from mem assms(1) show "h_status h = compute_status (h_fails h)" by (auto simp: prober_inv_def)
  qed
  have "url \<in> set spawned \<longleftrightarrow> should_probe interval now finished lp (url, h_fails h)"
    if "get_health p url = Some h" for url h
    using bspec[OF spawned entry(1)[OF that]] by simp
  then show ?thesis using sound entry(2)
    by (simp add: should_probe_def bo split: option.splits)
qed

theorem probe_loop_tick_witness:
  "distinct (fst (probe_tick 30 5 (\<lambda>_. True)
     (probe_entries (snd (add_upstream (prober_new (Fin (3/10))) ''u'' 1))) Map.empty))"
  using probe_loop_tick[OF prober_inv_add[OF prober_inv_new], of 30 5 "\<lambda>_. True"]
  by (metis prod.collapse)

end
