(* ===== verification/PathFilter.thy ===== *)
theory PathFilter
  imports Narinfo
begin

text \<open>
  The per-upstream path filters: the configuration types of \<open>ncro_config\<close>
  (\<open>FilterAction\<close>, \<open>FilterField\<close>, \<open>FilterRule\<close>) and the router's \<open>wildcard_match\<close>,
  \<open>filter_rule_matches\<close>, \<open>store_path_name\<close> and the rule loop of \<open>upstream_allows_narinfo\<close>.
  \<open>glob\<close> is the reference semantics of a pattern in which a star stands for any string.
\<close>

section \<open>Rules\<close>

datatype filter_action = Allow | Deny

datatype filter_field = FName | FStorePath | FReference | FDeriver

record filter_rule =
  action :: filter_action
  field :: filter_field
  pattern :: string

section \<open>Wildcards\<close>

abbreviation star :: char where "star \<equiv> CHR ''*''"

text \<open>
  The loop over the parts of the pattern. The flag is \<open>first && anchored_start\<close>; the result is
  the unmatched remainder, or nothing when a part is missing.
\<close>

fun match_parts :: "bool \<Rightarrow> string list \<Rightarrow> string \<Rightarrow> string option" where
  "match_parts anchored [] remainder = Some remainder"
| "match_parts anchored (part # parts) remainder =
     (if part = [] then match_parts anchored parts remainder
      else if anchored then
        (case strip_prefix part remainder of
           None \<Rightarrow> None
         | Some rest \<Rightarrow> match_parts False parts rest)
      else
        (case find_sub part remainder of
           None \<Rightarrow> None
         | Some index \<Rightarrow> match_parts False parts (drop (index + length part) remainder)))"

definition wildcard_match :: "string \<Rightarrow> string \<Rightarrow> bool" where
  "wildcard_match pat v =
     (if pat = ''*'' then True
      else case match_parts (\<not> prefix ''*'' pat) (split_char star pat) v of
          None \<Rightarrow> False
        | Some remainder \<Rightarrow> suffix ''*'' pat \<or> remainder = [])"

fun glob :: "string \<Rightarrow> string \<Rightarrow> bool" where
  "glob [] v = (v = [])"
| "glob (c # p) v =
     (if c = star then list_ex (\<lambda>n. glob p (drop n v)) [0..<Suc (length v)]
      else case v of [] \<Rightarrow> False | x # xs \<Rightarrow> x = c \<and> glob p xs)"

section \<open>The rule loop\<close>

definition store_path_name :: "string \<Rightarrow> string" where
  "store_path_name sp =
     (let base = last (split_char CHR ''/'' sp) in
      case split_once ''-'' base of None \<Rightarrow> base | Some (_, name) \<Rightarrow> name)"

definition filter_rule_matches :: "filter_rule \<Rightarrow> narinfo \<Rightarrow> bool" where
  "filter_rule_matches rule ni =
     (case field rule of
        FStorePath \<Rightarrow> wildcard_match (pattern rule) (store_path ni)
      | FName \<Rightarrow> wildcard_match (pattern rule) (store_path_name (store_path ni))
      | FReference \<Rightarrow> list_ex (wildcard_match (pattern rule)) (references ni)
      | FDeriver \<Rightarrow> wildcard_match (pattern rule) (deriver ni))"

text \<open>The loop body: a matching deny rule returns at once, a matching allow rule is remembered.\<close>

fun filter_loop :: "filter_rule list \<Rightarrow> narinfo \<Rightarrow> bool \<Rightarrow> bool \<Rightarrow> bool" where
  "filter_loop [] ni has_allow allow_matched = (\<not> has_allow \<or> allow_matched)"
| "filter_loop (rule # rules) ni has_allow allow_matched =
     (if \<not> filter_rule_matches rule ni then filter_loop rules ni has_allow allow_matched
      else case action rule of
          Deny \<Rightarrow> False
        | Allow \<Rightarrow> filter_loop rules ni has_allow True)"

definition rules_allow :: "filter_rule list option \<Rightarrow> narinfo \<Rightarrow> bool" where
  "rules_allow rules ni =
     (case rules of
        None \<Rightarrow> True
      | Some rs \<Rightarrow>
          if rs = [] then True
          else filter_loop rs ni (list_ex (\<lambda>r. action r = Allow) rs) False)"

section \<open>Lemmas on patterns\<close>

lemma suffix_char: "suffix [c] s \<longleftrightarrow> s \<noteq> [] \<and> last s = c"
  by (cases s rule: rev_cases) (auto simp: suffix_def)

lemma glob_star: "glob (star # p) v \<longleftrightarrow> (\<exists>a r. v = a @ r \<and> glob p r)"
proof
  assume "glob (star # p) v"
  then obtain n where "glob p (drop n v)" by (auto simp: list_ex_iff simp del: upt_Suc)
  then show "\<exists>a r. v = a @ r \<and> glob p r"
    by (intro exI [of _ "take n v"] exI [of _ "drop n v"]) simp
next
  assume "\<exists>a r. v = a @ r \<and> glob p r"
  then obtain a r where "v = a @ r" "glob p r" by blast
  then show "glob (star # p) v"
    by (auto simp: list_ex_iff simp del: upt_Suc intro!: bexI [of _ "length a"])
qed

lemma glob_literal: "star \<notin> set a \<Longrightarrow> glob (a @ p) v \<longleftrightarrow> (\<exists>r. v = a @ r \<and> glob p r)"
proof (induction a arbitrary: v)
  case (Cons x a)
  then show ?case by (cases v) auto
qed simp

declare glob.simps(2) [simp del]

lemma glob_star_end: "glob (q @ [star]) m \<Longrightarrow> glob (q @ [star]) (m @ r)"
proof (induction q arbitrary: m)
  case Nil
  then show ?case using glob_star[of "[]"] by (auto intro!: exI [of _ "m @ r"])
next
  case (Cons c q)
  show ?case
  proof (cases "c = star")
    case True
    with Cons show ?thesis by (fastforce simp: glob_star)
  next
    case False
    with Cons show ?thesis using glob_literal[of "[c]"] by auto
  qed
qed

definition starred :: "string list \<Rightarrow> string" where
  "starred parts = concat (map (\<lambda>p. star # p) parts)"

lemma starred_simps [simp]: "starred [] = []" "starred (p # ps) = star # p @ starred ps"
  "starred (ps @ [p]) = starred ps @ star # p"
  by (simp_all add: starred_def)

lemma join_starred: "join [star] (p # ps) = p @ starred ps"
  by (induction ps arbitrary: p) auto

lemma glob_starred_skip: "glob (starred ps @ [star]) r \<Longrightarrow> glob (starred ps @ [star]) (x @ r)"
proof (cases ps)
  case Nil
  then show ?thesis using glob_star[of "[]"] by (auto intro!: exI [of _ "x @ r"])
next
  case (Cons p ps')
  assume "glob (starred ps @ [star]) r"
  then obtain a r' where "r = a @ r'" "glob (p @ starred ps' @ [star]) r'"
    by (auto simp: Cons glob_star)
  then show ?thesis by (simp add: Cons glob_star) (metis append.assoc)
qed

lemma match_parts_sound:
  assumes "match_parts False ps r = Some rem" "\<forall>p \<in> set ps. star \<notin> set p"
  shows "\<exists>m. r = m @ rem \<and> glob (starred ps) m"
  using assms
proof (induction False ps r arbitrary: rem rule: match_parts.induct)
  case (2 p ps r)
  show ?case
  proof (cases "p = []")
    case True
    with 2 obtain m where "r = m @ rem" "glob (starred ps) m" by auto
    with True have "glob (starred (p # ps)) m" using glob_star[of "starred ps" m] by force
    with \<open>r = m @ rem\<close> show ?thesis by blast
  next
    case False
    with 2(4) obtain i where i: "find_sub p r = Some i"
      "match_parts False ps (drop (i + length p) r) = Some rem"
      by (auto split: option.splits)
    from 2(3)[OF False _ i(1) i(2)] 2(5) obtain m where
      m: "drop (i + length p) r = m @ rem" "glob (starred ps) m" by auto
    have "r = take i r @ p @ m @ rem" using find_sub_Some[OF i(1)] m(1) by simp
    moreover have "glob (star # p @ starred ps) (take i r @ p @ m)"
      using m(2) 2(5) by (auto simp: glob_star glob_literal)
    ultimately show ?thesis by (metis append.assoc starred_simps(2))
  qed
qed auto

lemma match_parts_complete:
  assumes "glob (starred ps @ [star]) r" "\<forall>p \<in> set ps. star \<notin> set p"
  shows "\<exists>rem. match_parts False ps r = Some rem"
  using assms
proof (induction ps arbitrary: r)
  case (Cons p ps)
  from Cons.prems obtain a r' where r: "r = a @ p @ r'" "glob (starred ps @ [star]) r'"
    by (auto simp: glob_star glob_literal)
  show ?case
  proof (cases "p = []")
    case True
    with r Cons glob_starred_skip[of ps r' a] show ?thesis by simp
  next
    case False
    have "find_sub p r \<noteq> None" using r by (auto simp: find_sub_None sublist_def)
    then obtain i where i: "find_sub p r = Some i" by auto
    have "i \<le> length a"
    proof (rule ccontr)
      assume "\<not> i \<le> length a"
      with find_sub_least[OF i, of "length a"] r show False by simp
    qed
    then have "drop (i + length p) r = drop (i + length p) (a @ p) @ r'" by (simp add: r)
    then have "glob (starred ps @ [star]) (drop (i + length p) r)"
      by (simp only: glob_starred_skip[OF r(2)])
    with Cons have "\<exists>rem. match_parts False ps (drop (i + length p) r) = Some rem" by simp
    with False i show ?thesis by simp
  qed
qed simp

lemma match_parts_snoc: "match_parts an (ps @ [[]]) r = match_parts an ps r"
  by (induction an ps r rule: match_parts.induct) (auto split: option.splits)

lemma pattern_parts:
  obtains p ps where "split_char star pat = p # ps" "pat = p @ starred ps"
    "\<forall>q \<in> set (p # ps). star \<notin> set q" "prefix ''*'' pat \<longleftrightarrow> p = [] \<and> ps \<noteq> []"
    "suffix ''*'' pat \<longleftrightarrow> ps \<noteq> [] \<and> last ps = []"
proof -
  obtain p ps where s: "split_char star pat = p # ps" by (cases "split_char star pat") auto
  then have pat: "pat = p @ starred ps" using join_split_char[of star pat] by (simp add: join_starred)
  have ns: "\<forall>q \<in> set (p # ps). star \<notin> set q" using split_char_no_sep[of _ star pat] s by auto
  have "prefix ''*'' pat \<longleftrightarrow> p = [] \<and> ps \<noteq> []"
    using ns by (cases p; cases ps) (auto simp: pat)
  moreover have "suffix ''*'' pat \<longleftrightarrow> ps \<noteq> [] \<and> last ps = []"
  proof (cases ps rule: rev_cases)
    case Nil
    with ns show ?thesis by (cases p rule: rev_cases) (auto simp: pat)
  next
    case (snoc qs q)
    with ns show ?thesis by (cases q rule: rev_cases) (auto simp: pat suffix_def)
  qed
  ultimately show ?thesis using that s pat ns by blast
qed

lemma wildcard_match_glob:
  assumes "wildcard_match pat v"
  shows "glob pat v"
proof (cases "pat = ''*''")
  case True
  then show ?thesis using glob_star[of "[]" v] by simp
next
  case False
  obtain p ps where P: "split_char star pat = p # ps" "pat = p @ starred ps"
    "\<forall>q \<in> set (p # ps). star \<notin> set q" "prefix ''*'' pat \<longleftrightarrow> p = [] \<and> ps \<noteq> []"
    "suffix ''*'' pat \<longleftrightarrow> ps \<noteq> [] \<and> last ps = []"
    by (rule pattern_parts)
  from assms False P(1) obtain rem where
    rem: "match_parts (\<not> prefix ''*'' pat) (p # ps) v = Some rem" "suffix ''*'' pat \<or> rem = []"
    by (auto simp: wildcard_match_def split: option.splits)
  have "\<exists>m. v = m @ rem \<and> glob pat m"
  proof (cases "p = []")
    case True
    show ?thesis
    proof (cases "ps = []")
      case True
      with \<open>p = []\<close> rem P show ?thesis by auto
    next
      case False
      with True rem P(4) have "match_parts False ps v = Some rem" by simp
      from match_parts_sound[OF this] P(2,3) True show ?thesis by auto
    qed
  next
    case False
    with rem P(4) obtain r where "v = p @ r" "match_parts False ps r = Some rem"
      by (auto simp: strip_prefix_Some split: option.splits)
    with match_parts_sound[of ps r rem] P(2,3) show ?thesis by (auto simp: glob_literal)
  qed
  then obtain m where m: "v = m @ rem" "glob pat m" by blast
  show ?thesis
  proof (cases "rem = []")
    case False
    with rem(2) obtain q where "pat = q @ [star]" by (auto simp: suffix_def)
    with m glob_star_end show ?thesis by auto
  qed (use m in simp)
qed

lemma glob_wildcard_match:
  assumes "glob pat v" "suffix ''*'' pat \<or> star \<notin> set pat"
  shows "wildcard_match pat v"
proof (cases "star \<in> set pat")
  case False
  then have "v = pat" using assms(1) glob_literal[of pat "[]" v] by simp
  with False show ?thesis
    by (auto simp: wildcard_match_def split_char_notin strip_prefix_def prefix_def)
next
  case True
  obtain p ps where P: "split_char star pat = p # ps" "pat = p @ starred ps"
    "\<forall>q \<in> set (p # ps). star \<notin> set q" "prefix ''*'' pat \<longleftrightarrow> p = [] \<and> ps \<noteq> []"
    "suffix ''*'' pat \<longleftrightarrow> ps \<noteq> [] \<and> last ps = []"
    by (rule pattern_parts)
  with True assms(2) obtain qs where qs: "ps = qs @ [[]]" by (metis append_butlast_last_id)
  from assms(1) P(2,3) obtain r where r: "v = p @ r" "glob (starred qs @ [star]) r"
    by (auto simp: glob_literal qs)
  then obtain rem where "match_parts False qs r = Some rem"
    using match_parts_complete[of qs r] P(3) qs by auto
  then have "match_parts False ps r = Some rem" by (simp add: qs match_parts_snoc)
  with r P have "match_parts (\<not> prefix ''*'' pat) (p # ps) v = Some rem"
    by (auto simp: qs)
  with P assms(2) True show ?thesis by (auto simp: wildcard_match_def)
qed

section \<open>The rule loop\<close>

lemma filter_loop_iff:
  "filter_loop rs ni has_allow matched \<longleftrightarrow>
     (\<forall>r \<in> set rs. filter_rule_matches r ni \<longrightarrow> action r = Allow) \<and>
     (has_allow \<longrightarrow> matched \<or> (\<exists>r \<in> set rs. filter_rule_matches r ni))"
  by (induction rs ni has_allow matched rule: filter_loop.induct) (auto split: filter_action.split)

lemma rules_allow_iff:
  "rules_allow (Some rs) ni \<longleftrightarrow>
     (\<forall>r \<in> set rs. filter_rule_matches r ni \<longrightarrow> action r = Allow) \<and>
     ((\<exists>r \<in> set rs. action r = Allow) \<longrightarrow> (\<exists>r \<in> set rs. action r = Allow \<and> filter_rule_matches r ni))"
  by (auto simp: rules_allow_def filter_loop_iff list_ex_iff)

section \<open>Properties\<close>

text \<open>
  C32: What a pattern accepts: every accepted value is in the language of the glob, whatever the
  pattern, and a pattern that has no star or ends with one accepts its whole language. (Of the others,
  \<open>wildcard_match_incomplete\<close> shows that they may reject values of the language.)
\<close>

theorem wildcard_match_correct:
  "(wildcard_match pat v \<longrightarrow> glob pat v) \<and>
   (suffix ''*'' pat \<or> star \<notin> set pat \<longrightarrow> (glob pat v \<longrightarrow> wildcard_match pat v))"
  using wildcard_match_glob glob_wildcard_match by blast

theorem wildcard_match_correct_witness:
  "wildcard_match ''hello-*'' ''hello-2.12'' \<and> glob ''hello-*'' ''hello-2.12''"
proof -
  have "wildcard_match ''hello-*'' ''hello-2.12''"
    by (simp add: wildcard_match_def strip_prefix_def suffix_char)
  with wildcard_match_correct[of "''hello-*''" "''hello-2.12''"] show ?thesis by blast
qed

text \<open>
  A pattern with a star before its last part searches leftmost and never backtracks, so an
  end-anchored pattern rejects values of its language in which the last part occurs earlier: a
  deny rule on \<open>*-doc\<close> lets \<open>perl-doc-tools-doc\<close> through.
\<close>

theorem wildcard_match_incomplete:
  "glob ''*-doc'' ''perl-doc-tools-doc'' \<and> \<not> wildcard_match ''*-doc'' ''perl-doc-tools-doc'' \<and>
   rules_allow (Some [\<lparr>action = Deny, field = FName, pattern = ''*-doc''\<rparr>])
     (narinfo_default\<lparr>store_path := ''/nix/store/00000000000000000000000000000000-perl-doc-tools-doc''\<rparr>)"
proof -
  have g: "glob ''*-doc'' ''perl-doc-tools-doc''"
    by (simp add: glob.simps(2))
  have w: "\<not> wildcard_match ''*-doc'' ''perl-doc-tools-doc''"
    by (simp add: wildcard_match_def suffix_char)
  have "store_path_name ''/nix/store/00000000000000000000000000000000-perl-doc-tools-doc'' = ''perl-doc-tools-doc''"
    by (simp add: store_path_name_def split_once_def)
  with w have "\<not> filter_rule_matches \<lparr>action = Deny, field = FName, pattern = ''*-doc''\<rparr>
      (narinfo_default\<lparr>store_path := ''/nix/store/00000000000000000000000000000000-perl-doc-tools-doc''\<rparr>)"
    by (simp add: filter_rule_matches_def)
  with g w show ?thesis by (simp add: rules_allow_iff)
qed

text \<open>
  An upstream's rules admit a narinfo exactly when no deny rule matches it and, if there is
  any allow rule, one matches; an upstream without rules admits everything. The order of the
  rules does not matter.
\<close>

theorem rules_allow_spec:
  "rules_allow rules ni \<longleftrightarrow>
     (case rules of
        None \<Rightarrow> True
      | Some rs \<Rightarrow>
          \<not> (\<exists>r \<in> set rs. action r = Deny \<and> filter_rule_matches r ni) \<and>
          (filter (\<lambda>r. action r = Allow) rs = [] \<or>
           (\<exists>r \<in> set rs. action r = Allow \<and> filter_rule_matches r ni)))"
proof (cases rules)
  case (Some rs)
  have "action r = Allow \<longleftrightarrow> action r \<noteq> Deny" for r :: filter_rule by (cases "action r") auto
  with Some show ?thesis by (auto simp: rules_allow_iff filter_empty_conv)
qed (simp add: rules_allow_def)

end
