(* ===== verification/NarUrl.thy ===== *)
theory NarUrl
  imports Narinfo
begin

text \<open>
  Where a client is sent for a NAR: \<open>NarUrlMode\<close> of \<open>ncro_config\<close> and the router's
  \<open>relative_nar_url\<close>, \<open>nar_extension\<close>, \<open>canonical_nar_url\<close>,
  \<open>store_hash_from_canonical_nar_url\<close>, \<open>compression_for_nar_url\<close>, \<open>rewrite_nar_url_value\<close>
  and \<open>rewrite_narinfo_url\<close>.
\<close>

datatype nar_url_mode = Keep | ToSelf | ToUpstream

definition nar_url_mode_default :: nar_url_mode where "nar_url_mode_default = ToSelf"

abbreviation slash :: char where "slash \<equiv> CHR ''/''"

definition relative_nar_url :: "string \<Rightarrow> string" where
  "relative_nar_url url =
     (case split_once ''://'' url of
        Some (_, rest) \<Rightarrow>
          (case split_once ''/'' rest of
             Some (_, path) \<Rightarrow> path
           | None \<Rightarrow> trim_start_matches slash url)
      | None \<Rightarrow> trim_start_matches slash url)"

definition cut_query :: "string \<Rightarrow> string" where
  "cut_query path = (case split_once ''?'' path of None \<Rightarrow> path | Some (p, _) \<Rightarrow> p)"

definition nar_extension :: "string \<Rightarrow> string" where
  "nar_extension url =
     (let path = cut_query (relative_nar_url url);
          file = last (split_char slash path)
      in case rfind_sub ''.nar'' file of None \<Rightarrow> [] | Some idx \<Rightarrow> drop idx file)"

definition canonical_nar_url :: "string \<Rightarrow> string \<Rightarrow> string" where
  "canonical_nar_url url store_hash = ''nar/'' @ store_hash @ nar_extension url"

definition compression_for_nar_url :: "string \<Rightarrow> string option" where
  "compression_for_nar_url url =
     (let ext = nar_extension url in
      if ext = ''.nar'' then Some ''none''
      else if ext = ''.nar.xz'' then Some ''xz''
      else if ext = ''.nar.bz2'' then Some ''bzip2''
      else if ext = ''.nar.gz'' then Some ''gzip''
      else if ext = ''.nar.zst'' then Some ''zstd''
      else if ext = ''.nar.br'' then Some ''br''
      else None)"

definition store_hash_from_canonical_nar_url :: "string \<Rightarrow> string option" where
  "store_hash_from_canonical_nar_url path =
     (case strip_prefix ''nar/'' (trim_start_matches slash path) of
        None \<Rightarrow> None
      | Some rest \<Rightarrow>
          let hash = (case split_once ''.nar'' rest of None \<Rightarrow> rest | Some (h, _) \<Rightarrow> h) in
          if is_store_hash hash then Some hash else None)"

definition rewrite_nar_url_value :: "string \<Rightarrow> string \<Rightarrow> string \<Rightarrow> nar_url_mode \<Rightarrow> string" where
  "rewrite_nar_url_value url upstream store_hash mode =
     (case mode of
        Keep \<Rightarrow> url
      | ToSelf \<Rightarrow> canonical_nar_url url store_hash
      | ToUpstream \<Rightarrow>
          trim_end_matches slash upstream @ ''/'' @ trim_start_matches slash (relative_nar_url url))"

text \<open>The body of the loop over \<open>split_inclusive\<close>.\<close>

definition rewrite_line :: "string \<Rightarrow> string \<Rightarrow> nar_url_mode \<Rightarrow> string \<Rightarrow> string" where
  "rewrite_line upstream store_hash mode l =
     (let (text, newline) = chomp l in
      (case strip_prefix ''URL: '' text of
         Some url \<Rightarrow> ''URL: '' @ rewrite_nar_url_value url upstream store_hash mode
       | None \<Rightarrow> text) @ newline)"

definition rewrite_narinfo_url :: "bytes \<Rightarrow> string \<Rightarrow> string \<Rightarrow> nar_url_mode \<Rightarrow> bytes" where
  "rewrite_narinfo_url body upstream store_hash mode =
     (if mode = Keep then body
      else if \<not> utf8_valid body then body
      else concat (map (rewrite_line upstream store_hash mode) (split_inclusive body)))"

section \<open>Extensions\<close>

lemma trim_start_matches_suffix: "suffix (trim_start_matches c s) s"
  by (simp add: trim_start_matches_def suffix_dropWhile)

lemma split_once_suffix: "split_once p s = Some (a, b) \<Longrightarrow> suffix b s"
  by (drule split_once_Some) (simp add: suffix_def)

lemma relative_nar_url_suffix: "suffix (relative_nar_url url) url"
  unfolding relative_nar_url_def
  by (auto split: option.splits dest!: split_once_suffix intro: trim_start_matches_suffix suffix_order.trans)

lemma cut_query_sound: "CHR ''?'' \<notin> set (cut_query p)" "set (cut_query p) \<subseteq> set p"
proof -
  show "CHR ''?'' \<notin> set (cut_query p)"
    by (auto simp: cut_query_def split_once_None sublist_def split: option.splits
        dest: split_once_char_fst) (metis append_Cons append_Nil split_list)
  show "set (cut_query p) \<subseteq> set p"
    by (auto simp: cut_query_def split: option.splits dest: split_once_Some)
qed

lemma last_split_char_set: "set (last (split_char c s)) \<subseteq> set s"
proof (induction s)
  case (Cons x s)
  then show ?case by (cases "split_char c s") (auto split: list.splits if_splits)
qed simp

text \<open>The last occurrence: nothing later matches.\<close>

lemma rfind_sub_Some: "rfind_sub p s = Some i \<Longrightarrow> prefix p (drop i s) \<and> (\<forall>j > i. j \<le> length s \<longrightarrow> p \<noteq> [] \<longrightarrow> \<not> prefix p (drop j s))"
proof (induction p s arbitrary: i rule: rfind_sub.induct)
  case (2 p c s)
  show ?case
  proof (cases "rfind_sub p s")
    case None
    have "\<not> prefix p (drop j s)" if "p \<noteq> []" for j
      using None that
    proof (induction s arbitrary: j)
      case (Cons x s)
      then show ?case by (cases j) (auto split: option.splits if_splits)
    qed (auto split: if_splits)
    with None 2 show ?thesis by (auto split: if_splits simp: gr0_conv_Suc)
  next
    case (Some k)
    with 2 have i: "i = Suc k" by simp
    from 2(1)[OF Some] show ?thesis by (auto simp: i Suc_less_eq2)
  qed
qed (auto split: if_splits)

lemma rfind_sub_None: "rfind_sub p s = None \<longleftrightarrow> \<not> sublist p s"
  by (induction p s rule: rfind_sub.induct) (auto simp: sublist_Cons_right split: option.splits)

lemma rfind_sub_here:
  assumes "rfind_sub p s = Some i" "p \<noteq> []"
  shows "rfind_sub p (drop i s) = Some 0"
proof -
  have pre: "prefix p (drop i s)" and none: "\<forall>j > i. j \<le> length s \<longrightarrow> \<not> prefix p (drop j s)"
    using rfind_sub_Some[OF assms(1)] assms(2) by blast+
  then obtain k where k: "rfind_sub p (drop i s) = Some k"
    by (cases "rfind_sub p (drop i s)") (auto simp: rfind_sub_None)
  from rfind_sub_Some[OF this] have "prefix p (drop (k + i) s)" by (simp add: drop_drop)
  moreover from this assms(2) have "k + i \<le> length s"
    by (cases "k + i \<le> length s") auto
  ultimately have "k = 0" using none by (metis gr0I less_add_same_cancel2)
  with k show ?thesis by simp
qed

lemma rfind_sub_skip:
  "c \<notin> set a \<Longrightarrow> rfind_sub (c # p) (a @ s) = map_option ((+) (length a)) (rfind_sub (c # p) s)"
proof (induction a)
  case Nil
  show ?case by (simp add: option.map_ident_strong)
next
  case (Cons x a)
  then show ?case by (cases "rfind_sub (c # p) s") auto
qed

text \<open>An extension is empty or starts at its only \<open>.nar\<close>, and has neither slash nor query.\<close>

lemma nar_extension_shape:
  "slash \<notin> set (nar_extension url)" "CHR ''?'' \<notin> set (nar_extension url)"
  "set (nar_extension url) \<subseteq> set url"
  "nar_extension url = [] \<or> rfind_sub ''.nar'' (nar_extension url) = Some 0"
proof -
  let ?file = "last (split_char slash (cut_query (relative_nar_url url)))"
  have f: "set ?file \<subseteq> set (cut_query (relative_nar_url url))" by (rule last_split_char_set)
  have e: "set (nar_extension url) \<subseteq> set ?file"
    by (auto simp: nar_extension_def Let_def split: option.splits dest: in_set_dropD)
  have "slash \<notin> set ?file"
    using split_char_no_sep[OF last_in_set[OF split_char_nonempty]] .
  with e show "slash \<notin> set (nar_extension url)" by blast
  from e f cut_query_sound(1) show "CHR ''?'' \<notin> set (nar_extension url)" by blast
  from e f cut_query_sound(2) relative_nar_url_suffix[of url] show "set (nar_extension url) \<subseteq> set url"
    by (meson set_mono_suffix subset_trans)
  show "nar_extension url = [] \<or> rfind_sub ''.nar'' (nar_extension url) = Some 0"
    using rfind_sub_here[of "''.nar''" ?file]
    by (auto simp: nar_extension_def Let_def split: option.splits simp del: rfind_sub.simps)
qed

lemma store_hash_chars:
  assumes "is_store_hash h"
  shows "slash \<notin> set h" "CHR ''?'' \<notin> set h" "CHR ''.'' \<notin> set h" "CHR '':'' \<notin> set h" "h \<noteq> []"
    "\<forall>c \<in> set h. code c < 128 \<and> c \<noteq> nl \<and> c \<noteq> cr"
proof -
  have h: "set h \<subseteq> set nix_base32_alphabet" "h \<noteq> []"
    using assms by (auto simp: is_store_hash_def list_all_iff)
  have "slash \<notin> set nix_base32_alphabet" "CHR ''?'' \<notin> set nix_base32_alphabet"
    "CHR ''.'' \<notin> set nix_base32_alphabet" "CHR '':'' \<notin> set nix_base32_alphabet"
    "\<forall>c \<in> set nix_base32_alphabet. code c < 128 \<and> c \<noteq> nl \<and> c \<noteq> cr"
    by (simp_all add: nix_base32_alphabet_def)
  with h show "slash \<notin> set h" "CHR ''?'' \<notin> set h" "CHR ''.'' \<notin> set h" "CHR '':'' \<notin> set h" "h \<noteq> []"
    "\<forall>c \<in> set h. code c < 128 \<and> c \<noteq> nl \<and> c \<noteq> cr" by blast+
qed

lemma not_sublist_char: "c \<in> set p \<Longrightarrow> c \<notin> set s \<Longrightarrow> \<not> sublist p s"
  by (auto simp: sublist_def)

lemma canonical_relative:
  assumes "is_store_hash h"
  shows "relative_nar_url (canonical_nar_url url h) = canonical_nar_url url h"
proof -
  have "\<not> sublist ''://'' (''nar/'' @ h @ nar_extension url)"
  proof
    assume "sublist ''://'' (''nar/'' @ h @ nar_extension url)"
    then obtain a b where ab: "''nar/'' @ h @ nar_extension url = a @ ''://'' @ b" by (auto simp: sublist_def)
    have "count_list (''nar/'' @ h @ nar_extension url) slash = 1"
      using store_hash_chars(1)[OF assms] nar_extension_shape(1)[of url] by simp
    moreover have "count_list (a @ ''://'' @ b) slash \<ge> 2" by simp
    ultimately show False by (simp only: ab)
  qed
  then show ?thesis
    by (simp add: relative_nar_url_def canonical_nar_url_def split_once_None[THEN iffD2])
qed

lemma nar_extension_canonical:
  assumes "is_store_hash h"
  shows "nar_extension (canonical_nar_url url h) = nar_extension url"
proof -
  let ?e = "nar_extension url"
  note h = store_hash_chars[OF assms] and e = nar_extension_shape[of url]
  have "\<not> sublist ''?'' (''nar/'' @ h @ ?e)"
    using h(2) e(2) by (intro not_sublist_char[of "CHR ''?''"]) simp_all
  then have cut: "cut_query (canonical_nar_url url h) = ''nar/'' @ h @ ?e"
    by (simp add: cut_query_def canonical_nar_url_def split_once_None[THEN iffD2])
  have "split_char slash (''nar'' @ slash # (h @ ?e)) = [''nar'', h @ ?e]"
    using h e by (simp only: split_char_append) (simp add: split_char_notin)
  then have fl: "last (split_char slash (''nar/'' @ h @ ?e)) = h @ ?e" by simp
  have skip: "rfind_sub ''.nar'' (h @ ?e) = map_option ((+) (length h)) (rfind_sub ''.nar'' ?e)"
    by (rule rfind_sub_skip) (use h in simp)
  show ?thesis
  proof (cases "?e = []")
    case True
    with skip show ?thesis
      unfolding nar_extension_def[of "canonical_nar_url url h"] canonical_relative[OF assms] cut Let_def fl
      by simp
  next
    case False
    with e(4) skip show ?thesis
      unfolding nar_extension_def[of "canonical_nar_url url h"] canonical_relative[OF assms] cut Let_def fl
      by simp
  qed
qed

lemma store_hash_from_canonical:
  assumes "is_store_hash h"
  shows "store_hash_from_canonical_nar_url (canonical_nar_url url h) = Some h"
    "store_hash_from_canonical_nar_url (slash # canonical_nar_url url h) = Some h"
proof -
  note h = store_hash_chars[OF assms] and e = nar_extension_shape[of url]
  have sh: "(case split_once ''.nar'' (h @ nar_extension url) of None \<Rightarrow> h @ nar_extension url | Some (h, _) \<Rightarrow> h) = h"
  proof (cases "nar_extension url = []")
    case True
    have "\<not> sublist ''.nar'' h" using h(3) by (intro not_sublist_char[of "CHR ''.''"]) simp_all
    with True show ?thesis by (simp add: split_once_None[THEN iffD2])
  next
    case False
    with e(4) obtain r where "nar_extension url = ''.nar'' @ r"
      using rfind_sub_Some[of "''.nar''" "nar_extension url" 0] by (auto simp del: rfind_sub.simps elim: prefixE)
    with split_once_first[of "CHR ''.''" h "''nar''" r] h show ?thesis by simp
  qed
  have "strip_prefix ''nar/'' (''nar/'' @ h @ nar_extension url) = Some (h @ nar_extension url)"
    by (rule strip_prefix_append)
  with sh assms show "store_hash_from_canonical_nar_url (canonical_nar_url url h) = Some h"
    "store_hash_from_canonical_nar_url (slash # canonical_nar_url url h) = Some h"
    by (simp_all add: store_hash_from_canonical_nar_url_def canonical_nar_url_def)
qed

section \<open>Rewriting\<close>

definition ascii_line :: "string \<Rightarrow> bool" where
  "ascii_line s \<longleftrightarrow> (\<forall>c \<in> set s. code c < 128 \<and> c \<noteq> nl \<and> c \<noteq> cr)"

lemma ascii_line_simps [simp]:
  "ascii_line []"
  "ascii_line (c # s) \<longleftrightarrow> (code c < 128 \<and> c \<noteq> nl \<and> c \<noteq> cr) \<and> ascii_line s"
  "ascii_line (s @ t) \<longleftrightarrow> ascii_line s \<and> ascii_line t"
  by (auto simp: ascii_line_def)

lemma ascii_line_mono: "ascii_line s \<Longrightarrow> set t \<subseteq> set s \<Longrightarrow> ascii_line t"
  by (auto simp: ascii_line_def)

lemma ascii_line_valid [simp]: "ascii_line s \<Longrightarrow> utf8_valid s"
  by (simp add: ascii_line_def)

lemma ascii_line_rewrite:
  assumes "ascii_line url" "ascii_line upstream" "is_store_hash h"
  shows "ascii_line (rewrite_nar_url_value url upstream h mode)"
proof -
  have "set (trim_end_matches slash upstream) \<subseteq> set upstream"
    using set_dropWhileD[of _ "\<lambda>x. x = slash" "rev upstream"] by (auto simp: trim_end_matches_def)
  with assms(2) have up: "ascii_line (trim_end_matches slash upstream)" by (rule ascii_line_mono)
  have "set (trim_start_matches slash (relative_nar_url url)) \<subseteq> set url"
    by (meson relative_nar_url_suffix set_mono_suffix subset_trans trim_start_matches_suffix)
  with assms(1) have rel: "ascii_line (trim_start_matches slash (relative_nar_url url))" by (rule ascii_line_mono)
  have ext: "ascii_line (nar_extension url)" using assms(1) nar_extension_shape(3) by (rule ascii_line_mono)
  have "ascii_line h" using store_hash_chars(6)[OF assms(3)] by (simp add: ascii_line_def)
  with up rel ext assms(1) show ?thesis
    by (cases mode) (simp_all add: rewrite_nar_url_value_def canonical_nar_url_def)
qed

text \<open>The rewriting as a map on the lines of the body.\<close>

definition rewrite_text :: "string \<Rightarrow> string \<Rightarrow> nar_url_mode \<Rightarrow> string \<Rightarrow> string" where
  "rewrite_text upstream h mode l =
     (case strip_prefix ''URL: '' l of
        Some url \<Rightarrow> ''URL: '' @ rewrite_nar_url_value url upstream h mode
      | None \<Rightarrow> l)"

lemma split_inclusive_line_end: "nl \<notin> set s \<Longrightarrow> split_inclusive s = (if s = [] then [] else [s])"
proof (induction s)
  case (Cons c s)
  then show ?case by (cases s) auto
qed simp

lemma split_inclusive_cases:
  assumes "body \<noteq> []"
  obtains l where "split_inclusive body = [l]" "l = body" "nl \<notin> set l" "l \<noteq> []"
  | l rest where "body = l @ nl # rest" "nl \<notin> set l"
proof (cases "nl \<in> set body")
  case True
  then show ?thesis using split_list_first[OF True] that(2) by blast
next
  case False
  with split_inclusive_line_end[of body] assms that(1) show ?thesis by simp
qed

lemma buf_lines_rewrite:
  assumes "\<forall>c \<in> set body. code c < 128 \<and> c \<noteq> cr" "ascii_line upstream" "is_store_hash h"
  shows "buf_lines (concat (map (rewrite_line upstream h mode) (split_inclusive body)))
    = map (rewrite_text upstream h mode) (buf_lines body) \<and>
    (\<forall>l \<in> set (buf_lines body). ascii_line l)"
  using assms(1)
proof (induction "length body" arbitrary: body rule: less_induct)
  case less
  have rt: "ascii_line (rewrite_text upstream h mode l)" if "ascii_line l" for l
  proof (cases "strip_prefix ''URL: '' l")
    case (Some url)
    then have "l = ''URL: '' @ url" by (simp only: strip_prefix_Some)
    with that have "ascii_line url" by simp
    from ascii_line_rewrite[OF this assms(2,3)] Some show ?thesis by (simp add: rewrite_text_def)
  qed (use that in \<open>simp add: rewrite_text_def\<close>)
  have last_ok: "l = [] \<or> last l \<noteq> cr" "nl \<notin> set l" if "ascii_line l" for l
    using that by (auto simp: ascii_line_def dest: last_in_set)
  show ?case
  proof (cases "body = []")
    case False
    then show ?thesis
    proof (cases rule: split_inclusive_cases)
      case (1 l)
      then have l: "ascii_line l" using less.prems by (auto simp: ascii_line_def)
      have ch: "chomp x = (x, [])" if "ascii_line x" for x
        using last_ok[OF that] by (auto simp: chomp_def strip_suffix_def suffix_def)
      have "rewrite_text upstream h mode l \<noteq> []"
        using 1 by (auto simp: rewrite_text_def split: option.splits)
      moreover have "rewrite_line upstream h mode l = rewrite_text upstream h mode l"
        using ch[OF l] by (simp add: rewrite_line_def rewrite_text_def)
      ultimately show ?thesis
        using 1 ch[OF l] ch[OF rt[OF l]] last_ok(2)[OF rt[OF l]] l
        by (simp add: buf_lines_def split_inclusive_line_end)
    next
      case (2 l rest)
      then have l: "ascii_line l" using less.prems by (auto simp: ascii_line_def)
      have IH: "buf_lines (concat (map (rewrite_line upstream h mode) (split_inclusive rest)))
          = map (rewrite_text upstream h mode) (buf_lines rest)" "\<forall>l \<in> set (buf_lines rest). ascii_line l"
        using less.hyps[of rest] less.prems 2 by auto
      have "rewrite_line upstream h mode (l @ [nl]) = rewrite_text upstream h mode l @ [nl]"
        using last_ok[OF l] by (simp add: rewrite_line_def rewrite_text_def)
      with 2 IH l last_ok[OF l] last_ok[OF rt[OF l]] show ?thesis
        by simp
    qed
  qed simp
qed

definition url_rewritten :: "(string \<Rightarrow> string) \<Rightarrow> string \<Rightarrow> string \<Rightarrow> bool" where
  "url_rewritten rv u u' \<longleftrightarrow> u' = rv u \<or> u = [] \<and> u' = []"

lemma split_once_url: "split_once '': '' l = Some (''URL'', v) \<longleftrightarrow> l = ''URL: '' @ v"
proof
  assume "l = ''URL: '' @ v"
  with split_once_first[of "CHR '':''" "''URL''" "'' ''" v] show "split_once '': '' l = Some (''URL'', v)"
    by simp
qed (auto dest: split_once_Some)

lemma parse_field_url: "key \<noteq> ''URL'' \<Longrightarrow> parse_field key v ni = Ok r \<Longrightarrow>
    parse_field key v (ni\<lparr>ni_url := u\<rparr>) = Ok (r\<lparr>ni_url := u\<rparr>) \<and> ni_url r = ni_url ni"
  by (auto simp: parse_field_def split: if_splits sum.splits)

lemma parse_lines_rewrite:
  assumes "parse_lines ls ni = Ok r" "url_rewritten rv (ni_url ni) u"
    and "rv = (\<lambda>url. rewrite_nar_url_value url upstream h mode)"
    and "\<forall>l \<in> set ls. ascii_line l" "ascii_line upstream" "is_store_hash h"
  shows "\<exists>u'. parse_lines (map (rewrite_text upstream h mode) ls) (ni\<lparr>ni_url := u\<rparr>) = Ok (r\<lparr>ni_url := u'\<rparr>) \<and>
    url_rewritten rv (ni_url r) u'"
  using assms(1,2,4)
proof (induction ls ni arbitrary: u rule: parse_lines.induct)
  case (2 l ls ni)
  have ascii: "ascii_line l" using "2.prems" by simp
  show ?case
  proof (cases "l = []")
    case True
    with 2 show ?thesis by (simp add: rewrite_text_def strip_prefix_def)
  next
    case False
    from False "2.prems"(1) obtain key v ni' where kv: "split_once '': '' l = Some (key, v)"
      "parse_field key v ni = Ok ni'" "parse_lines ls ni' = Ok r"
      by (auto split: if_splits option.splits sum.splits prod.splits)
    note IH = "2.IH"(2)[OF _ False kv(1) refl kv(2) kv(3)]
    have valid: "utf8_valid l" using ascii by (simp add: ascii_line_def)
    show ?thesis
    proof (cases "key = ''URL''")
      case True
      then have l: "l = ''URL: '' @ v" using kv(1) split_once_url by blast
      let ?v' = "rewrite_nar_url_value v upstream h mode"
      have "ascii_line v" using ascii by (simp add: l ascii_line_def)
      then have "ascii_line ?v'" using ascii_line_rewrite assms(5,6) by blast
      then have valid': "utf8_valid (''URL: '' @ ?v')" by (simp add: ascii_line_def)
      have rl: "rewrite_text upstream h mode l = ''URL: '' @ ?v'"
        using strip_prefix_append[of "''URL: ''" v] by (simp only: l rewrite_text_def option.case)
      have so: "split_once '': '' (''URL: '' @ ?v') = Some (''URL'', ?v')" using split_once_url by blast
      have ni': "ni' = ni\<lparr>ni_url := v\<rparr>" using kv(2) True by (simp add: parse_field_def)
      have "parse_field ''URL'' ?v' (ni\<lparr>ni_url := u\<rparr>) = Ok (ni'\<lparr>ni_url := ?v'\<rparr>)"
        by (simp add: parse_field_def ni')
      with rl so valid' have "parse_lines (map (rewrite_text upstream h mode) (l # ls)) (ni\<lparr>ni_url := u\<rparr>)
          = parse_lines (map (rewrite_text upstream h mode) ls) (ni'\<lparr>ni_url := ?v'\<rparr>)"
        by (simp only: list.map parse_lines.simps so) simp
      moreover have "url_rewritten rv (ni_url ni') ?v'" by (simp add: url_rewritten_def ni' assms(3))
      ultimately show ?thesis using IH[of ?v'] valid "2.prems"(3) by simp
    next
      case no: False
      have "strip_prefix ''URL: '' l = None"
      proof (rule ccontr)
        assume "strip_prefix ''URL: '' l \<noteq> None"
        then obtain w where "l = ''URL: '' @ w" by (auto simp: strip_prefix_Some)
        with kv(1) no split_once_url[of l w] show False by simp
      qed
      then have rl: "rewrite_text upstream h mode l = l" by (simp add: rewrite_text_def)
      from parse_field_url[OF no kv(2), of u] rl valid False kv(1)
      have "parse_lines (map (rewrite_text upstream h mode) (l # ls)) (ni\<lparr>ni_url := u\<rparr>)
          = parse_lines (map (rewrite_text upstream h mode) ls) (ni'\<lparr>ni_url := u\<rparr>)" by simp
      moreover have "url_rewritten rv (ni_url ni') u"
        using parse_field_url[OF no kv(2), of u] "2.prems"(2) by simp
      ultimately show ?thesis using IH[of u] valid "2.prems"(3) by simp
    qed
  qed
qed (auto intro: exI)

lemma narinfo_verify_url: "narinfo_verify C (ni\<lparr>ni_url := u\<rparr>) key = narinfo_verify C ni key"
  by (simp add: narinfo_verify_def fingerprint_def)

lemma narinfo_parse_rewritten:
  assumes "narinfo_parse body = Ok ni" "ni_url ni \<noteq> []"
    and "\<forall>c \<in> set body. code c < 128 \<and> c \<noteq> cr" "ascii_line upstream" "is_store_hash h"
  shows "narinfo_parse (rewrite_narinfo_url body upstream h mode) =
    Ok (ni\<lparr>ni_url := rewrite_nar_url_value (ni_url ni) upstream h mode\<rparr>)"
proof (cases "mode = Keep")
  case True
  then show ?thesis using assms(1) by (simp add: rewrite_narinfo_url_def rewrite_nar_url_value_def)
next
  case False
  have "utf8_valid body" using assms(3) by simp
  with False have body: "buf_lines (rewrite_narinfo_url body upstream h mode)
      = map (rewrite_text upstream h mode) (buf_lines body)" "\<forall>l \<in> set (buf_lines body). ascii_line l"
    using buf_lines_rewrite[OF assms(3-5)] by (simp_all add: rewrite_narinfo_url_def)
  from assms(1) have pl: "parse_lines (buf_lines body) narinfo_default = Ok ni" "store_path ni \<noteq> []"
    by (auto simp: narinfo_parse_def split: sum.splits if_splits)
  have "url_rewritten (\<lambda>url. rewrite_nar_url_value url upstream h mode) (ni_url narinfo_default) []"
    by (simp add: url_rewritten_def narinfo_default_def)
  from parse_lines_rewrite[OF pl(1) this refl body(2) assms(4,5)] assms(2)
  have "parse_lines (buf_lines (rewrite_narinfo_url body upstream h mode)) narinfo_default
      = Ok (ni\<lparr>ni_url := rewrite_nar_url_value (ni_url ni) upstream h mode\<rparr>)"
    by (auto simp: body(1) url_rewritten_def narinfo_default_def)
  with pl(2) show ?thesis by (simp add: narinfo_parse_def narinfo_verify_url)
qed

section \<open>Properties\<close>

text \<open>
  The path handed to a client determines the store path again, with or without a leading
  slash; it keeps the extension, hence the promised compression, of whatever URL the upstream
  publishes; and making it canonical twice changes nothing.
\<close>

theorem canonical_nar_url_roundtrip:
  assumes "is_store_hash h"
  shows "store_hash_from_canonical_nar_url (canonical_nar_url url h) = Some h \<and>
    store_hash_from_canonical_nar_url (''/'' @ canonical_nar_url url h) = Some h \<and>
    nar_extension (canonical_nar_url url h) = nar_extension url \<and>
    compression_for_nar_url (canonical_nar_url url h) = compression_for_nar_url url \<and>
    canonical_nar_url (canonical_nar_url url h) h = canonical_nar_url url h \<and>
    relative_nar_url (canonical_nar_url url h) = canonical_nar_url url h"
  using assms store_hash_from_canonical[OF assms, of url] nar_extension_canonical[OF assms, of url]
    canonical_relative[OF assms, of url]
  by (simp add: compression_for_nar_url_def canonical_nar_url_def[of "canonical_nar_url url h"])
    (simp add: canonical_nar_url_def)

theorem canonical_nar_url_roundtrip_witness:
  "store_hash_from_canonical_nar_url
     (canonical_nar_url ''https://cache/nar/1w1f.nar.xz?hash=p4pc'' ''p4pclmv1gyja5kzc26npqpia1qqxrf0l'')
   = Some ''p4pclmv1gyja5kzc26npqpia1qqxrf0l''"
proof -
  have "is_store_hash ''p4pclmv1gyja5kzc26npqpia1qqxrf0l''"
    by (simp add: is_store_hash_def nix_base32_alphabet_def)
  from canonical_nar_url_roundtrip[OF this] show ?thesis by blast
qed

text \<open>
  C29: Rewriting the \<open>URL:\<close> line of a narinfo (ASCII, no carriage return) changes nothing else: the
  rewritten body parses to the same narinfo with the rewritten URL, and every key that verifies
  the one verifies the other.
\<close>

theorem rewrite_narinfo_url_parse:
  assumes "narinfo_parse body = Ok ni" "ni_url ni \<noteq> []"
    and "\<forall>c \<in> set body. code c < 128 \<and> c \<noteq> cr" "ascii_line upstream" "is_store_hash h"
  shows "\<exists>ni'. narinfo_parse (rewrite_narinfo_url body upstream h mode) = Ok ni' \<and>
    ni' = ni\<lparr>ni_url := rewrite_nar_url_value (ni_url ni) upstream h mode\<rparr> \<and>
    narinfo_verify C ni' key = narinfo_verify C ni key"
  using narinfo_parse_rewritten[OF assms] by (simp add: narinfo_verify_url)

theorem rewrite_narinfo_url_parse_witness:
  "\<exists>ni'. narinfo_parse (rewrite_narinfo_url
      (narinfo_render (narinfo_default\<lparr>store_path := ''/nix/store/p'', ni_url := ''x.nar''\<rparr>))
      ''http://u'' ''p4pclmv1gyja5kzc26npqpia1qqxrf0l'' ToUpstream) = Ok ni' \<and> ni_url ni' = ''http://u/x.nar''"
proof -
  let ?ni = "narinfo_default\<lparr>store_path := ''/nix/store/p'', ni_url := ''x.nar''\<rparr>"
  have p: "printable_narinfo ?ni"
    by (simp add: printable_narinfo_def narinfo_default_def line_value_def u64_max_def)
  have "show_nat 0 = ''0''" by code_simp
  then have b: "\<forall>c \<in> set (narinfo_render ?ni). code c < 128 \<and> c \<noteq> cr"
    by (simp add: narinfo_render_def narinfo_fields_def narinfo_default_def line_def)
  have h: "is_store_hash ''p4pclmv1gyja5kzc26npqpia1qqxrf0l''"
    by (simp add: is_store_hash_def nix_base32_alphabet_def)
  have "rewrite_nar_url_value ''x.nar'' ''http://u'' ''p4pclmv1gyja5kzc26npqpia1qqxrf0l'' ToUpstream = ''http://u/x.nar''"
    by (simp add: rewrite_nar_url_value_def relative_nar_url_def split_once_def trim_end_matches_def)
  with rewrite_narinfo_url_parse[OF narinfo_parse_render[OF p] _ b _ h, of "''http://u''" ToUpstream]
  show ?thesis by simp
qed

end
