(* ===== verification/Db.thy ===== *)
theory Db
  imports Strings
begin

text \<open>
  The SQLite store of \<open>ncro_db\<close>: its three tables as association lists in insertion order, and
  every statement as the operation its SQL text denotes. A statement takes the error SQLite
  returns for it, if any; a failing statement changes nothing. Time is an argument, and the
  timestamp library \<open>jiff\<close> is a parameter: seconds of a timestamp, the partial inverse, and
  the addition of a duration.
\<close>

record jiff =
  as_second :: "timestamp \<Rightarrow> int"
  from_second :: "int \<Rightarrow> timestamp option"
  ts_add :: "timestamp \<Rightarrow> duration \<Rightarrow> timestamp option"
  ts_max :: timestamp

type_synonym sqlx_error = string

datatype db_error = Sqlx sqlx_error | CreateDir string string | OpenDb string sqlx_error | InvalidData string

record route_entry =
  r_store_path :: string
  r_upstream_url :: string
  r_latency_ms :: f64
  r_latency_ema :: f64
  r_last_verified :: timestamp
  r_query_count :: u32
  r_failure_count :: u32
  r_ttl :: timestamp
  r_nar_hash :: string
  r_nar_size :: nat
  r_nar_url :: string
  r_upstream_nar_url :: string
  r_narinfo_bytes :: "bytes option"

definition is_valid :: "timestamp \<Rightarrow> route_entry \<Rightarrow> bool" where
  "is_valid now e \<longleftrightarrow> now < r_ttl e"

record health_row =
  hr_url :: string
  hr_ema :: f64
  hr_fails :: int
  hr_queries :: int

text \<open>A row of \<open>routes\<close> without its key: the SQL types of the columns.\<close>

record route_row =
  c_upstream_url :: string
  c_latency_ms :: f64
  c_latency_ema :: f64
  c_query_count :: int
  c_failure_count :: int
  c_last_verified :: int
  c_ttl :: int
  c_nar_hash :: string
  c_nar_size :: int
  c_nar_url :: string
  c_upstream_nar_url :: string
  c_narinfo_bytes :: "bytes option"

record db =
  d_routes :: "(string \<times> route_row) list"
  d_negative :: "(string \<times> int) list"
  d_health :: "(string \<times> f64 \<times> int \<times> int) list"
  d_max_entries :: int
  d_write_count :: "64 word"

section \<open>Opening and migrating\<close>

text \<open>The schema: each table with its columns.\<close>

type_synonym schema = "(string \<times> string list) list"

definition create_table_if_missing :: "string \<Rightarrow> string list \<Rightarrow> schema \<Rightarrow> schema" where
  "create_table_if_missing name cols s =
     (case map_of s name of None \<Rightarrow> s @ [(name, cols)] | Some _ \<Rightarrow> s)"

text \<open>An index on a missing column is an error of SQLite; an existing index is skipped.\<close>

definition create_index_if_missing ::
  "string set \<Rightarrow> string \<Rightarrow> string \<Rightarrow> string \<Rightarrow> schema \<Rightarrow> (db_error, schema) result" where
  "create_index_if_missing existing name tab col s =
     (if name \<in> existing then Ok s
      else case map_of s tab of
          None \<Rightarrow> Err (Sqlx (''no such table: '' @ tab))
        | Some cols \<Rightarrow> if col \<in> set cols then Ok s else Err (Sqlx (''no such column: '' @ col)))"

definition add_column_if_missing :: "string \<Rightarrow> string \<Rightarrow> schema \<Rightarrow> (db_error, schema) result" where
  "add_column_if_missing tab col s =
     (case map_of s tab of
        None \<Rightarrow> Err (Sqlx (''no such table: '' @ tab))
      | Some cols \<Rightarrow> Ok (if col \<in> set cols then s else upsert tab (cols @ [col]) s))"

definition and_then :: "('e, 'a) result \<Rightarrow> ('a \<Rightarrow> ('e, 'b) result) \<Rightarrow> ('e, 'b) result" where
  "and_then r f = (case r of Err e \<Rightarrow> Err e | Ok x \<Rightarrow> f x)"

definition routes_columns :: "string list" where
  "routes_columns = [''store_path'', ''upstream_url'', ''latency_ms'', ''latency_ema'', ''query_count'',
     ''failure_count'', ''last_verified'', ''ttl'', ''nar_hash'', ''nar_size'', ''nar_url'', ''created_at'']"

definition health_columns :: "string list" where
  "health_columns = [''url'', ''ema_latency'', ''consecutive_fails'', ''total_queries'']"

definition negative_columns :: "string list" where
  "negative_columns = [''store_path'', ''expires_at'']"

definition migrate :: "string set \<Rightarrow> schema \<Rightarrow> (db_error, schema) result" where
  "migrate indexes s =
     and_then (Ok (create_table_if_missing ''routes'' routes_columns s)) (\<lambda>s.
     and_then (create_index_if_missing indexes ''idx_routes_ttl'' ''routes'' ''ttl'' s) (\<lambda>s.
     and_then (create_index_if_missing indexes ''idx_routes_last_verified'' ''routes'' ''last_verified'' s) (\<lambda>s.
     and_then (create_index_if_missing indexes ''idx_routes_nar_url'' ''routes'' ''nar_url'' s) (\<lambda>s.
     and_then (Ok (create_table_if_missing ''upstream_health'' health_columns s)) (\<lambda>s.
     and_then (Ok (create_table_if_missing ''negative_cache'' negative_columns s)) (\<lambda>s.
     and_then (create_index_if_missing indexes ''idx_negative_expires'' ''negative_cache'' ''expires_at'' s) (\<lambda>s.
     and_then (add_column_if_missing ''routes'' ''narinfo_bytes'' s) (\<lambda>s.
     add_column_if_missing ''routes'' ''upstream_nar_url'' s))))))))"

text \<open>A freshly opened handle on the rows on disk.\<close>

definition db_open ::
  "int \<Rightarrow> (string \<times> route_row) list \<Rightarrow> (string \<times> int) list \<Rightarrow> (string \<times> f64 \<times> int \<times> int) list \<Rightarrow> db" where
  "db_open max_entries routes negative health =
     \<lparr>d_routes = routes, d_negative = negative, d_health = health,
      d_max_entries = max_entries, d_write_count = 0\<rparr>"

section \<open>Routes\<close>

definition ts_of_row :: "jiff \<Rightarrow> int \<Rightarrow> string \<Rightarrow> (db_error, timestamp) result" where
  "ts_of_row J v field =
     (case from_second J v of
        None \<Rightarrow> Err (InvalidData (field @ '' timestamp out of range: '' @ show_int v))
      | Some t \<Rightarrow> Ok t)"

definition u32_of_i64 :: "int \<Rightarrow> string \<Rightarrow> (db_error, u32) result" where
  "u32_of_i64 v field =
     (if 0 \<le> v \<and> v \<le> int u32_max then Ok (word_of_int v)
      else Err (InvalidData (field @ '' out of range: '' @ show_int v)))"

definition u64_of_i64 :: "int \<Rightarrow> string \<Rightarrow> (db_error, nat) result" where
  "u64_of_i64 v field =
     (if 0 \<le> v then Ok (nat v) else Err (InvalidData (field @ '' out of range: '' @ show_int v)))"

definition row_to_route :: "jiff \<Rightarrow> string \<times> route_row \<Rightarrow> (db_error, route_entry) result" where
  "row_to_route J r =
     (let row = snd r in
      and_then (u32_of_i64 (c_query_count row) ''query_count'') (\<lambda>query_count.
      and_then (u32_of_i64 (c_failure_count row) ''failure_count'') (\<lambda>failure_count.
      and_then (ts_of_row J (c_last_verified row) ''last_verified'') (\<lambda>last_verified.
      and_then (ts_of_row J (c_ttl row) ''ttl'') (\<lambda>ttl.
      and_then (u64_of_i64 (c_nar_size row) ''nar_size'') (\<lambda>nar_size.
        Ok \<lparr>r_store_path = fst r, r_upstream_url = c_upstream_url row,
            r_latency_ms = c_latency_ms row, r_latency_ema = c_latency_ema row,
            r_last_verified = last_verified, r_query_count = query_count,
            r_failure_count = failure_count, r_ttl = ttl, r_nar_hash = c_nar_hash row,
            r_nar_size = nar_size, r_nar_url = c_nar_url row,
            r_upstream_nar_url = c_upstream_nar_url row,
            r_narinfo_bytes = c_narinfo_bytes row\<rparr>))))))"

text \<open>\<open>row.as_ref().map(row_to_route).transpose()\<close>.\<close>

definition optional_route ::
  "jiff \<Rightarrow> (string \<times> route_row) option \<Rightarrow> (db_error, route_entry option) result" where
  "optional_route J r =
     (case r of None \<Rightarrow> Ok None | Some r \<Rightarrow> and_then (row_to_route J r) (\<lambda>e. Ok (Some e)))"

definition get_route ::
  "jiff \<Rightarrow> sqlx_error option \<Rightarrow> db \<Rightarrow> string \<Rightarrow> (db_error, route_entry option) result" where
  "get_route J fault d sp =
     (case fault of
        Some e \<Rightarrow> Err (Sqlx e)
      | None \<Rightarrow> optional_route J (map_option (\<lambda>row. (sp, row)) (map_of (d_routes d) sp)))"

definition get_route_by_nar_url ::
  "jiff \<Rightarrow> sqlx_error option \<Rightarrow> timestamp \<Rightarrow> db \<Rightarrow> string \<Rightarrow> (db_error, route_entry option) result" where
  "get_route_by_nar_url J fault now d nar_url =
     (case fault of
        Some e \<Rightarrow> Err (Sqlx e)
      | None \<Rightarrow> optional_route J
          (find (\<lambda>r. c_nar_url (snd r) = nar_url \<and> as_second J now < c_ttl (snd r)) (d_routes d)))"

text \<open>The bound parameters of the upsert; a NaN is bound as NULL, which the column refuses.\<close>

definition sql_real :: "f64 \<Rightarrow> f64 option" where
  "sql_real x = (case x of NaN \<Rightarrow> None | NegZero \<Rightarrow> Some (Fin 0) | _ \<Rightarrow> Some x)"

definition route_to_row :: "jiff \<Rightarrow> route_entry \<Rightarrow> route_row option" where
  "route_to_row J e =
     (case (sql_real (r_latency_ms e), sql_real (r_latency_ema e)) of
        (Some ms, Some ema) \<Rightarrow>
          Some \<lparr>c_upstream_url = r_upstream_url e, c_latency_ms = ms, c_latency_ema = ema,
            c_query_count = uint (r_query_count e), c_failure_count = uint (r_failure_count e),
            c_last_verified = as_second J (r_last_verified e), c_ttl = as_second J (r_ttl e),
            c_nar_hash = r_nar_hash e, c_nar_size = min (int (r_nar_size e)) i64_max,
            c_nar_url = r_nar_url e, c_upstream_nar_url = r_upstream_nar_url e,
            c_narinfo_bytes = r_narinfo_bytes e\<rparr>
      | _ \<Rightarrow> None)"

definition victims :: "db \<Rightarrow> string list" where
  "victims d = take (nat (max 0 (int (length (d_routes d)) - d_max_entries d)))
     (map fst (sort_key (\<lambda>r. c_last_verified (snd r)) (d_routes d)))"

definition evict_if_needed :: "sqlx_error option \<Rightarrow> db \<Rightarrow> (db_error, unit) result \<times> db" where
  "evict_if_needed fault d =
     (case fault of
        Some e \<Rightarrow> (Err (Sqlx e), d)
      | None \<Rightarrow> (Ok (), d\<lparr>d_routes := filter (\<lambda>r. fst r \<notin> set (victims d)) (d_routes d)\<rparr>))"

definition set_route ::
  "jiff \<Rightarrow> sqlx_error option \<Rightarrow> sqlx_error option \<Rightarrow> db \<Rightarrow> route_entry \<Rightarrow> (db_error, unit) result \<times> db" where
  "set_route J fault evict_fault d e =
     (case fault of
        Some er \<Rightarrow> (Err (Sqlx er), d)
      | None \<Rightarrow>
          (case route_to_row J e of
             None \<Rightarrow> (Err (Sqlx ''NOT NULL constraint failed''), d)
           | Some row \<Rightarrow>
               let count = d_write_count d;
                   d' = d\<lparr>d_routes := upsert (r_store_path e) row (d_routes d),
                          d_write_count := count + 1\<rparr>
               in if count mod 100 = 99 then evict_if_needed evict_fault d' else (Ok (), d')))"

definition expire_old_routes :: "jiff \<Rightarrow> sqlx_error option \<Rightarrow> timestamp \<Rightarrow> db \<Rightarrow> (db_error, unit) result \<times> db" where
  "expire_old_routes J fault now d =
     (case fault of
        Some e \<Rightarrow> (Err (Sqlx e), d)
      | None \<Rightarrow> (Ok (), d\<lparr>d_routes := filter (\<lambda>r. \<not> c_ttl (snd r) < as_second J now) (d_routes d)\<rparr>))"

text \<open>\<open>LIMIT\<close>: a negative limit is no limit.\<close>

definition sql_limit :: "int \<Rightarrow> 'a list \<Rightarrow> 'a list" where
  "sql_limit n xs = (if n < 0 then xs else take (nat n) xs)"

text \<open>\<open>collect\<close> into a \<open>Result\<close>: the first error stops.\<close>

fun collect_results :: "('e, 'a) result list \<Rightarrow> ('e, 'a list) result" where
  "collect_results [] = Ok []"
| "collect_results (r # rs) = and_then r (\<lambda>x. and_then (collect_results rs) (\<lambda>xs. Ok (x # xs)))"

definition list_recent_routes ::
  "jiff \<Rightarrow> sqlx_error option \<Rightarrow> timestamp \<Rightarrow> db \<Rightarrow> int \<Rightarrow> (db_error, route_entry list) result" where
  "list_recent_routes J fault now d n =
     (case fault of
        Some e \<Rightarrow> Err (Sqlx e)
      | None \<Rightarrow> collect_results (map (row_to_route J)
          (sql_limit n (sort_key (\<lambda>r. - c_last_verified (snd r))
            (filter (\<lambda>r. as_second J now < c_ttl (snd r)) (d_routes d))))))"

definition route_count :: "sqlx_error option \<Rightarrow> db \<Rightarrow> (db_error, int) result" where
  "route_count fault d =
     (case fault of Some e \<Rightarrow> Err (Sqlx e) | None \<Rightarrow> Ok (int (length (d_routes d))))"

section \<open>Negative entries\<close>

definition set_negative ::
  "jiff \<Rightarrow> sqlx_error option \<Rightarrow> timestamp \<Rightarrow> db \<Rightarrow> string \<Rightarrow> duration \<Rightarrow> (db_error, unit) result \<times> db" where
  "set_negative J fault now d sp ttl =
     (case fault of
        Some e \<Rightarrow> (Err (Sqlx e), d)
      | None \<Rightarrow> (Ok (), d\<lparr>d_negative := upsert sp
          (as_second J (case ts_add J now ttl of None \<Rightarrow> ts_max J | Some t \<Rightarrow> t)) (d_negative d)\<rparr>))"

definition is_negative ::
  "jiff \<Rightarrow> sqlx_error option \<Rightarrow> timestamp \<Rightarrow> db \<Rightarrow> string \<Rightarrow> (db_error, bool) result" where
  "is_negative J fault now d sp =
     (case fault of
        Some e \<Rightarrow> Err (Sqlx e)
      | None \<Rightarrow> Ok (list_ex (\<lambda>r. fst r = sp \<and> as_second J now < snd r) (d_negative d)))"

definition expire_negatives :: "jiff \<Rightarrow> sqlx_error option \<Rightarrow> timestamp \<Rightarrow> db \<Rightarrow> (db_error, unit) result \<times> db" where
  "expire_negatives J fault now d =
     (case fault of
        Some e \<Rightarrow> (Err (Sqlx e), d)
      | None \<Rightarrow> (Ok (), d\<lparr>d_negative := filter (\<lambda>r. \<not> snd r < as_second J now) (d_negative d)\<rparr>))"

section \<open>Health rows\<close>

text \<open>One transaction: the first failing statement, the one whose number is the fault or one
  that binds a NaN, rolls everything back.\<close>

fun upsert_health ::
  "sqlx_error option list \<Rightarrow> health_row list \<Rightarrow> (string \<times> f64 \<times> int \<times> int) list
     \<Rightarrow> (db_error, (string \<times> f64 \<times> int \<times> int) list) result" where
  "upsert_health faults [] t = Ok t"
| "upsert_health faults (row # rows) t =
     (case (case faults of f # _ \<Rightarrow> f | [] \<Rightarrow> None) of
        Some e \<Rightarrow> Err (Sqlx e)
      | None \<Rightarrow>
          (case sql_real (hr_ema row) of
             None \<Rightarrow> Err (Sqlx ''NOT NULL constraint failed'')
           | Some ema \<Rightarrow>
               upsert_health (drop 1 faults) rows (upsert (hr_url row) (ema, hr_fails row, hr_queries row) t)))"

definition save_health ::
  "sqlx_error option \<Rightarrow> sqlx_error option list \<Rightarrow> sqlx_error option \<Rightarrow> db \<Rightarrow> health_row list
     \<Rightarrow> (db_error, unit) result \<times> db" where
  "save_health begin_fault faults commit_fault d rows =
     (if rows = [] then (Ok (), d)
      else case begin_fault of
          Some e \<Rightarrow> (Err (Sqlx e), d)
        | None \<Rightarrow>
            (case upsert_health faults rows (d_health d) of
               Err e \<Rightarrow> (Err e, d)
             | Ok t \<Rightarrow>
                 (case commit_fault of
                    Some e \<Rightarrow> (Err (Sqlx e), d)
                  | None \<Rightarrow> (Ok (), d\<lparr>d_health := t\<rparr>))))"

definition load_all_health :: "sqlx_error option \<Rightarrow> db \<Rightarrow> (db_error, health_row list) result" where
  "load_all_health fault d =
     (case fault of
        Some e \<Rightarrow> Err (Sqlx e)
      | None \<Rightarrow> Ok (map (\<lambda>(url, ema, fails, queries).
          \<lparr>hr_url = url, hr_ema = ema, hr_fails = fails, hr_queries = queries\<rparr>) (d_health d)))"

section \<open>What the timestamp library is relied on for\<close>

definition ts_ok :: "jiff \<Rightarrow> timestamp \<Rightarrow> bool" where
  "ts_ok J t \<longleftrightarrow> from_second J (as_second J t) \<noteq> None"

definition jiff_ok :: "jiff \<Rightarrow> bool" where
  "jiff_ok J \<longleftrightarrow>
     (\<forall>s t. from_second J s = Some t \<longrightarrow> as_second J t = s) \<and>
     (\<forall>t u. t \<le> u \<longrightarrow> as_second J t \<le> as_second J u)"

text \<open>A concrete instance: whole seconds rounded down, within the years the library admits.\<close>

definition jiff_demo :: jiff where
  "jiff_demo =
     \<lparr>as_second = (\<lambda>t. t div 1000000000),
      from_second = (\<lambda>s. if -377705023201 \<le> s \<and> s \<le> 253402207200 then Some (s * 1000000000) else None),
      ts_add = (\<lambda>t d. Some (min (t + int d) (253402207200 * 1000000000))),
      ts_max = 253402207200 * 1000000000\<rparr>"

lemma jiff_demo_ok: "jiff_ok jiff_demo"
  by (auto simp: jiff_ok_def jiff_demo_def zdiv_mono1 split: if_splits)

section \<open>Decoding of stored rows\<close>

lemma and_then_simps [simp]: "and_then (Ok x) f = f x" "and_then (Err e) f = Err e"
  by (simp_all add: and_then_def)

lemma and_then_Ok [simp]: "and_then r f = Ok y \<longleftrightarrow> (\<exists>x. r = Ok x \<and> f x = Ok y)"
  by (cases r) auto

definition row_ok :: "jiff \<Rightarrow> route_row \<Rightarrow> bool" where
  "row_ok J row \<longleftrightarrow>
     0 \<le> c_query_count row \<and> c_query_count row \<le> int u32_max \<and>
     0 \<le> c_failure_count row \<and> c_failure_count row \<le> int u32_max \<and>
     from_second J (c_last_verified row) \<noteq> None \<and> from_second J (c_ttl row) \<noteq> None \<and>
     0 \<le> c_nar_size row"

lemma row_to_route_Ok_iff: "(\<exists>e. row_to_route J (k, row) = Ok e) \<longleftrightarrow> row_ok J row"
  by (auto simp: row_to_route_def row_ok_def u32_of_i64_def u64_of_i64_def ts_of_row_def Let_def
      split: option.splits)

lemma row_to_route_key: "row_to_route J r = Ok e \<Longrightarrow> r_store_path e = fst r"
  by (auto simp: row_to_route_def Let_def)

text \<open>The entry as it comes back: whole seconds, an \<open>i64\<close> size, no negative zero.\<close>

definition stored_entry :: "jiff \<Rightarrow> route_entry \<Rightarrow> route_entry" where
  "stored_entry J e =
     (case route_to_row J e of
        None \<Rightarrow> e
      | Some row \<Rightarrow> (case row_to_route J (r_store_path e, row) of Ok e' \<Rightarrow> e' | Err _ \<Rightarrow> e))"

definition second_of :: "jiff \<Rightarrow> timestamp \<Rightarrow> timestamp" where
  "second_of J t = (case from_second J (as_second J t) of Some t' \<Rightarrow> t' | None \<Rightarrow> t)"

definition storable :: "jiff \<Rightarrow> route_entry \<Rightarrow> bool" where
  "storable J e \<longleftrightarrow> r_latency_ms e \<noteq> NaN \<and> r_latency_ema e \<noteq> NaN \<and>
     ts_ok J (r_last_verified e) \<and> ts_ok J (r_ttl e)"

lemma uint_u32: "0 \<le> uint (w :: u32) \<and> uint w \<le> int u32_max"
  using uint_bounded[of w] by (simp add: u32_max_def)

lemma sql_real_Some: "x \<noteq> NaN \<Longrightarrow> \<exists>y. sql_real x = Some y"
  by (cases x) (auto simp: sql_real_def)

lemma route_to_row_ok:
  assumes "storable J e"
  shows "\<exists>row. route_to_row J e = Some row \<and> row_ok J row"
proof -
  from assms obtain ms ema where "sql_real (r_latency_ms e) = Some ms" "sql_real (r_latency_ema e) = Some ema"
    unfolding storable_def by (blast dest: sql_real_Some)
  with assms show ?thesis
    using uint_u32[of "r_query_count e"] uint_u32[of "r_failure_count e"]
    by (simp add: route_to_row_def row_ok_def storable_def ts_ok_def i64_max_def)
qed

lemma stored_entry_fields:
  assumes "storable J e"
  shows "stored_entry J e = e\<lparr>
    r_latency_ms := the (sql_real (r_latency_ms e)), r_latency_ema := the (sql_real (r_latency_ema e)),
    r_last_verified := second_of J (r_last_verified e), r_ttl := second_of J (r_ttl e),
    r_nar_size := min (r_nar_size e) (nat i64_max)\<rparr>"
proof -
  from assms obtain ms ema where "sql_real (r_latency_ms e) = Some ms" "sql_real (r_latency_ema e) = Some ema"
    unfolding storable_def by (blast dest: sql_real_Some)
  moreover obtain lv ttl where "from_second J (as_second J (r_last_verified e)) = Some lv"
    "from_second J (as_second J (r_ttl e)) = Some ttl"
    using assms by (auto simp: storable_def ts_ok_def)
  moreover have "nat (min (int (r_nar_size e)) i64_max) = min (r_nar_size e) (nat i64_max)"
    by (simp add: i64_max_def min_def nat_le_iff)
  moreover have "0 \<le> min (int (r_nar_size e)) i64_max" by (simp add: i64_max_def)
  ultimately show ?thesis
    using uint_u32[of "r_query_count e"] uint_u32[of "r_failure_count e"]
    by (simp add: stored_entry_def route_to_row_def row_to_route_def u32_of_i64_def u64_of_i64_def
        ts_of_row_def second_of_def Let_def)
qed

section \<open>The contract of the route store\<close>

lemma map_of_filter_key: "map_of (filter (\<lambda>r. P (fst r)) t) k = (if P k then map_of t k else None)"
  by (induction t) auto

definition fetch_route :: "jiff \<Rightarrow> db \<Rightarrow> string \<Rightarrow> route_entry option" where
  "fetch_route J d k = (case get_route J None d k of Ok (Some e) \<Rightarrow> Some e | _ \<Rightarrow> None)"

lemma fetch_route_Some:
  "fetch_route J d k = Some w \<longleftrightarrow> (\<exists>row. map_of (d_routes d) k = Some row \<and> row_to_route J (k, row) = Ok w)"
  by (auto simp: fetch_route_def get_route_def optional_route_def split: option.splits sum.splits)

definition put_route :: "jiff \<Rightarrow> sqlx_error option \<Rightarrow> sqlx_error option \<Rightarrow> db \<Rightarrow> route_entry \<Rightarrow> db" where
  "put_route J fault evict_fault d e = snd (set_route J fault evict_fault d e)"

text \<open>A write that SQLite accepts and that is not the one in a hundred that evicts.\<close>

definition plain_write :: "jiff \<Rightarrow> sqlx_error option \<Rightarrow> db \<Rightarrow> route_entry \<Rightarrow> bool" where
  "plain_write J fault d e \<longleftrightarrow> fault = None \<and> storable J e \<and> d_write_count d mod 100 \<noteq> 99"

locale route_store =
  fixes fetch :: "'s \<Rightarrow> string \<Rightarrow> 'v option"
    and put :: "'s \<Rightarrow> 'v \<Rightarrow> 's"
    and key :: "'v \<Rightarrow> string"
    and norm :: "'v \<Rightarrow> 'v"
    and accepted :: "'s \<Rightarrow> 'v \<Rightarrow> bool"
  assumes fetch_put_sound: "fetch (put s v) k = Some w \<Longrightarrow> fetch s k = Some w \<or> k = key v \<and> w = norm v"
    and fetch_put: "accepted s v \<Longrightarrow> fetch (put s v) k = (if k = key v then Some (norm v) else fetch s k)"
begin

text \<open>Writing a batch, each entry under a condition on the store it meets.\<close>

fun put_all :: "('s \<Rightarrow> 'v \<Rightarrow> bool) \<Rightarrow> 'v list \<Rightarrow> 's \<Rightarrow> 's" where
  "put_all wanted [] s = s"
| "put_all wanted (v # vs) s = put_all wanted vs (if wanted s v then put s v else s)"

lemma put_all_sound:
  "fetch (put_all wanted vs s) k = Some w \<Longrightarrow>
     fetch s k = Some w \<or> (\<exists>v \<in> set vs. k = key v \<and> w = norm v)"
proof (induction wanted vs s rule: put_all.induct)
  case (2 wanted v vs s)
  then show ?case by (cases "wanted s v") (auto dest: fetch_put_sound)
qed simp

lemma put_all_untouched:
  "\<forall>v \<in> set vs. key v \<noteq> k \<Longrightarrow> fetch (put_all wanted vs s) k = Some w \<Longrightarrow> fetch s k = Some w"
  using put_all_sound by fastforce

end

lemma set_route_rows:
  "d_routes (put_route J fault evict_fault d e) = d_routes d \<or>
   (\<exists>row V. route_to_row J e = Some row \<and>
      d_routes (put_route J fault evict_fault d e)
        = filter (\<lambda>r. fst r \<notin> V) (upsert (r_store_path e) row (d_routes d)))"
proof (cases "fault = None \<and> route_to_row J e \<noteq> None")
  case True
  then obtain row where row: "route_to_row J e = Some row" "fault = None" by auto
  let ?u = "upsert (r_store_path e) row (d_routes d)"
  show ?thesis
  proof (cases "d_write_count d mod 100 = 99 \<and> evict_fault = None")
    case True
    with row show ?thesis by (auto simp: put_route_def set_route_def evict_if_needed_def Let_def)
  next
    case False
    with row have "d_routes (put_route J fault evict_fault d e) = filter (\<lambda>r. fst r \<notin> {}) ?u"
      by (auto simp: put_route_def set_route_def evict_if_needed_def Let_def split: option.split)
    with row show ?thesis by blast
  qed
next
  case False
  then show ?thesis by (auto simp: put_route_def set_route_def split: option.splits)
qed

interpretation db_store:
  route_store "fetch_route J" "put_route J fault evict_fault" r_store_path "stored_entry J"
    "plain_write J fault"
  for J fault evict_fault
proof unfold_locales
  fix d e k w
  assume "fetch_route J (put_route J fault evict_fault d e) k = Some w"
  then obtain row' where row': "map_of (d_routes (put_route J fault evict_fault d e)) k = Some row'"
    "row_to_route J (k, row') = Ok w" by (auto simp: fetch_route_Some)
  from set_route_rows[of J fault evict_fault d e]
  show "fetch_route J d k = Some w \<or> k = r_store_path e \<and> w = stored_entry J e"
  proof (elim disjE exE conjE)
    fix row V
    assume row: "route_to_row J e = Some row"
      and rows: "d_routes (put_route J fault evict_fault d e)
        = filter (\<lambda>r. fst r \<notin> V) (upsert (r_store_path e) row (d_routes d))"
    have "((map_of (d_routes d))(r_store_path e \<mapsto> row)) k = Some row'"
      using row'(1)[unfolded rows map_of_filter_key[of "\<lambda>k. k \<notin> V"] map_of_upsert]
      by (simp split: if_splits)
    with row row'(2) show ?thesis
      by (auto simp: fetch_route_Some stored_entry_def split: if_splits)
  qed (use row' in \<open>auto simp: fetch_route_Some\<close>)
next
  fix d e k
  assume "plain_write J fault d e"
  then have ok: "fault = None" "storable J e" "d_write_count d mod 100 \<noteq> 99" by (auto simp: plain_write_def)
  from route_to_row_ok[OF ok(2)] obtain row where row: "route_to_row J e = Some row" "row_ok J row" by blast
  moreover from row(2) obtain e' where "row_to_route J (r_store_path e, row) = Ok e'"
    using row_to_route_Ok_iff by blast
  ultimately show "fetch_route J (put_route J fault evict_fault d e) k
      = (if k = r_store_path e then Some (stored_entry J e) else fetch_route J d k)"
    using ok(1,3)
    by (simp add: fetch_route_def get_route_def optional_route_def put_route_def set_route_def
        map_of_upsert stored_entry_def Let_def)
qed

section \<open>Eviction\<close>

lemma filter_drop_keys:
  "distinct (map fst L) \<Longrightarrow> filter (\<lambda>r. fst r \<notin> set (take n (map fst L))) L = drop n L"
proof (induction L arbitrary: n)
  case (Cons r L)
  show ?case
  proof (cases n)
    case 0
    then show ?thesis by (simp add: filter_id_conv)
  next
    case (Suc m)
    have "filter (\<lambda>x. fst x \<notin> set (take (Suc m) (map fst (r # L)))) L
        = filter (\<lambda>x. fst x \<notin> set (take m (map fst L))) L"
      using Cons.prems by (intro filter_cong) (auto simp: image_iff)
    with Cons Suc show ?thesis by simp
  qed
qed simp

text \<open>What remains is the tail of the table in the order of the last verification.\<close>

lemma evict_mset:
  assumes "keys_distinct (d_routes d)"
  defines "L \<equiv> sort_key (\<lambda>r. c_last_verified (snd r)) (d_routes d)"
  defines "n \<equiv> nat (max 0 (int (length (d_routes d)) - d_max_entries d))"
  shows "mset (filter (\<lambda>r. fst r \<notin> set (victims d)) (d_routes d)) = mset (drop n L)"
proof -
  have "distinct (map fst L)"
  proof -
    have "mset (map fst L) = mset (map fst (d_routes d))" by (simp add: L_def)
    with assms(1) mset_eq_imp_distinct_iff show ?thesis unfolding keys_distinct_def by blast
  qed
  then have "filter (\<lambda>r. fst r \<notin> set (victims d)) L = drop n L"
    unfolding victims_def L_def n_def by (rule filter_drop_keys)
  then have "mset (drop n L) = filter_mset (\<lambda>r. fst r \<notin> set (victims d)) (mset L)"
    by (metis mset_filter)
  then show ?thesis by (simp add: L_def mset_filter)
qed

lemma evict_length:
  assumes "keys_distinct (d_routes d)" "0 \<le> d_max_entries d"
  shows "int (length (filter (\<lambda>r. fst r \<notin> set (victims d)) (d_routes d)))
    = min (int (length (d_routes d))) (d_max_entries d)"
proof -
  have "length (filter (\<lambda>r. fst r \<notin> set (victims d)) (d_routes d))
      = length (d_routes d) - nat (max 0 (int (length (d_routes d)) - d_max_entries d))"
    using mset_eq_length[OF evict_mset[OF assms(1)]] by simp
  then show ?thesis using assms(2) by auto
qed

lemma evict_order:
  assumes "keys_distinct (d_routes d)" "r \<in> set (d_routes d)" "fst r \<in> set (victims d)"
    "k \<in> set (filter (\<lambda>r. fst r \<notin> set (victims d)) (d_routes d))"
  shows "c_last_verified (snd r) \<le> c_last_verified (snd k)"
proof -
  define L where "L = sort_key (\<lambda>r. c_last_verified (snd r)) (d_routes d)"
  define n where "n = nat (max 0 (int (length (d_routes d)) - d_max_entries d))"
  have k: "k \<in> set (drop n L)"
    using assms(4) evict_mset[OF assms(1)] unfolding L_def n_def by (metis mset_eq_setD)
  have "r \<in> set L" using assms(2) by (simp add: L_def)
  moreover have "r \<notin> set (drop n L)"
  proof -
    have "set (drop n L) = set (filter (\<lambda>r. fst r \<notin> set (victims d)) (d_routes d))"
      using evict_mset[OF assms(1)] unfolding L_def n_def by (metis mset_eq_setD)
    with assms(3) show ?thesis by simp
  qed
  ultimately have r: "r \<in> set (take n L)" by (metis Un_iff append_take_drop_id set_append)
  have "sorted (map (\<lambda>r. c_last_verified (snd r)) (take n L @ drop n L))"
    unfolding append_take_drop_id L_def by (rule sorted_sort_key)
  then have "\<forall>x \<in> set (take n L). \<forall>y \<in> set (drop n L). c_last_verified (snd x) \<le> c_last_verified (snd y)"
    unfolding map_append sorted_append by simp
  with r k show ?thesis by blast
qed

section \<open>Reachable states\<close>

definition db_inv :: "jiff \<Rightarrow> db \<Rightarrow> bool" where
  "db_inv J d \<longleftrightarrow> keys_distinct (d_routes d) \<and> keys_distinct (d_negative d) \<and> keys_distinct (d_health d) \<and>
     (\<forall>r \<in> set (d_routes d). row_ok J (snd r))"

inductive db_step :: "jiff \<Rightarrow> db \<Rightarrow> db \<Rightarrow> bool" for J where
  step_route: "ts_ok J (r_last_verified e) \<Longrightarrow> ts_ok J (r_ttl e) \<Longrightarrow>
    db_step J d (put_route J fault evict_fault d e)"
| step_expire: "db_step J d (snd (expire_old_routes J fault now d))"
| step_negative: "db_step J d (snd (set_negative J fault now d sp ttl))"
| step_expire_negatives: "db_step J d (snd (expire_negatives J fault now d))"
| step_health: "db_step J d (snd (save_health f1 faults f2 d rows))"
| step_restart: "db_step J d (db_open n (d_routes d) (d_negative d) (d_health d))"

inductive db_reachable :: "jiff \<Rightarrow> db \<Rightarrow> bool" for J where
  db_start: "db_reachable J (db_open n [] [] [])"
| db_next: "db_reachable J d \<Longrightarrow> db_step J d d' \<Longrightarrow> db_reachable J d'"

inductive_simps db_step_simps: "db_step J d d'"

lemma put_route_fields [simp]:
  "d_negative (put_route J f ef d e) = d_negative d" "d_health (put_route J f ef d e) = d_health d"
  "d_max_entries (put_route J f ef d e) = d_max_entries d"
  by (simp_all add: put_route_def set_route_def evict_if_needed_def Let_def split: option.split)

lemma put_route_inv:
  assumes "db_inv J d" "ts_ok J (r_last_verified e)" "ts_ok J (r_ttl e)"
  shows "db_inv J (put_route J f ef d e)"
proof -
  have "row_ok J row" if "route_to_row J e = Some row" for row
  proof -
    from that have "storable J e"
      using assms(2,3) by (auto simp: storable_def route_to_row_def sql_real_def split: option.splits f64.splits)
    with route_to_row_ok that show ?thesis by fastforce
  qed
  with set_route_rows[of J f ef d e] assms(1) set_upsert[of "r_store_path e" _ "d_routes d"] show ?thesis
    by (fastforce simp: db_inv_def)
qed

lemma upsert_health_distinct: "upsert_health fs rows t = Ok t' \<Longrightarrow> keys_distinct t \<Longrightarrow> keys_distinct t'"
  by (induction fs rows t rule: upsert_health.induct) (auto split: option.splits)

lemma db_step_inv: "db_step J d d' \<Longrightarrow> db_inv J d \<Longrightarrow> db_inv J d'"
proof (induction rule: db_step.induct)
  case (step_route e d fault evict_fault)
  then show ?case by (simp add: put_route_inv)
next
  case (step_health d f1 faults f2 rows)
  then show ?case
    by (auto simp: save_health_def db_inv_def split: option.split sum.split dest: upsert_health_distinct)
qed (auto simp: db_inv_def expire_old_routes_def set_negative_def expire_negatives_def db_open_def
    split: option.split)

lemma db_reachable_inv: "db_reachable J d \<Longrightarrow> db_inv J d"
proof (induction rule: db_reachable.induct)
  case (db_start n)
  show ?case by (simp add: db_inv_def db_open_def)
qed (rule db_step_inv)

lemma optional_route_ok: "(\<And>x. r = Some x \<Longrightarrow> row_ok J (snd x)) \<Longrightarrow> \<exists>e. optional_route J r = Ok e"
  using row_to_route_Ok_iff by (cases r) (auto simp: optional_route_def)

lemma collect_results_ok:
  "\<forall>x \<in> set xs. \<exists>y. f x = Ok y \<Longrightarrow> \<exists>ys. collect_results (map f xs) = Ok ys \<and> list_all2 (\<lambda>x y. f x = Ok y) xs ys"
  by (induction xs) fastforce+

text \<open>
  One run of the program on the table that the last one left: writes, each with the failure of its
  statement and of the eviction behind it, on a handle that counts from zero.
\<close>

definition session ::
  "jiff \<Rightarrow> int \<Rightarrow> (sqlx_error option \<times> sqlx_error option \<times> route_entry) list \<Rightarrow> db \<Rightarrow> db" where
  "session J n ws d =
     foldl (\<lambda>d (fault, evict_fault, e). put_route J fault evict_fault d e)
       (db_open n (d_routes d) (d_negative d) (d_health d)) ws"

lemma put_route_keys: "keys_distinct (d_routes d) \<Longrightarrow> keys_distinct (d_routes (put_route J f ef d e))"
  by (auto simp: put_route_def set_route_def evict_if_needed_def Let_def keys_distinct_def
      intro: distinct_map_filter dest: keys_distinct_upsert[unfolded keys_distinct_def] split: option.split)

lemma put_route_length:
  assumes "keys_distinct (d_routes d)" "0 \<le> d_max_entries d" "d_max_entries d \<le> m"
    "int (length (d_routes d)) \<le> m + int (unat (d_write_count d) mod 100)"
    "unat (d_write_count d) < 2 ^ 64 - 1"
  shows "int (length (d_routes (put_route J f None d e)))
      \<le> m + int (unat (d_write_count (put_route J f None d e)) mod 100) \<and>
    unat (d_write_count (put_route J f None d e)) \<le> Suc (unat (d_write_count d))"
proof (cases "f = None \<and> route_to_row J e \<noteq> None")
  case False
  with assms show ?thesis by (auto simp: put_route_def set_route_def split: option.split)
next
  case True
  then obtain row where Some: "f = None" "route_to_row J e = Some row" by blast
  let ?c = "d_write_count d"
  have suc: "unat (?c + 1) = Suc (unat ?c)"
    using assms(5) by (simp add: unat_word_ariths)
  have m: "unat (?c mod 100) = unat ?c mod 100" by (simp add: unat_mod)
  have len: "length (upsert (r_store_path e) row (d_routes d)) \<le> Suc (length (d_routes d))"
    by (rule length_upsert_le)
  show ?thesis
  proof (cases "?c mod 100 = 99")
    case True
    let ?d' = "d\<lparr>d_routes := upsert (r_store_path e) row (d_routes d), d_write_count := ?c + 1\<rparr>"
    have "keys_distinct (d_routes ?d')" using assms(1) by simp
    from evict_length[OF this] assms(2,3) Some True show ?thesis
      by (simp add: put_route_def set_route_def evict_if_needed_def Let_def suc)
  next
    case False
    then have "unat ?c mod 100 \<noteq> 99" using m by (simp add: word_unat_eq_iff)
    then have "Suc (unat ?c) mod 100 = Suc (unat ?c mod 100)" by (simp add: mod_Suc)
    with assms(4) len Some False show ?thesis
      by (simp add: put_route_def set_route_def Let_def suc)
  qed
qed

lemma put_routes_length:
  assumes "keys_distinct (d_routes d)" "0 \<le> d_max_entries d" "d_max_entries d \<le> m"
    "\<forall>(f, ef, e) \<in> set ws. ef = None"
    "int (length (d_routes d)) \<le> m + int (unat (d_write_count d) mod 100)"
    "unat (d_write_count d) + length ws < 2 ^ 64"
  shows "int (length (d_routes (foldl (\<lambda>d (f, ef, e). put_route J f ef d e) d ws))) \<le> m + 99"
  using assms
proof (induction ws arbitrary: d)
  case Nil
  have "unat (d_write_count d) mod 100 < 100" by simp
  with Nil show ?case by simp
next
  case (Cons w ws)
  obtain f e where w: "w = (f, None, e)" using Cons.prems(4) by (cases w) auto
  let ?d = "put_route J f None d e"
  have "unat (d_write_count d) < 2 ^ 64 - 1" using Cons.prems(6) by simp
  from put_route_length[OF Cons.prems(1-3,5) this, of J f e] have
    "int (length (d_routes ?d)) \<le> m + int (unat (d_write_count ?d) mod 100)"
    "unat (d_write_count ?d) + length ws < 2 ^ 64" using Cons.prems(6) by simp_all
  from Cons.IH[OF put_route_keys[OF Cons.prems(1)] _ _ _ this] Cons.prems(2-4) show ?case by (simp add: w)
qed

text \<open>Fewer than a hundred writes on a handle: nothing is evicted.\<close>

lemma few_writes:
  assumes "\<forall>e \<in> set es. storable J e" "distinct (map r_store_path es)"
    "fst ` set (d_routes d) \<inter> r_store_path ` set es = {}" "unat (d_write_count d) + length es \<le> 99"
  shows "length (d_routes (foldl (put_route J None None) d es)) = length (d_routes d) + length es \<and>
    fst ` set (d_routes (foldl (put_route J None None) d es)) = fst ` set (d_routes d) \<union> r_store_path ` set es"
  using assms
proof (induction es arbitrary: d)
  case (Cons e es)
  obtain row where row: "route_to_row J e = Some row" using route_to_row_ok[of J e] Cons.prems(1) by auto
  let ?d = "put_route J None None d e"
  have c: "unat (d_write_count d) < 99" using Cons.prems(4) by simp
  have "unat (d_write_count d mod 100) = unat (d_write_count d) mod 100" by (simp add: unat_mod)
  with c have "d_write_count d mod 100 \<noteq> 99" by (auto simp: word_unat_eq_iff)
  from this have d: "d_routes ?d = upsert (r_store_path e) row (d_routes d)" "d_write_count ?d = d_write_count d + 1"
    using row by (simp_all add: put_route_def set_route_def Let_def)
  moreover have "unat (d_write_count d + 1) = Suc (unat (d_write_count d))" using c by (simp add: unat_word_ariths)
  moreover have "fst ` set (d_routes ?d) = insert (r_store_path e) (fst ` set (d_routes d))"
    by (simp add: d(1) set_keys_upsert)
  ultimately show ?case using Cons.IH[of ?d] Cons.prems by (auto simp: length_upsert)
qed simp

section \<open>Expiry\<close>

lemma find_filter: "find P (filter Q xs) = find (\<lambda>x. Q x \<and> P x) xs"
  by (induction xs) auto

lemma list_ex_filter: "(\<And>x. P x \<Longrightarrow> Q x) \<Longrightarrow> list_ex P (filter Q xs) = list_ex P xs"
  by (induction xs) auto

lemma find_cong_P: "(\<And>x. x \<in> set xs \<Longrightarrow> P x = Q x) \<Longrightarrow> find P xs = find Q xs"
  by (induction xs) auto

lemma expire_rows:
  "d_routes (snd (expire_old_routes J None now d)) = filter (\<lambda>r. \<not> c_ttl (snd r) < as_second J now) (d_routes d)"
  by (simp add: expire_old_routes_def)

lemma expire_get_by_url:
  assumes "as_second J now \<le> as_second J now'"
  shows "get_route_by_nar_url J fault now' (snd (expire_old_routes J None now d)) u
    = get_route_by_nar_url J fault now' d u"
proof -
  have "find (\<lambda>r. c_nar_url (snd r) = u \<and> as_second J now' < c_ttl (snd r))
      (filter (\<lambda>r. \<not> c_ttl (snd r) < as_second J now) (d_routes d))
    = find (\<lambda>r. c_nar_url (snd r) = u \<and> as_second J now' < c_ttl (snd r)) (d_routes d)"
    unfolding find_filter by (rule find_cong_P) (use assms in auto)
  then show ?thesis by (simp only: get_route_by_nar_url_def expire_rows)
qed

lemma expire_list_recent:
  assumes "as_second J now \<le> as_second J now'"
  shows "list_recent_routes J fault now' (snd (expire_old_routes J None now d)) n
    = list_recent_routes J fault now' d n"
proof -
  have "filter (\<lambda>r. as_second J now' < c_ttl (snd r)) (filter (\<lambda>r. \<not> c_ttl (snd r) < as_second J now) (d_routes d))
    = filter (\<lambda>r. as_second J now' < c_ttl (snd r)) (d_routes d)"
    unfolding filter_filter by (rule filter_cong) (use assms in auto)
  then show ?thesis by (simp only: list_recent_routes_def expire_rows)
qed

lemma expire_valid_route:
  assumes "jiff_ok J" "db_inv J d" "now \<le> now'" "fetch_route J d k = Some e" "is_valid now' e"
  shows "fetch_route J (snd (expire_old_routes J None now d)) k = Some e"
proof -
  from assms(4) obtain row where row: "map_of (d_routes d) k = Some row" "row_to_route J (k, row) = Ok e"
    by (auto simp: fetch_route_Some)
  then have "from_second J (c_ttl row) = Some (r_ttl e)"
    by (auto simp: row_to_route_def Let_def ts_of_row_def split: option.splits)
  with assms(1) have "as_second J (r_ttl e) = c_ttl row" by (simp add: jiff_ok_def)
  moreover have "as_second J now \<le> as_second J (r_ttl e)"
    using assms(1,3,5) by (simp add: jiff_ok_def is_valid_def)
  ultimately have "\<not> c_ttl row < as_second J now" by simp
  with row assms(2) show ?thesis
    by (simp add: fetch_route_Some expire_rows map_of_filter_distinct db_inv_def)
qed

section \<open>Properties\<close>

text \<open>
  C21: A stored route comes back: after a write that succeeds and does not evict, a lookup of its
  store path returns the entry, its times cut to whole seconds, its size clamped to an \<open>i64\<close>, and
  every other path returns what it returned before.
\<close>

theorem set_route_get_route:
  assumes "storable J e" "d_write_count d mod 100 \<noteq> 99"
  shows "fetch_route J (snd (set_route J None evict_fault d e)) k =
      (if k = r_store_path e
       then Some (e\<lparr>r_latency_ms := the (sql_real (r_latency_ms e)), r_latency_ema := the (sql_real (r_latency_ema e)),
          r_last_verified := second_of J (r_last_verified e), r_ttl := second_of J (r_ttl e),
          r_nar_size := min (r_nar_size e) (nat i64_max)\<rparr>)
       else fetch_route J d k)"
  using db_store.fetch_put[of J None d e evict_fault k] assms stored_entry_fields[OF assms(1)]
  by (simp add: plain_write_def put_route_def)

definition route_demo :: "string \<Rightarrow> timestamp \<Rightarrow> timestamp \<Rightarrow> route_entry" where
  "route_demo sp now ttl =
     \<lparr>r_store_path = sp, r_upstream_url = ''https://cache'', r_latency_ms = Fin 12, r_latency_ema = Fin 12,
      r_last_verified = now, r_query_count = 1, r_failure_count = 0, r_ttl = ttl, r_nar_hash = ''h'',
      r_nar_size = 7, r_nar_url = ''nar/x'', r_upstream_nar_url = ''/nar/x'', r_narinfo_bytes = None\<rparr>"

lemma route_demo_storable: "0 \<le> now \<Longrightarrow> now \<le> 10 ^ 18 \<Longrightarrow> 0 \<le> ttl \<Longrightarrow> ttl \<le> 10 ^ 18 \<Longrightarrow>
    storable jiff_demo (route_demo sp now ttl)"
proof -
  have "0 \<le> t div 1000000000 \<and> t div 1000000000 \<le> 1000000000" if "0 \<le> t" "t \<le> 10 ^ 18" for t :: int
    using zdiv_mono1[OF that(2), of 1000000000] that(1) by (simp add: pos_imp_zdiv_nonneg_iff)
  from this[of now] this[of ttl] show "0 \<le> now \<Longrightarrow> now \<le> 10 ^ 18 \<Longrightarrow> 0 \<le> ttl \<Longrightarrow> ttl \<le> 10 ^ 18 \<Longrightarrow>
      storable jiff_demo (route_demo sp now ttl)"
    by (simp add: storable_def route_demo_def ts_ok_def jiff_demo_def)
qed

theorem set_route_get_route_witness:
  "map_option r_ttl (fetch_route jiff_demo
     (snd (set_route jiff_demo None None (db_open 10 [] [] []) (route_demo ''h'' 5 3000000007))) ''h'')
   = Some 3000000000"
  using set_route_get_route[OF route_demo_storable[of 5 3000000007 "''h''"], of "db_open 10 [] [] []" None "''h''"]
  by (simp add: db_open_def second_of_def jiff_demo_def route_demo_def)

text \<open>
  C20: The write that evicts leaves at most \<open>max_entries\<close> rows, removes none unless the table is
  over the limit, and every row it removes was verified no later than every row it keeps.
\<close>

theorem eviction_keeps_newest:
  assumes "db_inv J d" "storable J e" "0 \<le> d_max_entries d" "d_write_count d mod 100 = 99"
    and "d' = snd (set_route J None None d e)"
    and "before = upsert (r_store_path e) (the (route_to_row J e)) (d_routes d)"
  shows "int (length (d_routes d')) = min (int (length before)) (d_max_entries d) \<and>
    set (d_routes d') \<subseteq> set before \<and>
    (\<forall>r \<in> set before - set (d_routes d'). \<forall>k \<in> set (d_routes d').
       c_last_verified (snd r) \<le> c_last_verified (snd k))"
proof -
  obtain row where row: "route_to_row J e = Some row" using route_to_row_ok[OF assms(2)] by blast
  let ?d = "d\<lparr>d_routes := before, d_write_count := d_write_count d + 1\<rparr>"
  have kd: "keys_distinct (d_routes ?d)" using assms(1,6) by (simp add: db_inv_def)
  have d': "d_routes d' = filter (\<lambda>r. fst r \<notin> set (victims ?d)) (d_routes ?d)"
    using row assms(4-6) by (simp add: set_route_def evict_if_needed_def Let_def)
  have "int (length (d_routes d')) = min (int (length before)) (d_max_entries d)"
    using evict_length[OF kd] assms(3) by (simp add: d')
  moreover have "set (d_routes d') \<subseteq> set before" by (auto simp: d')
  moreover have "c_last_verified (snd r) \<le> c_last_verified (snd k)"
    if "r \<in> set before - set (d_routes d')" "k \<in> set (d_routes d')" for r k
    using evict_order[OF kd, of r k] that by (auto simp: d')
  ultimately show ?thesis by blast
qed

theorem eviction_keeps_newest_witness:
  "int (length (d_routes (snd (set_route jiff_demo None None
     ((db_open 1 [(''a'', the (route_to_row jiff_demo (route_demo ''a'' 5 9)))] [] [])\<lparr>d_write_count := 99\<rparr>)
     (route_demo ''b'' 7 9))))) = 1"
proof -
  let ?row = "the (route_to_row jiff_demo (route_demo ''a'' 5 9))"
  let ?d = "(db_open 1 [(''a'', ?row)] [] [])\<lparr>d_write_count := 99\<rparr>"
  have "row_ok jiff_demo ?row" using route_to_row_ok[OF route_demo_storable[of 5 9 "''a''"]] by auto
  then have "db_inv jiff_demo ?d" by (simp add: db_inv_def db_open_def keys_distinct_def)
  from eviction_keeps_newest[OF this route_demo_storable[of 7 9 "''b''"] _ _ refl refl] show ?thesis
    by (simp add: db_open_def length_upsert route_demo_def)
qed

text \<open>
  C26: Eviction runs on every hundredth write of a run of the program: during any run of fewer than
  2^64 writes on any reachable table, whichever of them fail as long as no eviction does, the table never holds more than 99 rows above
  its bound, or above what the run found if that was more.
\<close>

theorem route_table_bound:
  assumes "db_reachable J d" "0 \<le> n" "length ws < 2 ^ 64" "\<forall>(fault, evict_fault, e) \<in> set ws. evict_fault = None"
  shows "int (length (d_routes (session J n ws d))) \<le> max (int (length (d_routes d))) n + 99"
  unfolding session_def
  by (rule put_routes_length)
    (use assms db_reachable_inv[OF assms(1)] in \<open>auto simp: db_open_def db_inv_def\<close>)

theorem route_table_bound_witness:
  "int (length (d_routes (session jiff_demo 1 (map (\<lambda>c. (None, None, route_demo c 5 9)) [''a'', ''b'']) (db_open 7 [] [] []))))
     \<le> 1 + 99"
proof -
  have "int (length (d_routes (session jiff_demo 1 (map (\<lambda>c. (None, None, route_demo c 5 9)) [''a'', ''b'']) (db_open 7 [] [] []))))
      \<le> max (int (length (d_routes (db_open 7 [] [] [])))) 1 + 99"
    by (rule route_table_bound[OF db_start]) simp_all
  then show ?thesis by (simp add: db_open_def)
qed

text \<open>Routes of paths not written before, 99 in each run.\<close>

definition batch :: "nat \<Rightarrow> route_entry list" where
  "batch i = map (\<lambda>j. route_demo (replicate (99 * i + j) CHR ''a'') 5 9) [0..<99]"

text \<open>
  C27: The bound does not survive restarts: every start counts the writes from zero, so a program that is
  restarted before its hundredth write never evicts, and after \<open>k\<close> such runs of 99 writes the table holds
  all the \<open>99 k\<close> routes, whatever its bound.
\<close>

theorem restarts_outgrow_bound:
  "length (d_routes (foldl (\<lambda>d i. session jiff_demo n (map (\<lambda>e. (None, None, e)) (batch i)) d) (db_open n [] [] []) [0..<k])) =
     99 * k"
proof -
  let ?d = "\<lambda>k. foldl (\<lambda>d i. session jiff_demo n (map (\<lambda>e. (None, None, e)) (batch i)) d) (db_open n [] [] []) [0..<k]"
  have batch: "\<forall>e \<in> set (batch i). storable jiff_demo e" "distinct (map r_store_path (batch i))"
    "r_store_path ` set (batch i) = (\<lambda>m. replicate m CHR ''a'') ` {99 * i..<99 * i + 99}" "length (batch i) = 99" for i
  proof -
    show "\<forall>e \<in> set (batch i). storable jiff_demo e" by (simp add: batch_def route_demo_storable)
    show "distinct (map r_store_path (batch i))"
      by (simp add: batch_def comp_def route_demo_def distinct_map inj_on_def)
    have "{99 * i..<99 * i + 99} = (+) (99 * i) ` {0..<99}" by (simp add: image_add_atLeastLessThan add.commute)
    then show "r_store_path ` set (batch i) = (\<lambda>m. replicate m CHR ''a'') ` {99 * i..<99 * i + 99}"
      unfolding \<open>{99 * i..<99 * i + 99} = _\<close> image_image by (simp add: batch_def route_demo_def image_image)
    show "length (batch i) = 99" by (simp add: batch_def)
  qed
  have run: "session J n (map (\<lambda>e. (None, None, e)) es) d =
      foldl (put_route J None None) (db_open n (d_routes d) (d_negative d) (d_health d)) es" for J es d
    by (simp add: session_def foldl_map)
  have "length (d_routes (?d k)) = 99 * k \<and> fst ` set (d_routes (?d k)) = (\<lambda>m. replicate m CHR ''a'') ` {0..<99 * k}"
  proof (induction k)
    case (Suc k)
    let ?o = "db_open n (d_routes (?d k)) (d_negative (?d k)) (d_health (?d k))"
    have "fst ` set (d_routes ?o) \<inter> r_store_path ` set (batch k) = {}"
      using Suc by (auto simp: batch(3) db_open_def)
    from few_writes[OF batch(1,2) this] Suc show ?case
      by (auto simp: run batch(3,4) db_open_def image_Un[symmetric] simp del: upt_Suc simp add: upt_Suc_append)
  qed (simp add: db_open_def)
  then show ?thesis by blast
qed

text \<open>
  C17: No stored row is unreadable: in every state that writes of valid timestamps, expiry, negative
  entries, health snapshots and restarts can reach, with any statement failing at any point, the
  lookups that SQLite answers decode, the table has one row per path, and a listing returns at
  most \<open>n\<close> unexpired routes.
\<close>

theorem reachable_rows_decode:
  assumes "db_reachable J d"
  shows "(\<exists>r. get_route J None d sp = Ok r) \<and>
    (\<exists>r. get_route_by_nar_url J None now d u = Ok r) \<and>
    (\<exists>rs. list_recent_routes J None now d n = Ok rs \<and> (0 \<le> n \<longrightarrow> int (length rs) \<le> n) \<and>
       set (map r_store_path rs) \<subseteq> {k. \<exists>row. map_of (d_routes d) k = Some row \<and> as_second J now < c_ttl row})"
proof -
  have inv: "db_inv J d" using assms by (rule db_reachable_inv)
  then have ok: "row_ok J (snd r)" if "r \<in> set (d_routes d)" for r using that by (simp add: db_inv_def)
  have "\<exists>r. get_route J None d sp = Ok r"
    using optional_route_ok[of "map_option (Pair sp) (map_of (d_routes d) sp)" J] ok
    by (fastforce simp: get_route_def dest: map_of_SomeD)
  moreover have "\<exists>r. get_route_by_nar_url J None now d u = Ok r"
  proof -
    have "\<exists>e. optional_route J (find P (d_routes d)) = Ok e" for P
      by (rule optional_route_ok) (auto simp: find_Some_iff intro!: ok)
    then show ?thesis by (simp add: get_route_by_nar_url_def)
  qed
  moreover
  define xs where "xs = sql_limit n (sort_key (\<lambda>r. - c_last_verified (snd r))
      (filter (\<lambda>r. as_second J now < c_ttl (snd r)) (d_routes d)))"
  have sub: "set xs \<subseteq> {r \<in> set (d_routes d). as_second J now < c_ttl (snd r)}"
    by (auto simp: xs_def sql_limit_def dest: in_set_takeD)
  have "\<forall>x \<in> set xs. \<exists>y. row_to_route J x = Ok y"
    using sub ok row_to_route_Ok_iff by (metis (no_types, lifting) mem_Collect_eq prod.collapse subsetD)
  then obtain rs where rs: "collect_results (map (row_to_route J) xs) = Ok rs"
    "list_all2 (\<lambda>x y. row_to_route J x = Ok y) xs rs"
    using collect_results_ok by blast
  have "r_store_path ` set rs \<subseteq> fst ` set xs"
    using rs(2) by (auto simp: list_all2_conv_all_nth in_set_conv_nth image_iff) (metis fst_conv nth_mem row_to_route_key)
  moreover have "length rs = length xs" using rs(2) by (simp add: list_all2_lengthD)
  moreover have "0 \<le> n \<longrightarrow> int (length xs) \<le> n" by (simp add: xs_def sql_limit_def min_def) linarith
  moreover have "fst ` set xs \<subseteq> {k. \<exists>row. map_of (d_routes d) k = Some row \<and> as_second J now < c_ttl row}"
    using sub inv by (force simp: db_inv_def keys_distinct_def)
  ultimately show ?thesis
    using rs(1) by (auto simp: list_recent_routes_def xs_def[symmetric])
qed

theorem reachable_rows_decode_witness:
  "\<exists>r. get_route jiff_demo None
     (put_route jiff_demo None None (db_open 10 [] [] []) (route_demo ''h'' 5 9)) ''h'' = Ok r"
proof -
  have ts: "ts_ok jiff_demo (r_last_verified (route_demo ''h'' 5 9))" "ts_ok jiff_demo (r_ttl (route_demo ''h'' 5 9))"
    by (simp_all add: ts_ok_def jiff_demo_def route_demo_def)
  have "db_reachable jiff_demo (put_route jiff_demo None None (db_open 10 [] [] []) (route_demo ''h'' 5 9))"
    by (rule db_next[OF db_start step_route[OF ts]])
  from reachable_rows_decode[OF this] show ?thesis by blast
qed

text \<open>
  The periodic expiry is invisible: deleting the expired rows at \<open>now\<close> changes no later lookup by
  NAR URL, no later listing, no later negative answer, and loses no route that is still valid.
\<close>

theorem expiry_invisible:
  assumes "jiff_ok J" "db_inv J d" "now \<le> now'"
    and "d' = snd (expire_negatives J None now (snd (expire_old_routes J None now d)))"
  shows "get_route_by_nar_url J fault now' d' u = get_route_by_nar_url J fault now' d u \<and>
    list_recent_routes J fault now' d' n = list_recent_routes J fault now' d n \<and>
    is_negative J fault now' d' sp = is_negative J fault now' d sp \<and>
    (\<forall>e. fetch_route J d sp = Some e \<longrightarrow> is_valid now' e \<longrightarrow> fetch_route J d' sp = Some e)"
proof -
  have le: "as_second J now \<le> as_second J now'" using assms(1,3) by (simp add: jiff_ok_def)
  let ?d = "snd (expire_old_routes J None now d)"
  have same: "d_routes d' = d_routes ?d" by (simp add: assms(4) expire_negatives_def)
  have "is_negative J fault now' d' sp = is_negative J fault now' d sp"
    using list_ex_filter[of "\<lambda>r. fst r = sp \<and> as_second J now' < snd r"
        "\<lambda>r. \<not> snd r < as_second J now" "d_negative d"] le
    by (cases fault) (simp_all add: assms(4) is_negative_def expire_negatives_def expire_old_routes_def)
  moreover have "get_route_by_nar_url J fault now' d' u = get_route_by_nar_url J fault now' ?d u"
    "list_recent_routes J fault now' d' n = list_recent_routes J fault now' ?d n"
    "fetch_route J d' sp = fetch_route J ?d sp"
    by (simp_all only: get_route_by_nar_url_def list_recent_routes_def fetch_route_def get_route_def same)
  ultimately show ?thesis
    using expire_get_by_url[OF le] expire_list_recent[OF le] expire_valid_route[OF assms(1-3)] by simp
qed

theorem expiry_invisible_witness:
  "is_negative jiff_demo None 7000000000 (snd (expire_negatives jiff_demo None 5000000000
      (snd (expire_old_routes jiff_demo None 5000000000 (db_open 1 [] [(''h'', 9)] []))))) ''h'' = Ok True"
proof -
  have "db_inv jiff_demo (db_open 1 [] [(''h'', 9)] [])" by (simp add: db_inv_def db_open_def keys_distinct_def)
  from expiry_invisible[OF jiff_demo_ok this _ refl, of 5000000000 7000000000 None "[]" 0 "''h''"]
  have "is_negative jiff_demo None 7000000000 (snd (expire_negatives jiff_demo None 5000000000
      (snd (expire_old_routes jiff_demo None 5000000000 (db_open 1 [] [(''h'', 9)] []))))) ''h''
    = is_negative jiff_demo None 7000000000 (db_open 1 [] [(''h'', 9)] []) ''h''" by simp
  also have "... = Ok True" by (simp add: is_negative_def db_open_def jiff_demo_def)
  finally show ?thesis .
qed

lemma upsert_health_ok:
  assumes "\<forall>r \<in> set rows. hr_ema r \<noteq> NaN"
  shows "\<exists>t'. upsert_health [] rows t = Ok t' \<and>
    map_of t' = map_of t ++ map_of (map (\<lambda>r. (hr_url r, the (sql_real (hr_ema r)), hr_fails r, hr_queries r)) (rev rows))"
  using assms
proof (induction rows arbitrary: t)
  case (Cons r rows)
  then obtain ema where ema: "sql_real (hr_ema r) = Some ema" using sql_real_Some by force
  from Cons obtain t' where "upsert_health [] rows (upsert (hr_url r) (ema, hr_fails r, hr_queries r) t) = Ok t'"
    "map_of t' = map_of (upsert (hr_url r) (ema, hr_fails r, hr_queries r) t)
       ++ map_of (map (\<lambda>r. (hr_url r, the (sql_real (hr_ema r)), hr_fails r, hr_queries r)) (rev rows))"
    by force
  with ema show ?case by (simp add: map_of_upsert map_add_upd_left map_of_append)
qed simp

text \<open>
  A health snapshot is atomic: whatever fails, the rows are all saved or none is; with no
  failure the snapshot reads back, the last row of a URL winning and the other URLs unchanged.
\<close>

theorem health_snapshot_atomic:
  "(fst (save_health f1 faults f2 d rows) \<noteq> Ok () \<longrightarrow> snd (save_health f1 faults f2 d rows) = d) \<and>
   ((\<forall>r \<in> set rows. hr_ema r \<noteq> NaN) \<longrightarrow> keys_distinct (d_health d) \<longrightarrow>
     (\<exists>hs. load_all_health None (snd (save_health None [] None d rows)) = Ok hs \<and> distinct (map hr_url hs) \<and>
       map_of (map (\<lambda>h. (hr_url h, (hr_ema h, hr_fails h, hr_queries h))) hs) =
         map_of (d_health d) ++ map_of (map (\<lambda>r. (hr_url r, the (sql_real (hr_ema r)), hr_fails r, hr_queries r)) (rev rows))))"
proof (intro conjI impI)
  assume "fst (save_health f1 faults f2 d rows) \<noteq> Ok ()"
  then show "snd (save_health f1 faults f2 d rows) = d"
    by (auto simp: save_health_def split: option.splits sum.splits if_splits)
next
  assume nan: "\<forall>r \<in> set rows. hr_ema r \<noteq> NaN" and kd: "keys_distinct (d_health d)"
  from upsert_health_ok[OF nan, of "d_health d"] obtain t where t: "upsert_health [] rows (d_health d) = Ok t"
    "map_of t = map_of (d_health d) ++ map_of (map (\<lambda>r. (hr_url r, the (sql_real (hr_ema r)), hr_fails r, hr_queries r)) (rev rows))"
    by blast
  have tab: "d_health (snd (save_health None [] None d rows)) = t"
    using t(1) by (auto simp: save_health_def)
  let ?f = "\<lambda>(url, ema, fails, queries).
      \<lparr>hr_url = url, hr_ema = ema, hr_fails = fails, hr_queries = queries\<rparr>"
  have "map hr_url (map ?f t) = map fst t" unfolding map_map by (rule map_cong) auto
  then have "distinct (map hr_url (map ?f t))"
    using upsert_health_distinct[OF t(1) kd] unfolding keys_distinct_def by (simp only:)
  moreover have "map (\<lambda>h. (hr_url h, (hr_ema h, hr_fails h, hr_queries h))) (map ?f t) = t"
    unfolding map_map by (rule map_idI) auto
  moreover have "load_all_health None (snd (save_health None [] None d rows)) = Ok (map ?f t)"
    by (simp add: load_all_health_def tab)
  ultimately show "\<exists>hs. load_all_health None (snd (save_health None [] None d rows)) = Ok hs \<and> distinct (map hr_url hs) \<and>
       map_of (map (\<lambda>h. (hr_url h, (hr_ema h, hr_fails h, hr_queries h))) hs) =
         map_of (d_health d) ++ map_of (map (\<lambda>r. (hr_url r, the (sql_real (hr_ema r)), hr_fails r, hr_queries r)) (rev rows))"
    using t(2) by (metis (no_types, lifting))
qed

theorem health_snapshot_atomic_witness:
  "load_all_health None (snd (save_health None [] None (db_open 1 [] [] [])
     [\<lparr>hr_url = ''u'', hr_ema = Fin 3, hr_fails = 1, hr_queries = 2\<rparr>])) \<noteq> Err (Sqlx ''busy'') \<and>
   snd (save_health (Some ''busy'') [] None (db_open 1 [] [] []) [\<lparr>hr_url = ''u'', hr_ema = Fin 3, hr_fails = 1, hr_queries = 2\<rparr>])
     = db_open 1 [] [] []"
  using health_snapshot_atomic[of "Some ''busy''" "[]" None "db_open 1 [] [] []"
      "[\<lparr>hr_url = ''u'', hr_ema = Fin 3, hr_fails = 1, hr_queries = 2\<rparr>]"]
  by (auto simp: save_health_def db_open_def)

section \<open>The migration\<close>

definition full_schema :: schema where
  "full_schema =
     [(''routes'', routes_columns @ [''narinfo_bytes'', ''upstream_nar_url'']),
      (''upstream_health'', health_columns), (''negative_cache'', negative_columns)]"

lemma migrate_fresh: "migrate {} [] = Ok full_schema"
  by (simp add: migrate_def full_schema_def create_table_if_missing_def create_index_if_missing_def
      add_column_if_missing_def routes_columns_def health_columns_def negative_columns_def)

text \<open>A database of the first version has neither the narinfo bytes nor the upstream's own path.\<close>

lemma migrate_first_version:
  "migrate {} [(''routes'', routes_columns), (''upstream_health'', health_columns), (''negative_cache'', negative_columns)]
    = Ok full_schema"
  by (simp add: migrate_def full_schema_def create_table_if_missing_def create_index_if_missing_def
      add_column_if_missing_def routes_columns_def health_columns_def negative_columns_def)

lemma migrate_idem: "migrate idx full_schema = Ok full_schema"
  by (simp add: migrate_def full_schema_def create_table_if_missing_def create_index_if_missing_def
      add_column_if_missing_def routes_columns_def health_columns_def negative_columns_def)

end
