(* ===== verification/TtlCache.thy ===== *)
theory TtlCache
  imports Prelude
begin

text \<open>
  The in-memory cache of the router (\<open>TtlCache\<close>: a bounded LRU whose entries expire a fixed
  time after their insertion), and the contract its clients rest on, the locale
  \<open>expiring_cache\<close>, interpreted by the cache. The entries are kept most recently used first,
  the order of \<open>lru::LruCache\<close>.
\<close>

record 'v ttl_cache =
  t_entries :: "(string \<times> instant \<times> 'v) list"
  t_capacity :: nat
  t_ttl :: duration

definition cache_new :: "nat \<Rightarrow> duration \<Rightarrow> 'v ttl_cache" where
  "cache_new capacity ttl = \<lparr>t_entries = [], t_capacity = max capacity 1, t_ttl = ttl\<rparr>"

text \<open>\<open>LruCache::get\<close> moves a present entry to the front; \<open>Instant::elapsed\<close> saturates at zero.\<close>

definition cache_get :: "instant \<Rightarrow> string \<Rightarrow> 'v ttl_cache \<Rightarrow> 'v option \<times> 'v ttl_cache" where
  "cache_get now key c =
     (case map_of (t_entries c) key of
        None \<Rightarrow> (None, c)
      | Some (inserted, v) \<Rightarrow>
          let rest = remove_key key (t_entries c) in
          if now - inserted < t_ttl c then (Some v, c\<lparr>t_entries := (key, inserted, v) # rest\<rparr>)
          else (None, c\<lparr>t_entries := rest\<rparr>))"

definition pop_lru :: "'v ttl_cache \<Rightarrow> 'v ttl_cache" where
  "pop_lru c = c\<lparr>t_entries := butlast (t_entries c)\<rparr>"

definition cache_insert :: "instant \<Rightarrow> string \<Rightarrow> 'v \<Rightarrow> 'v ttl_cache \<Rightarrow> 'v ttl_cache" where
  "cache_insert now key v c =
     (let c' = c\<lparr>t_entries := (key, now, v) # remove_key key (t_entries c)\<rparr> in
      if t_capacity c' < length (t_entries c') then pop_lru c' else c')"

definition cache_invalidate :: "string \<Rightarrow> 'v ttl_cache \<Rightarrow> 'v ttl_cache" where
  "cache_invalidate key c = c\<lparr>t_entries := remove_key key (t_entries c)\<rparr>"

section \<open>The contract of an expiring cache\<close>

datatype 'v cache_op = OpGet instant string | OpInsert instant string 'v | OpInvalidate string

fun op_time :: "'v cache_op \<Rightarrow> instant" where
  "op_time (OpGet t _) = t"
| "op_time (OpInsert t _ _) = t"
| "op_time (OpInvalidate _) = 0"

locale expiring_cache =
  fixes inv :: "'c \<Rightarrow> bool"
    and lookup :: "instant \<Rightarrow> string \<Rightarrow> 'c \<Rightarrow> 'v option \<times> 'c"
    and ins :: "instant \<Rightarrow> string \<Rightarrow> 'v \<Rightarrow> 'c \<Rightarrow> 'c"
    and invalidate :: "string \<Rightarrow> 'c \<Rightarrow> 'c"
    and lifetime :: duration
  assumes inv_lookup: "inv c \<Longrightarrow> inv (snd (lookup t k c))"
    and inv_ins: "inv c \<Longrightarrow> inv (ins t k v c)"
    and inv_invalidate: "inv c \<Longrightarrow> inv (invalidate k c)"
    and lookup_ins: "inv c \<Longrightarrow> fst (lookup t' k (ins t k v c)) = (if t' - t < lifetime then Some v else None)"
    and lookup_ins_other: "inv c \<Longrightarrow> k \<noteq> k' \<Longrightarrow> fst (lookup t' k (ins t k' v c)) = Some w \<Longrightarrow>
      fst (lookup t' k c) = Some w"
    and lookup_lookup: "inv c \<Longrightarrow> t \<le> t' \<Longrightarrow> fst (lookup t' k (snd (lookup t k' c))) = fst (lookup t' k c)"
    and lookup_invalidate: "inv c \<Longrightarrow> fst (lookup t k (invalidate k' c)) = (if k = k' then None else fst (lookup t k c))"
begin

definition apply_op :: "'v cache_op \<Rightarrow> 'c \<Rightarrow> 'c" where
  "apply_op oper c = (case oper of
      OpGet t k \<Rightarrow> snd (lookup t k c)
    | OpInsert t k v \<Rightarrow> ins t k v c
    | OpInvalidate k \<Rightarrow> invalidate k c)"

definition run :: "'v cache_op list \<Rightarrow> 'c \<Rightarrow> 'c" where
  "run ops c = foldl (\<lambda>c oper. apply_op oper c) c ops"

lemma run_snoc: "run (ops @ [oper]) c = apply_op oper (run ops c)"
  by (simp add: run_def)

lemma inv_run: "inv c \<Longrightarrow> inv (run ops c)"
proof (induction ops rule: rev_induct)
  case (snoc oper ops)
  then show ?case
    by (cases oper) (auto simp: run_snoc apply_op_def inv_lookup inv_ins inv_invalidate)
qed (simp add: run_def)

text \<open>Whatever is served was inserted for this very key, recently, and not invalidated since.\<close>

lemma served_was_inserted:
  assumes "inv c" "\<forall>t k. fst (lookup t k c) = None"
    and "\<forall>oper \<in> set ops. op_time oper \<le> now" "fst (lookup now k (run ops c)) = Some v"
  shows "\<exists>t before after. ops = before @ OpInsert t k v # after \<and> now - t < lifetime \<and>
    OpInvalidate k \<notin> set after \<and> (\<forall>t' w. OpInsert t' k w \<notin> set after)"
  using assms(3,4)
proof (induction ops rule: rev_induct)
  case Nil
  with assms(2) show ?case by (simp add: run_def)
next
  case (snoc oper ops)
  have i: "inv (run ops c)" using assms(1) by (rule inv_run)
  have extend: ?case if "fst (lookup now k (run ops c)) = Some v"
    "oper \<noteq> OpInvalidate k" "\<And>t' w. oper \<noteq> OpInsert t' k w"
  proof -
    from snoc.IH snoc.prems(1) that(1) obtain t before after where
      "ops = before @ OpInsert t k v # after" "now - t < lifetime"
      "OpInvalidate k \<notin> set after" "\<forall>t' w. OpInsert t' k w \<notin> set after" by auto
    with that(2,3) show ?thesis
      by (intro exI [of _ t] exI [of _ before] exI [of _ "after @ [oper]"]) auto
  qed
  show ?case
  proof (cases oper)
    case (OpGet t k')
    with snoc.prems show ?thesis
      by (intro extend) (auto simp: run_snoc apply_op_def lookup_lookup[OF i])
  next
    case (OpInsert t k' w)
    show ?thesis
    proof (cases "k' = k")
      case True
      with OpInsert snoc.prems(2) have "w = v" "now - t < lifetime"
        by (auto simp: run_snoc apply_op_def lookup_ins[OF i] split: if_splits)
      with True OpInsert show ?thesis by force
    next
      case False
      with OpInsert snoc.prems(2) show ?thesis
        by (intro extend) (auto simp: run_snoc apply_op_def dest: lookup_ins_other[OF i, rotated])
    qed
  next
    case (OpInvalidate k')
    with snoc.prems show ?thesis
      by (intro extend) (auto simp: run_snoc apply_op_def lookup_invalidate[OF i] split: if_splits)
  qed
qed

end

section \<open>The cache meets the contract\<close>

definition cache_inv :: "duration \<Rightarrow> 'v ttl_cache \<Rightarrow> bool" where
  "cache_inv ttl c \<longleftrightarrow> keys_distinct (t_entries c) \<and> t_ttl c = ttl \<and> 0 < t_capacity c \<and>
     length (t_entries c) \<le> t_capacity c"

definition live :: "duration \<Rightarrow> instant \<Rightarrow> instant \<times> 'v \<Rightarrow> bool" where
  "live ttl now e \<longleftrightarrow> now - fst e < ttl"

lemma cache_get_fst:
  "fst (cache_get now k c) =
     (case map_of (t_entries c) k of None \<Rightarrow> None | Some e \<Rightarrow> if live (t_ttl c) now e then Some (snd e) else None)"
  by (auto simp: cache_get_def live_def Let_def split: option.split)

lemma length_remove_key: "length (remove_key k t) \<le> length t"
  by (simp add: remove_key_def)

lemma length_remove_key_less: "map_of t k = Some v \<Longrightarrow> length (remove_key k t) < length t"
  unfolding remove_key_def
proof (induction t)
  case (Cons r t)
  then show ?case by (cases r) (auto simp: le_imp_less_Suc split: if_splits)
qed simp

lemma remove_key_notin: "k \<notin> fst ` set (remove_key k t)"
  by (auto simp: remove_key_def)

lemma keys_distinct_Cons: "keys_distinct ((k, v) # t) \<longleftrightarrow> k \<notin> fst ` set t \<and> keys_distinct t"
  by (auto simp: keys_distinct_def)

lemma keys_distinct_butlast: "keys_distinct t \<Longrightarrow> keys_distinct (butlast t)"
  unfolding keys_distinct_def by (simp add: map_butlast distinct_butlast)

lemma map_of_butlast: "keys_distinct t \<Longrightarrow> map_of (butlast t) k = Some v \<Longrightarrow> map_of t k = Some v"
  unfolding keys_distinct_def
  by (metis distinct_butlast in_set_butlastD map_butlast map_of_SomeD map_of_is_SomeI)

lemma cache_get_entries:
  "cache_inv ttl c \<Longrightarrow> map_of (t_entries (snd (cache_get t k c))) k' =
     (case map_of (t_entries c) k' of
        None \<Rightarrow> None
      | Some e \<Rightarrow> if k' = k \<and> \<not> live ttl t e then None else Some e)"
  by (auto simp: cache_get_def cache_inv_def live_def Let_def map_of_remove_key split: option.split)

lemma cache_insert_entries:
  assumes "cache_inv ttl c"
  shows "map_of (t_entries (cache_insert t k v c)) k' = Some e \<Longrightarrow>
      (if k' = k then e = (t, v) else map_of (t_entries c) k' = Some e)"
    and "map_of (t_entries (cache_insert t k v c)) k = Some (t, v)"
proof -
  let ?new = "(k, t, v) # remove_key k (t_entries c)"
  have kd: "keys_distinct ?new" using assms by (auto simp: cache_inv_def keys_distinct_Cons remove_key_notin)
  assume "map_of (t_entries (cache_insert t k v c)) k' = Some e"
  moreover have "t_entries (cache_insert t k v c) = ?new \<or> t_entries (cache_insert t k v c) = butlast ?new"
    by (simp add: cache_insert_def pop_lru_def Let_def)
  ultimately have "map_of ?new k' = Some e \<or> map_of (butlast ?new) k' = Some e" by metis
  then have "map_of ?new k' = Some e" using map_of_butlast[OF kd] by blast
  then show "if k' = k then e = (t, v) else map_of (t_entries c) k' = Some e"
    by (auto simp: map_of_remove_key split: if_splits)
next
  show "map_of (t_entries (cache_insert t k v c)) k = Some (t, v)"
    using assms by (auto simp: cache_insert_def pop_lru_def cache_inv_def Let_def)
qed

lemma cache_inv_get: "cache_inv ttl c \<Longrightarrow> cache_inv ttl (snd (cache_get t k c))"
  using length_remove_key_less[of "t_entries c" k] length_remove_key[of k "t_entries c"]
  by (auto simp: cache_get_def cache_inv_def Let_def keys_distinct_Cons remove_key_notin split: option.split)

lemma cache_inv_insert:
  assumes "cache_inv ttl c"
  shows "cache_inv ttl (cache_insert t k v c)"
proof -
  let ?new = "(k, t, v) # remove_key k (t_entries c)"
  have "keys_distinct ?new" using assms by (auto simp: cache_inv_def keys_distinct_Cons remove_key_notin)
  then have "keys_distinct ?new" "keys_distinct (butlast ?new)" by (auto intro: keys_distinct_butlast simp del: butlast.simps)
  with assms show ?thesis
    using length_remove_key[of k "t_entries c"]
    by (simp add: cache_insert_def pop_lru_def cache_inv_def Let_def del: butlast.simps)
qed

interpretation lru: expiring_cache "cache_inv ttl" cache_get cache_insert cache_invalidate ttl
  for ttl
proof unfold_locales
  fix c :: "'a ttl_cache" and k k' t t' v w
  assume i: "cache_inv ttl c"
  show "cache_inv ttl (snd (cache_get t k c))" using i by (rule cache_inv_get)
  show i': "cache_inv ttl (cache_insert t k v c)" using i by (rule cache_inv_insert)
  show "cache_inv ttl (cache_invalidate k c)"
    using i length_remove_key[of k "t_entries c"] by (auto simp: cache_invalidate_def cache_inv_def)
  have ttl: "t_ttl c = ttl" "t_ttl (cache_insert t k v c) = ttl" for k v
    using i cache_inv_insert[OF i] by (auto simp: cache_inv_def)
  show "fst (cache_get t' k (cache_insert t k v c)) = (if t' - t < ttl then Some v else None)"
    using cache_insert_entries(2)[OF i, of t k v] ttl by (simp add: cache_get_fst live_def)
  show "fst (cache_get t' k c) = Some w"
    if "k \<noteq> k'" "fst (cache_get t' k (cache_insert t k' v c)) = Some w"
    using that cache_insert_entries(1)[OF i, of t k' v k] ttl
    by (auto simp: cache_get_fst split: option.splits if_splits)
  show "fst (cache_get t' k (snd (cache_get t k' c))) = fst (cache_get t' k c)" if "t \<le> t'"
  proof -
    have "t_ttl (snd (cache_get t k' c)) = ttl" using cache_inv_get[OF i] by (auto simp: cache_inv_def)
    with that ttl show ?thesis
      by (auto simp: cache_get_fst cache_get_entries[OF i] live_def split: option.split)
  qed
  show "fst (cache_get t k (cache_invalidate k' c)) = (if k = k' then None else fst (cache_get t k c))"
    by (simp add: cache_get_fst cache_invalidate_def map_of_remove_key split: option.split)
qed

section \<open>Survival\<close>

text \<open>The entry of a key before which only keys of \<open>K\<close> were used more recently.\<close>

definition near :: "string set \<Rightarrow> string \<Rightarrow> instant \<times> 'v \<Rightarrow> 'v ttl_cache \<Rightarrow> bool" where
  "near K k e c \<longleftrightarrow> (\<exists>xs ys. t_entries c = xs @ (k, e) # ys \<and> k \<notin> fst ` set xs \<and> fst ` set xs \<subseteq> K)"

lemma nearI: "t_entries c = xs @ (k, e) # ys \<Longrightarrow> k \<notin> fst ` set xs \<Longrightarrow> fst ` set xs \<subseteq> K \<Longrightarrow> near K k e c"
  by (auto simp: near_def)

lemma cache_fields [simp]:
  "t_capacity (snd (cache_get t k c)) = t_capacity c" "t_capacity (cache_insert t k v c) = t_capacity c"
  "t_capacity (cache_invalidate k c) = t_capacity c" "t_ttl (snd (cache_get t k c)) = t_ttl c"
  by (auto simp: cache_get_def cache_insert_def pop_lru_def cache_invalidate_def Let_def split: option.split)

lemma near_found: "near K k e c \<Longrightarrow> map_of (t_entries c) k = Some e"
  by (auto simp: near_def map_add_def map_of_append split: option.split dest: map_of_SomeD)
    (metis fst_conv image_eqI map_of_SomeD)

lemma near_mono: "near K k e c \<Longrightarrow> K \<subseteq> K' \<Longrightarrow> near K' k e c"
  unfolding near_def by (meson subset_trans)

lemma near_remove:
  assumes "near K k e c" "k \<noteq> k'"
  obtains xs ys where "remove_key k' (t_entries c) = xs @ (k, e) # ys" "k \<notin> fst ` set xs" "fst ` set xs \<subseteq> K - {k'}"
proof -
  obtain xs ys where "t_entries c = xs @ (k, e) # ys" "k \<notin> fst ` set xs" "fst ` set xs \<subseteq> K"
    using assms(1) by (auto simp: near_def)
  then show ?thesis using assms(2) by (intro that[of "remove_key k' xs" "remove_key k' ys"]) (auto simp: remove_key_def)
qed

lemma near_get:
  assumes "near K k e c" "k \<noteq> k' \<or> live (t_ttl c) t e"
  shows "near (insert k' K) k e (snd (cache_get t k' c))"
proof (cases "k' = k")
  case True
  obtain i v where "e = (i, v)" by (cases e)
  with True assms near_found[OF assms(1)]
  have "t_entries (snd (cache_get t k' c)) = [] @ (k, e) # remove_key k (t_entries c)"
    by (simp add: cache_get_def live_def Let_def)
  then show ?thesis by (rule nearI) simp_all
next
  case False
  then have "k \<noteq> k'" by simp
  from near_remove[OF assms(1) this] obtain xs ys where
    r: "remove_key k' (t_entries c) = xs @ (k, e) # ys" "k \<notin> fst ` set xs" "fst ` set xs \<subseteq> K - {k'}" .
  show ?thesis
  proof (cases "map_of (t_entries c) k'")
    case None
    with near_mono[OF assms(1)] show ?thesis by (simp add: cache_get_def subset_insertI)
  next
    case (Some iv)
    then obtain i v where iv: "iv = (i, v)" by (cases iv)
    have "near (insert k' K) k e (c\<lparr>t_entries := (k', i, v) # remove_key k' (t_entries c)\<rparr>)"
      using r False by (intro nearI [of _ "(k', i, v) # xs"]) (simp_all, blast)
    moreover have "near (insert k' K) k e (c\<lparr>t_entries := remove_key k' (t_entries c)\<rparr>)"
      using r by (intro nearI [of _ xs]) (simp_all, blast)
    ultimately show ?thesis using Some iv by (simp add: cache_get_def Let_def)
  qed
qed

lemma near_insert:
  assumes "near K k e c" "k \<noteq> k'" "finite K" "card (insert k' K) < t_capacity c" "keys_distinct (t_entries c)"
  shows "near (insert k' K) k e (cache_insert t k' v c)"
proof -
  obtain xs ys where r: "remove_key k' (t_entries c) = xs @ (k, e) # ys" "k \<notin> fst ` set xs" "fst ` set xs \<subseteq> K - {k'}"
    using near_remove[OF assms(1,2)] .
  let ?new = "((k', t, v) # xs) @ (k, e) # ys"
  have new: "(k', t, v) # remove_key k' (t_entries c) = ?new" using r by simp
  have "distinct (map fst (remove_key k' (t_entries c)))"
    using assms(5) unfolding keys_distinct_def remove_key_def by (rule distinct_map_filter)
  then have "length xs = card (fst ` set xs)"
    unfolding r(1) by (metis distinct_card distinct_append length_map list.set_map map_append)
  also have "\<dots> \<le> card (K - {k'})" using r(3) assms(3) by (intro card_mono) simp_all
  finally have len: "Suc (length xs) < t_capacity c" using assms(3,4) by (simp add: card.insert_remove)
  have keep: "near (insert k' K) k e (c\<lparr>t_entries := ?new\<rparr>)"
    using r assms(2) by (intro nearI [of _ "(k', t, v) # xs"]) (simp_all, blast)
  show ?thesis
  proof (cases "t_capacity c < length ?new")
    case False
    with keep show ?thesis by (simp add: cache_insert_def Let_def r)
  next
    case True
    then have "ys \<noteq> []" using len by auto
    then have "butlast ?new = ((k', t, v) # xs) @ (k, e) # butlast ys" by (simp add: butlast_append)
    with r assms(2) have "near (insert k' K) k e (c\<lparr>t_entries := butlast ?new\<rparr>)"
      by (intro nearI [of _ "(k', t, v) # xs"]) (simp_all, blast)
    with True show ?thesis by (simp add: cache_insert_def pop_lru_def Let_def r)
  qed
qed

lemma near_fresh:
  assumes "cache_inv ttl c"
  shows "near {} k (t, v) (cache_insert t k v c)"
proof -
  have "t_capacity c < Suc (length xs) \<Longrightarrow> xs \<noteq> []" for xs :: "(string \<times> instant \<times> 'a) list"
    using assms by (auto simp: cache_inv_def)
  then have "\<exists>ys. t_entries (cache_insert t k v c) = [] @ (k, t, v) # ys"
    by (simp add: cache_insert_def pop_lru_def Let_def)
  then show ?thesis by (elim exE) (rule nearI, simp_all)
qed

lemma near_invalidate: "near K k e c \<Longrightarrow> k \<noteq> k' \<Longrightarrow> near K k e (cache_invalidate k' c)"
  by (erule (1) near_remove) (auto simp: near_def cache_invalidate_def)

text \<open>The key an operation removes or replaces.\<close>

fun op_overwrites :: "'v cache_op \<Rightarrow> string \<Rightarrow> bool" where
  "op_overwrites (OpGet _ _) k = False"
| "op_overwrites (OpInsert _ k' _) k = (k' = k)"
| "op_overwrites (OpInvalidate k') k = (k' = k)"

definition cache_run :: "'v cache_op list \<Rightarrow> 'v ttl_cache \<Rightarrow> 'v ttl_cache" where
  "cache_run ops c = foldl (\<lambda>c oper. case oper of
      OpGet t k \<Rightarrow> snd (cache_get t k c)
    | OpInsert t k v \<Rightarrow> cache_insert t k v c
    | OpInvalidate k \<Rightarrow> cache_invalidate k c) c ops"

lemma cache_run_snoc: "cache_run (ops @ [oper]) c = (case oper of
      OpGet t k \<Rightarrow> snd (cache_get t k (cache_run ops c))
    | OpInsert t k v \<Rightarrow> cache_insert t k v (cache_run ops c)
    | OpInvalidate k \<Rightarrow> cache_invalidate k (cache_run ops c))"
  by (cases oper) (simp_all add: cache_run_def)

lemma cache_run_capacity [simp]: "t_capacity (cache_run ops c) = t_capacity c"
  by (induction ops rule: rev_induct) (simp_all add: cache_run_snoc cache_run_def[of "[]"] split: cache_op.split)

lemma cache_run_eq: "cache_run ops c = lru.run ops c"
  by (simp add: cache_run_def lru.run_def lru.apply_op_def)

lemma cache_run_inv: "cache_inv ttl c \<Longrightarrow> cache_inv ttl (cache_run ops c)"
  by (simp add: cache_run_eq lru.inv_run)

text \<open>The key an operation moves to the front.\<close>

fun op_uses :: "'v cache_op \<Rightarrow> string set" where
  "op_uses (OpGet _ k) = {k}"
| "op_uses (OpInsert _ k _) = {k}"
| "op_uses (OpInvalidate _) = {}"

definition used :: "'v cache_op list \<Rightarrow> string set" where
  "used ops = (\<Union>oper \<in> set ops. op_uses oper)"

lemma op_uses_finite: "finite (op_uses oper)"
  by (cases oper) simp_all

lemma used_simps [simp]: "used [] = {}" "used (ops @ [oper]) = op_uses oper \<union> used ops" "finite (used ops)"
  by (auto simp: used_def op_uses_finite)

lemma near_other: "near K k e c \<Longrightarrow> near (K - {k}) k e c"
  unfolding near_def subset_Diff_insert Diff_empty by blast

lemma near_run:
  assumes "cache_inv ttl c" "near {} k (i, v) c" "card (used ops - {k}) < t_capacity c"
    "\<forall>oper \<in> set ops. \<not> op_overwrites oper k \<and> op_time oper - i < ttl"
  shows "near (used ops - {k}) k (i, v) (cache_run ops c)"
  using assms(3,4)
proof (induction ops rule: rev_induct)
  case Nil
  with assms(2) show ?case by (simp add: cache_run_def)
next
  case (snoc oper ops)
  let ?c = "cache_run ops c" and ?K = "used ops - {k}"
  have "card ?K \<le> card (used (ops @ [oper]) - {k})" by (rule card_mono) (auto simp: op_uses_finite)
  with snoc have IH: "near ?K k (i, v) ?c" by auto
  have inv: "t_ttl ?c = ttl" "keys_distinct (t_entries ?c)"
    using cache_run_inv[OF assms(1), of ops] by (simp_all add: cache_inv_def)
  show ?case
  proof (cases oper)
    case (OpGet t k')
    with snoc.prems near_other[OF near_get[OF IH, of k' t]] inv(1) show ?thesis
      by (auto simp: cache_run_snoc live_def insert_Diff_if)
  next
    case (OpInsert t k' w)
    with snoc.prems have k': "k \<noteq> k'" by auto
    with OpInsert snoc.prems have "card (insert k' ?K) < t_capacity ?c" by (simp add: insert_Diff_if)
    from near_insert[OF IH k' _ this inv(2), of t w] OpInsert k' show ?thesis
      by (simp add: cache_run_snoc insert_Diff_if)
  next
    case (OpInvalidate k')
    with snoc.prems have "k \<noteq> k'" by auto
    with OpInvalidate near_invalidate[OF IH, of k'] show ?thesis by (simp add: cache_run_snoc)
  qed
qed

lemma cache_new_inv: "cache_inv ttl (cache_new capacity ttl)"
  by (simp add: cache_new_def cache_inv_def)

section \<open>Properties\<close>

text \<open>
  C14: The cache never serves anything stale or foreign: after any operations on a new cache, a value
  returned for a key was inserted for that key less than the lifetime ago and neither replaced
  nor invalidated since; and the cache never holds more than its capacity (at least 1) entries.
\<close>

theorem cache_serves_fresh:
  assumes "\<forall>oper \<in> set ops. op_time oper \<le> now"
    and "fst (cache_get now k (cache_run ops (cache_new capacity ttl))) = Some v"
  shows "(\<exists>t before after. ops = before @ OpInsert t k v # after \<and> now - t < ttl \<and>
      (\<forall>oper \<in> set after. \<not> op_overwrites oper k)) \<and>
    length (t_entries (cache_run ops (cache_new capacity ttl))) \<le> max capacity 1"
proof -
  have "fst (cache_get t k (cache_new capacity ttl)) = None" for t k
    by (simp add: cache_get_def cache_new_def)
  then obtain t before after where "ops = before @ OpInsert t k v # after" "now - t < ttl"
    "OpInvalidate k \<notin> set after" "\<forall>t' w. OpInsert t' k w \<notin> set after"
    using lru.served_was_inserted[OF cache_new_inv _ assms(1)] assms(2) by (metis cache_run_eq)
  moreover have "\<not> op_overwrites oper k" if "oper \<in> set after" for oper
    by (insert that calculation(3,4), cases oper) auto
  moreover have "length (t_entries (cache_run ops (cache_new capacity ttl))) \<le> max capacity 1"
    using cache_run_inv[OF cache_new_inv, of ttl ops capacity] unfolding cache_inv_def cache_run_capacity
    by (simp add: cache_new_def)
  ultimately show ?thesis by blast
qed

theorem cache_serves_fresh_witness:
  "length (t_entries (cache_run [OpInsert 3 ''a'' (7::nat), OpInsert 4 ''b'' 8] (cache_new 2 10))) \<le> 2"
  using cache_serves_fresh[of "[OpInsert 3 ''a'' (7::nat), OpInsert 4 ''b'' 8]" 5 "''b''" 2 10 8]
  by (simp add: cache_run_def cache_get_def cache_insert_def cache_new_def remove_key_def)

text \<open>
  C28: What was inserted is served: within its lifetime, and unless it is replaced or invalidated, an
  entry survives any number of operations as long as these look up or insert fewer other keys than the
  capacity.
\<close>

theorem cache_keeps_recent:
  assumes "cache_inv ttl c" "card (used ops - {k}) < t_capacity c" "now - t < ttl"
    and "\<forall>oper \<in> set ops. \<not> op_overwrites oper k \<and> op_time oper - t < ttl"
  shows "fst (cache_get now k (cache_run ops (cache_insert t k v c))) = Some v"
proof -
  have i: "cache_inv ttl (cache_insert t k v c)" using assms(1) by (rule cache_inv_insert)
  from near_run[OF i near_fresh[OF assms(1)], of ops] assms(2,4)
  have "map_of (t_entries (cache_run ops (cache_insert t k v c))) k = Some (t, v)"
    by (auto intro: near_found)
  with cache_run_inv[OF i, of ops] assms(3) show ?thesis
    by (simp add: cache_get_fst live_def cache_inv_def)
qed

theorem cache_keeps_recent_witness:
  "fst (cache_get 9 ''a'' (cache_run [OpInsert 4 ''b'' (8::nat), OpGet 5 ''b'', OpGet 6 ''b'']
     (cache_insert 3 ''a'' 7 (cache_new 2 10)))) = Some 7"
  by (rule cache_keeps_recent[OF cache_new_inv]) (simp_all add: cache_new_def used_def)

end
