(* ===== verification/Location.thy ===== *)
theory Location
  imports Strings
begin

text \<open>
  How an upstream is reached (\<open>ncro_config\<close>: \<open>S3AddressingStyle\<close>, \<open>S3Scheme\<close>, \<open>S3Config\<close>,
  \<open>Location::parse\<close>, \<open>parse_s3_url\<close>). The URL library is a parameter: it returns the scheme,
  host, path and decoded query pairs of a URL, or an error. A validation message is a
  constructor with the values the message quotes.
\<close>

datatype s3_addressing_style = StyleAuto | StylePath | StyleVirtual

datatype s3_scheme = SchemeHttp | SchemeHttps

definition show_s3_scheme :: "s3_scheme \<Rightarrow> string" where
  "show_s3_scheme s = (case s of SchemeHttp \<Rightarrow> ''http'' | SchemeHttps \<Rightarrow> ''https'')"

record s3_config =
  s3_bucket :: string
  s3_key_prefix :: "string option"
  s3_endpoint :: "string option"
  s3_scheme_of :: s3_scheme
  s3_region :: string
  s3_profile :: "string option"
  s3_addressing :: s3_addressing_style

definition endpoint_url :: "s3_config \<Rightarrow> string option" where
  "endpoint_url c = map_option (\<lambda>endpoint. show_s3_scheme (s3_scheme_of c) @ ''://'' @ endpoint) (s3_endpoint c)"

definition force_path_style :: "s3_config \<Rightarrow> bool" where
  "force_path_style c =
     (case s3_addressing c of
        StylePath \<Rightarrow> True
      | StyleVirtual \<Rightarrow> False
      | StyleAuto \<Rightarrow> s3_endpoint c \<noteq> None \<or> CHR ''.'' \<in> set (s3_bucket c))"

datatype location = Http | S3 s3_config

section \<open>The URL library\<close>

record parsed_url =
  u_scheme :: string
  u_host :: "string option"
  u_path :: string
  u_query :: "(string \<times> string) list"

type_synonym url_lib = "string \<Rightarrow> (string, parsed_url) result"

datatype validation_error =
    InvalidUrl string string string
  | UnsupportedScheme string string string
  | InvalidS3Url string string
  | MissingBucket string
  | UnsupportedS3Scheme string string
  | UnsupportedAddressingStyle string string

section \<open>Parsing\<close>

text \<open>The loop over the query pairs; a later pair overrides an earlier one.\<close>

definition s3_pair :: "string \<Rightarrow> string \<Rightarrow> string \<Rightarrow> s3_config \<Rightarrow> (validation_error, s3_config) result" where
  "s3_pair raw key v c =
     (if key = ''endpoint'' then Ok (c\<lparr>s3_endpoint := Some v\<rparr>)
      else if key = ''scheme'' then
        (if v = ''http'' then Ok (c\<lparr>s3_scheme_of := SchemeHttp\<rparr>)
         else if v = ''https'' then Ok (c\<lparr>s3_scheme_of := SchemeHttps\<rparr>)
         else Err (UnsupportedS3Scheme raw v))
      else if key = ''region'' then Ok (c\<lparr>s3_region := v\<rparr>)
      else if key = ''profile'' then Ok (c\<lparr>s3_profile := Some v\<rparr>)
      else if key = ''addressing-style'' then
        (if v = ''auto'' then Ok (c\<lparr>s3_addressing := StyleAuto\<rparr>)
         else if v = ''path'' then Ok (c\<lparr>s3_addressing := StylePath\<rparr>)
         else if v = ''virtual'' then Ok (c\<lparr>s3_addressing := StyleVirtual\<rparr>)
         else Err (UnsupportedAddressingStyle raw v))
      else Ok c)"

fun s3_query :: "string \<Rightarrow> (string \<times> string) list \<Rightarrow> s3_config \<Rightarrow> (validation_error, s3_config) result" where
  "s3_query raw [] c = Ok c"
| "s3_query raw ((key, v) # ps) c =
     (case s3_pair raw key v c of Err e \<Rightarrow> Err e | Ok c' \<Rightarrow> s3_query raw ps c')"

definition key_prefix_of :: "string \<Rightarrow> string option" where
  "key_prefix_of path =
     (let p = join ''/'' (filter (\<lambda>part. part \<noteq> []) (split_char CHR ''/'' path)) in
      if p = [] then None else Some p)"

definition parse_s3_url :: "url_lib \<Rightarrow> string \<Rightarrow> (validation_error, s3_config) result" where
  "parse_s3_url U raw =
     (case U raw of
        Err e \<Rightarrow> Err (InvalidS3Url raw e)
      | Ok parsed \<Rightarrow>
          (case u_host parsed of
             None \<Rightarrow> Err (MissingBucket raw)
           | Some bucket \<Rightarrow>
               s3_query raw (u_query parsed)
                 \<lparr>s3_bucket = bucket, s3_key_prefix = key_prefix_of (u_path parsed), s3_endpoint = None,
                  s3_scheme_of = SchemeHttps, s3_region = ''us-east-1'', s3_profile = None,
                  s3_addressing = StyleAuto\<rparr>))"

definition location_parse :: "url_lib \<Rightarrow> string \<Rightarrow> string \<Rightarrow> (validation_error, location) result" where
  "location_parse U url label =
     (case U url of
        Err e \<Rightarrow> Err (InvalidUrl label url e)
      | Ok parsed \<Rightarrow>
          if u_scheme parsed = ''http'' \<or> u_scheme parsed = ''https'' then Ok Http
          else if u_scheme parsed = ''s3'' then
            (case parse_s3_url U url of Err e \<Rightarrow> Err e | Ok c \<Rightarrow> Ok (S3 c))
          else Err (UnsupportedScheme label (u_scheme parsed) url))"

section \<open>What the parser produces\<close>

text \<open>The last value of a query key.\<close>

definition last_value :: "string \<Rightarrow> (string \<times> string) list \<Rightarrow> string option" where
  "last_value key ps = map_of (rev ps) key"

lemma last_value_Cons:
  "last_value key ((k, v) # ps) = (case last_value key ps of Some w \<Rightarrow> Some w | None \<Rightarrow> if k = key then Some v else None)"
  by (simp add: last_value_def map_of_append map_add_def split: option.split)

lemma last_value_Nil [simp]: "last_value key [] = None"
  by (simp add: last_value_def)

lemma s3_pair_values:
  assumes "s3_pair raw key v c = Ok c'"
  shows "s3_bucket c' = s3_bucket c" "s3_key_prefix c' = s3_key_prefix c"
    "s3_endpoint c' = (if key = ''endpoint'' then Some v else s3_endpoint c)"
    "s3_region c' = (if key = ''region'' then v else s3_region c)"
    "s3_profile c' = (if key = ''profile'' then Some v else s3_profile c)"
    "show_s3_scheme (s3_scheme_of c') = (if key = ''scheme'' then v else show_s3_scheme (s3_scheme_of c))"
  using assms unfolding s3_pair_def show_s3_scheme_def by (simp_all split: if_split_asm) auto

text \<open>A field that one key sets ends up with the last value of that key.\<close>

lemma s3_query_field:
  assumes "\<And>k v c c'. s3_pair raw k v c = Ok c' \<Longrightarrow> f c' = (if k = key then g v else f c)"
    and "s3_query raw ps c = Ok c'"
  shows "f c' = (case last_value key ps of Some v \<Rightarrow> g v | None \<Rightarrow> f c)"
  using assms(2)
proof (induction ps arbitrary: c)
  case (Cons p ps)
  obtain k v where p: "p = (k, v)" by (cases p)
  with Cons.prems obtain c1 where c1: "s3_pair raw k v c = Ok c1" "s3_query raw ps c1 = Ok c'"
    by (auto split: sum.splits)
  show ?case
    using Cons.IH[OF c1(2)] assms(1)[OF c1(1)] by (simp add: p last_value_Cons split: option.split)
qed simp

lemma s3_query_keeps:
  assumes "s3_query raw ps c = Ok c'"
  shows "s3_bucket c' = s3_bucket c \<and> s3_key_prefix c' = s3_key_prefix c"
  using assms
proof (induction raw ps c rule: s3_query.induct)
  case (2 raw key v ps c)
  from "2.prems" obtain c1 where c1: "s3_pair raw key v c = Ok c1" "s3_query raw ps c1 = Ok c'"
    by (auto split: sum.splits)
  with "2.IH"[OF c1] s3_pair_values(1,2)[OF c1(1)] show ?case by simp
qed simp

lemma s3_query_values:
  assumes "s3_query raw ps c = Ok c'"
  shows "s3_endpoint c' = (case last_value ''endpoint'' ps of Some v \<Rightarrow> Some v | None \<Rightarrow> s3_endpoint c)"
    "s3_region c' = (case last_value ''region'' ps of Some v \<Rightarrow> v | None \<Rightarrow> s3_region c)"
    "s3_profile c' = (case last_value ''profile'' ps of Some v \<Rightarrow> Some v | None \<Rightarrow> s3_profile c)"
    "show_s3_scheme (s3_scheme_of c')
       = (case last_value ''scheme'' ps of Some v \<Rightarrow> v | None \<Rightarrow> show_s3_scheme (s3_scheme_of c))"
  by (rule s3_query_field[OF _ assms], erule s3_pair_values)+

lemma key_prefix_of_Some:
  assumes "key_prefix_of path = Some p"
  shows "p \<noteq> [] \<and> [] \<notin> set (split_char CHR ''/'' p)"
proof -
  let ?ps = "filter (\<lambda>part. part \<noteq> []) (split_char CHR ''/'' path)"
  from assms have p: "p = join ''/'' ?ps" "p \<noteq> []" by (auto simp: key_prefix_of_def Let_def split: if_splits)
  then have "?ps \<noteq> []" by auto
  moreover have "\<forall>x \<in> set ?ps. CHR ''/'' \<notin> set x" by (auto dest: split_char_no_sep)
  ultimately have "split_char CHR ''/'' p = ?ps" using p split_char_join by metis
  with p show ?thesis by simp
qed

end
