(* ===== verification/Upstream.thy ===== *)
theory Upstream
  imports Location
begin

text \<open>
  The backends of \<open>ncro_upstream\<close>: an HTTP cache (\<open>http.rs\<close>) and an S3 bucket (\<open>s3.rs\<close>) behind
  one \<open>send\<close>, and the registry of backends by URL. The network is a parameter that answers a
  request (the n-th attempt, for S3) with a response or an error; the signer and the AWS
  credentials chain are parameters too. The credentials cache is explicit state.
\<close>

record response =
  resp_url :: string
  resp_status :: nat
  resp_headers :: "(string \<times> string) list"
  resp_chunks :: "(string, bytes) result list"

text \<open>\<open>bytes()\<close>: the whole body, or the error that ends its stream.\<close>

fun collect_chunks :: "(string, bytes) result list \<Rightarrow> (string, bytes) result" where
  "collect_chunks [] = Ok []"
| "collect_chunks (c # cs) =
     (case c of Err e \<Rightarrow> Err e
      | Ok bs \<Rightarrow> (case collect_chunks cs of Err e \<Rightarrow> Err e | Ok rest \<Rightarrow> Ok (bs @ rest)))"

definition resp_body :: "response \<Rightarrow> (string, bytes) result" where
  "resp_body r = collect_chunks (resp_chunks r)"

record net_error =
  net_is_request :: bool
  net_text :: string

datatype backend_error =
    HttpClient string string
  | CredentialsError string string
  | SignError string string
  | DotSegment string
  | RequestError string net_error
  | StatusError string nat
  | BodyError string string

datatype http_method = GET | HEAD

record request =
  q_method :: http_method
  q_url :: string
  q_headers :: "(string \<times> string) list"
  q_basic_auth :: "(string \<times> string option) option"
  q_timeout :: "duration option"

type_synonym network = "nat \<Rightarrow> request \<Rightarrow> (net_error, response) result"

definition is_success :: "nat \<Rightarrow> bool" where "is_success st \<longleftrightarrow> 200 \<le> st \<and> st < 300"
definition is_server_error :: "nat \<Rightarrow> bool" where "is_server_error st \<longleftrightarrow> 500 \<le> st \<and> st < 600"

section \<open>HTTP\<close>

record http_backend =
  b_url :: string
  b_username :: string
  b_password :: "string option"

definition is_authenticated :: "http_backend \<Rightarrow> bool" where
  "is_authenticated b \<longleftrightarrow> b_username b \<noteq> []"

definition is_miss_status :: "nat \<Rightarrow> bool" where
  "is_miss_status st \<longleftrightarrow> st = 404 \<or> st = 403 \<or> st = 410"

definition http_send ::
  "network \<Rightarrow> http_backend \<Rightarrow> http_method \<Rightarrow> string \<Rightarrow> (string \<times> string) list \<Rightarrow> duration option
     \<Rightarrow> (backend_error, response option) result" where
  "http_send net b method path headers timeout =
     (let url = b_url b @ path;
          req = \<lparr>q_method = method, q_url = url, q_headers = headers,
                 q_basic_auth = (if is_authenticated b then Some (b_username b, b_password b) else None),
                 q_timeout = timeout\<rparr>
      in case net 1 req of
           Err e \<Rightarrow> Err (RequestError url e)
         | Ok resp \<Rightarrow>
             if is_miss_status (resp_status resp) then Ok None
             else if is_success (resp_status resp) then Ok (Some resp)
             else Err (StatusError url (resp_status resp)))"

section \<open>S3 object URLs\<close>

definition is_unreserved :: "char \<Rightarrow> bool" where
  "is_unreserved c \<longleftrightarrow> is_digit c \<or> byte_in 65 90 c \<or> byte_in 97 122 c \<or> c \<in> set ''-._~/''"

definition hex_upper :: "nat \<Rightarrow> char" where
  "hex_upper d = char_of (if d < 10 then 48 + d else 55 + d)"

definition percent_byte :: "char \<Rightarrow> string" where
  "percent_byte c =
     (if is_unreserved c then [c] else [CHR ''%'', hex_upper (code c div 16), hex_upper (code c mod 16)])"

definition percent_encode :: "string \<Rightarrow> string" where
  "percent_encode key = concat (map percent_byte key)"

definition dns_suffixes :: "(string \<times> string) list" where
  "dns_suffixes = [(''cn-'', ''amazonaws.com.cn''), (''eusc-'', ''amazonaws.eu''),
     (''us-isob-'', ''sc2s.sgov.gov''), (''us-isof-'', ''csp.hci.ic.gov''),
     (''us-iso-'', ''c2s.ic.gov''), (''eu-isoe-'', ''cloud.adc-e.uk'')]"

definition dns_suffix :: "string \<Rightarrow> string" where
  "dns_suffix region =
     (case find (\<lambda>(p, s). prefix p region) dns_suffixes of Some (_, s) \<Rightarrow> s | None \<Rightarrow> ''amazonaws.com'')"

definition object_url :: "s3_config \<Rightarrow> string \<Rightarrow> (backend_error, string) result" where
  "object_url config key =
     (let key = (case s3_key_prefix config of None \<Rightarrow> key | Some p \<Rightarrow> p @ ''/'' @ key) in
      if list_ex (\<lambda>segment. segment = ''.'' \<or> segment = ''..'') (split_char CHR ''/'' key) then Err (DotSegment key)
      else
        let path = percent_encode key;
            endpoint = (case s3_endpoint config of
                None \<Rightarrow> ''s3.'' @ s3_region config @ ''.'' @ dns_suffix (s3_region config)
              | Some e \<Rightarrow> e)
        in if force_path_style config
           then Ok (show_s3_scheme (s3_scheme_of config) @ ''://'' @ endpoint @ ''/'' @ s3_bucket config @ ''/'' @ path)
           else Ok (show_s3_scheme (s3_scheme_of config) @ ''://'' @ s3_bucket config @ ''.'' @ endpoint @ ''/'' @ path))"

section \<open>S3 credentials and requests\<close>

definition credentials_refresh_margin :: duration where "credentials_refresh_margin = secs 10"
definition credentials_default_lifetime :: duration where "credentials_default_lifetime = secs (15 * 60)"
definition max_attempts :: nat where "max_attempts = 3"
definition retry_backoff :: duration where "retry_backoff = 100000000"

text \<open>Credentials are a value of the AWS library with an optional expiry; the cache holds them
  with the time to refresh at. Times are \<open>SystemTime\<close>s, integers.\<close>

record creds =
  cr_id :: string
  cr_expiry :: "timestamp option"

type_synonym creds_cache = "(creds \<times> timestamp) option"

definition credentials ::
  "(string, creds) result \<Rightarrow> timestamp \<Rightarrow> creds_cache \<Rightarrow> (string, creds) result \<times> creds_cache" where
  "credentials provided now cached =
     (case (case cached of None \<Rightarrow> None | Some (c, refresh_at) \<Rightarrow> if now < refresh_at then Some c else None) of
        Some c \<Rightarrow> (Ok c, cached)
      | None \<Rightarrow>
          (case provided of
             Err e \<Rightarrow> (Err e, cached)
           | Ok fresh \<Rightarrow>
               let refresh_at = (case cr_expiry fresh of
                   None \<Rightarrow> now + int credentials_default_lifetime
                 | Some expiry \<Rightarrow> expiry - int credentials_refresh_margin)
               in (Ok fresh, Some (fresh, refresh_at))))"

definition retryable :: "(net_error, response) result \<Rightarrow> bool" where
  "retryable r = (case r of
      Ok resp \<Rightarrow> is_server_error (resp_status resp) \<or> resp_status resp = 429
    | Err e \<Rightarrow> net_is_request e)"

text \<open>The attempt loop: the final result of the network and the pauses made, in order.\<close>

function s3_attempts :: "network \<Rightarrow> request \<Rightarrow> nat \<Rightarrow> (net_error, response) result \<times> duration list" where
  "s3_attempts net req attempt =
     (let result = net attempt req in
      if retryable result \<and> attempt < max_attempts
      then (let (r, pauses) = s3_attempts net req (attempt + 1) in (r, retry_backoff * attempt # pauses))
      else (result, []))"
  by pat_completeness auto
termination
  by (relation "measure (\<lambda>(net, req, attempt). max_attempts - attempt)") auto

declare s3_attempts.simps [simp del]

record s3_backend =
  s3b_url :: string
  s3b_config :: s3_config

text \<open>What the request is signed with: headers for a method and URL under credentials, or an error.\<close>

type_synonym signer = "http_method \<Rightarrow> string \<Rightarrow> creds \<Rightarrow> timestamp \<Rightarrow> (string, (string \<times> string) list) result"

definition s3_send ::
  "network \<Rightarrow> signer \<Rightarrow> (string, unit) result \<Rightarrow> (string, creds) result \<Rightarrow> timestamp \<Rightarrow> s3_backend \<Rightarrow> creds_cache
     \<Rightarrow> http_method \<Rightarrow> string \<Rightarrow> (string \<times> string) list \<Rightarrow> duration option
     \<Rightarrow> (backend_error, response option) result \<times> creds_cache" where
  "s3_send net sign client provided now b cached method path headers timeout =
     (case client of
        Err e \<Rightarrow> (Err (HttpClient (s3b_url b) e), cached)
      | Ok _ \<Rightarrow>
      (case object_url (s3b_config b) (dropWhile (\<lambda>c. c = CHR ''/'') path) of
         Err e \<Rightarrow> (Err e, cached)
       | Ok url \<Rightarrow>
       (case credentials provided now cached of
          (Err e, cached') \<Rightarrow> (Err (CredentialsError (s3b_url b) e), cached')
        | (Ok c, cached') \<Rightarrow>
        (case sign method url c now of
           Err e \<Rightarrow> (Err (SignError url e), cached')
         | Ok auth_headers \<Rightarrow>
             let req = \<lparr>q_method = method, q_url = url,
                        q_headers = auth_headers @ (case map_of headers ''range'' of None \<Rightarrow> [] | Some r \<Rightarrow> [(''range'', r)]),
                        q_basic_auth = None, q_timeout = timeout\<rparr>
             in (case fst (s3_attempts net req 1) of
                   Err e \<Rightarrow> (Err (RequestError url e), cached')
                 | Ok resp \<Rightarrow>
                     if resp_status resp = 404 then (Ok None, cached')
                     else if is_success (resp_status resp) then (Ok (Some resp), cached')
                     else (Err (StatusError url (resp_status resp)), cached'))))))"

section \<open>Backends and their registry\<close>

datatype backend = BHttp http_backend | BS3 s3_backend

definition backend_kind :: "backend \<Rightarrow> string" where
  "backend_kind b = (case b of BHttp _ \<Rightarrow> ''http'' | BS3 _ \<Rightarrow> ''s3'')"

definition backend_is_authenticated :: "backend \<Rightarrow> bool" where
  "backend_is_authenticated b = (case b of BHttp h \<Rightarrow> is_authenticated h | BS3 _ \<Rightarrow> False)"

text \<open>What a backend's requests meet: the network, and for S3 the client, credentials and signer.\<close>

record outside =
  o_net :: network
  o_sign :: signer
  o_client :: "(string, unit) result"
  o_provided :: "(string, creds) result"
  o_now :: timestamp

definition backend_send ::
  "outside \<Rightarrow> backend \<Rightarrow> creds_cache \<Rightarrow> http_method \<Rightarrow> string \<Rightarrow> (string \<times> string) list \<Rightarrow> duration option
     \<Rightarrow> (backend_error, response option) result \<times> creds_cache" where
  "backend_send out b cached method path headers timeout =
     (case b of
        BHttp h \<Rightarrow> (http_send (o_net out) h method path headers timeout, cached)
      | BS3 s \<Rightarrow> s3_send (o_net out) (o_sign out) (o_client out) (o_provided out) (o_now out) s cached
          method path headers timeout)"

definition get_bytes ::
  "outside \<Rightarrow> backend \<Rightarrow> creds_cache \<Rightarrow> string \<Rightarrow> (string \<times> string) list \<Rightarrow> duration option
     \<Rightarrow> (backend_error, bytes option) result \<times> creds_cache" where
  "get_bytes out b cached path headers timeout =
     (case backend_send out b cached GET path headers timeout of
        (Err e, cached') \<Rightarrow> (Err e, cached')
      | (Ok None, cached') \<Rightarrow> (Ok None, cached')
      | (Ok (Some resp), cached') \<Rightarrow>
          (case resp_body resp of
             Err e \<Rightarrow> (Err (BodyError (resp_url resp) e), cached')
           | Ok bs \<Rightarrow> (Ok (Some bs), cached')))"

definition backend_of :: "string \<Rightarrow> location \<Rightarrow> string \<Rightarrow> string option \<Rightarrow> backend" where
  "backend_of url loc username password =
     (case loc of
        Http \<Rightarrow> BHttp \<lparr>b_url = url, b_username = username, b_password = password\<rparr>
      | S3 c \<Rightarrow> BS3 \<lparr>s3b_url = url, s3b_config = c\<rparr>)"

type_synonym upstreams = "string \<rightharpoonup> backend"

definition register_backend :: "upstreams \<Rightarrow> string \<Rightarrow> location \<Rightarrow> string \<Rightarrow> string option \<Rightarrow> upstreams" where
  "register_backend us url loc username password = us(url \<mapsto> backend_of url loc username password)"

definition get_backend :: "upstreams \<Rightarrow> string \<Rightarrow> backend" where
  "get_backend us url =
     (case us url of
        Some b \<Rightarrow> b
      | None \<Rightarrow> BHttp \<lparr>b_url = url, b_username = [], b_password = None\<rparr>)"

section \<open>Percent encoding\<close>

definition hex_value :: "char \<Rightarrow> nat" where
  "hex_value c = (if is_digit c then code c - 48 else code c - 55)"

fun percent_decode :: "string \<Rightarrow> string" where
  "percent_decode (c # a # b # s) =
     (if c = CHR ''%'' then char_of (hex_value a * 16 + hex_value b) # percent_decode s
      else c # percent_decode (a # b # s))"
| "percent_decode (c # s) = c # percent_decode s"
| "percent_decode [] = []"

lemma hex_value_upper: "d < 16 \<Longrightarrow> hex_value (hex_upper d) = d"
  by (auto simp: hex_value_def hex_upper_def is_digit_def)

lemma percent_not_unreserved: "\<not> is_unreserved CHR ''%''"
  by (simp add: is_unreserved_def is_digit_def byte_in_def)

lemma code_less: "code c < 256"
  by (metis of_char_mod_256 mod_less_divisor zero_less_numeral)

lemma percent_decode_unreserved: "c \<noteq> CHR ''%'' \<Longrightarrow> percent_decode (c # s) = c # percent_decode s"
  by (cases s; cases "tl s") auto

lemma percent_decode_byte: "percent_decode (percent_byte c @ s) = c # percent_decode s"
proof (cases "is_unreserved c")
  case True
  then have "c \<noteq> CHR ''%''" using percent_not_unreserved by blast
  with True show ?thesis by (simp add: percent_byte_def percent_decode_unreserved)
next
  case False
  have "code c div 16 < 16" using code_less[of c] by (simp add: less_mult_imp_div_less)
  with False show ?thesis by (simp add: percent_byte_def hex_value_upper div_mult_mod_eq)
qed

lemma percent_roundtrip: "percent_decode (percent_encode s @ t) = s @ percent_decode t"
  by (induction s) (simp_all add: percent_encode_def percent_decode_byte)

lemma percent_encode_unreserved: "set (percent_encode s) \<subseteq> {c. is_unreserved c} \<union> {CHR ''%''}"
proof -
  have "is_unreserved (hex_upper d)" if "d < 16" for d
    using that by (auto simp: is_unreserved_def hex_upper_def is_digit_def byte_in_def)
  moreover have "code c div 16 < 16" for c using code_less[of c] by (simp add: less_mult_imp_div_less)
  ultimately show ?thesis by (auto simp: percent_encode_def percent_byte_def split: if_splits)
qed

section \<open>The attempt loop\<close>

lemma s3_attempts_bound:
  "attempt \<le> max_attempts \<Longrightarrow> s3_attempts net req attempt = (r, pauses) \<Longrightarrow>
     attempt + length pauses \<le> max_attempts \<and> r = net (attempt + length pauses) req \<and>
     (\<forall>n. attempt \<le> n \<longrightarrow> n < attempt + length pauses \<longrightarrow> retryable (net n req)) \<and>
     (retryable r \<longrightarrow> attempt + length pauses = max_attempts)"
proof (induction net req attempt arbitrary: r pauses rule: s3_attempts.induct)
  case (1 net req attempt)
  show ?case
  proof (cases "retryable (net attempt req) \<and> attempt < max_attempts")
    case True
    obtain r' ps where rec: "s3_attempts net req (attempt + 1) = (r', ps)" by fastforce
    with True "1.prems"(2) have res: "r = r'" "pauses = retry_backoff * attempt # ps"
      by (auto simp: s3_attempts.simps[of net req attempt])
    have "attempt + 1 \<le> max_attempts" using True by simp
    from "1.IH"[OF refl True this rec] have IH: "attempt + 1 + length ps \<le> max_attempts"
      "r' = net (attempt + 1 + length ps) req"
      "\<forall>n. attempt + 1 \<le> n \<longrightarrow> n < attempt + 1 + length ps \<longrightarrow> retryable (net n req)"
      "retryable r' \<longrightarrow> attempt + 1 + length ps = max_attempts" by blast+
    have "retryable (net n req)" if "attempt \<le> n" "n < attempt + length pauses" for n
      using that IH(3) True res(2) by (cases "n = attempt") auto
    with IH(1,2,4) res show ?thesis by simp
  next
    case False
    with "1.prems"(2) have "r = net attempt req" "pauses = []"
      by (simp_all add: s3_attempts.simps[of net req attempt])
    with False "1.prems"(1) show ?thesis by auto
  qed
qed

section \<open>Properties\<close>

text \<open>
  An S3 request is tried at most three times: the answer returned is that of the last attempt,
  every earlier one failed in a retryable way, the loop stops early only at an answer that is not
  retryable, and the pauses add up to at most 300 ms.
\<close>

theorem s3_attempts_spec:
  "\<exists>n pauses. s3_attempts net req 1 = (net n req, pauses) \<and> 1 \<le> n \<and> n \<le> 3 \<and> length pauses = n - 1 \<and>
     (\<forall>i \<in> {1..<n}. retryable (net i req)) \<and> (retryable (net n req) \<longrightarrow> n = 3) \<and>
     sum_list pauses \<le> 300000000"
proof -
  obtain r pauses where a: "s3_attempts net req 1 = (r, pauses)" by fastforce
  have b: "1 + length pauses \<le> 3" "r = net (1 + length pauses) req"
    "\<forall>n. 1 \<le> n \<longrightarrow> n < 1 + length pauses \<longrightarrow> retryable (net n req)"
    "retryable r \<longrightarrow> 1 + length pauses = 3"
    using s3_attempts_bound[OF _ a] unfolding max_attempts_def by (metis one_le_numeral)+
  have "sum_list (snd (s3_attempts net req 1)) \<le> 300000000"
    by (simp add: s3_attempts.simps[of net req "Suc 0"] s3_attempts.simps[of net req "Suc (Suc 0)"]
        s3_attempts.simps[of net req "Suc (Suc (Suc 0))"] max_attempts_def retry_backoff_def Let_def split: prod.split)
  with a b show ?thesis by (intro exI [of _ "1 + length pauses"] exI [of _ pauses]) auto
qed

theorem s3_attempts_spec_witness:
  "\<exists>n pauses. s3_attempts (\<lambda>_ _. Err \<lparr>net_is_request = True, net_text = ''refused''\<rparr>)
       \<lparr>q_method = GET, q_url = ''u'', q_headers = [], q_basic_auth = None, q_timeout = None\<rparr> 1 =
     (Err \<lparr>net_is_request = True, net_text = ''refused''\<rparr>, pauses) \<and> n = 3 \<and> length pauses = 2 \<and>
     sum_list pauses \<le> 300000000"
  using s3_attempts_spec[of "\<lambda>_ _. Err \<lparr>net_is_request = True, net_text = ''refused''\<rparr>"
      "\<lparr>q_method = GET, q_url = ''u'', q_headers = [], q_basic_auth = None, q_timeout = None\<rparr>"]
  by (auto simp: retryable_def)

text \<open>
  The object URL of an S3 key ends in the percent-encoded prefixed key: it decodes to the key,
  so different keys have different URLs, has only unreserved characters and percent signs in that
  part, and never lets a dot segment through.
\<close>

theorem object_url_encodes:
  assumes "object_url config key = Ok url"
  shows "\<exists>base path. url = base @ ''/'' @ path \<and>
    percent_decode path = (case s3_key_prefix config of None \<Rightarrow> key | Some p \<Rightarrow> p @ ''/'' @ key) \<and>
    set path \<subseteq> {c. is_unreserved c} \<union> {CHR ''%''} \<and>
    ''..'' \<notin> set (split_char CHR ''/'' key) \<and> ''.'' \<notin> set (split_char CHR ''/'' key) \<and>
    (\<forall>key'. object_url config key' = Ok url \<longrightarrow> key' = key)"
proof -
  define full where "full k = (case s3_key_prefix config of None \<Rightarrow> k | Some p \<Rightarrow> p @ ''/'' @ k)" for k
  define base where "base =
    (let endpoint = (case s3_endpoint config of
        None \<Rightarrow> ''s3.'' @ s3_region config @ ''.'' @ dns_suffix (s3_region config) | Some e \<Rightarrow> e);
      scheme = show_s3_scheme (s3_scheme_of config)
     in if force_path_style config then scheme @ ''://'' @ endpoint @ ''/'' @ s3_bucket config
        else scheme @ ''://'' @ s3_bucket config @ ''.'' @ endpoint)"
  have shape: "u = base @ ''/'' @ percent_encode (full k) \<and>
      (\<forall>s \<in> set (split_char CHR ''/'' (full k)). s \<noteq> ''.'' \<and> s \<noteq> ''..'')"
    if "object_url config k = Ok u" for k u
    using that unfolding object_url_def full_def base_def Let_def
    by (auto simp: list_ex_iff split: if_splits)
  have inj: "full k = full k' \<longleftrightarrow> k = k'" for k k' by (auto simp: full_def split: option.split)
  have segs: "set (split_char CHR ''/'' k) \<subseteq> set (split_char CHR ''/'' (full k))" for k
    by (auto simp: full_def split_char_append split: option.split)
  have dec: "percent_decode (percent_encode s) = s" for s using percent_roundtrip[of s "[]"] by simp
  from shape[OF assms] have u: "url = base @ ''/'' @ percent_encode (full key)" by blast
  have "key' = key" if "object_url config key' = Ok url" for key'
    using shape[OF that] u dec inj by (metis same_append_eq)
  moreover have "''..'' \<notin> set (split_char CHR ''/'' key)" "''.'' \<notin> set (split_char CHR ''/'' key)"
    using shape[OF assms] segs by blast+
  ultimately show ?thesis
    using u dec[of "full key"] percent_encode_unreserved[of "full key"] by (auto simp: full_def)
qed

definition s3_demo :: s3_config where
  "s3_demo = \<lparr>s3_bucket = ''b'', s3_key_prefix = Some ''p'', s3_endpoint = None, s3_scheme_of = SchemeHttps,
     s3_region = ''cn-north-1'', s3_profile = None, s3_addressing = StyleAuto\<rparr>"

theorem object_url_encodes_witness:
  "object_url s3_demo ''x+y'' = Ok ''https://b.s3.cn-north-1.amazonaws.com.cn/p/x%2By'' \<and>
   (\<forall>key'. object_url s3_demo key' = Ok ''https://b.s3.cn-north-1.amazonaws.com.cn/p/x%2By'' \<longrightarrow> key' = ''x+y'')"
proof -
  have "char_of (50 :: nat) = CHR ''2''" "char_of (66 :: nat) = CHR ''B''" by code_simp+
  then have "object_url s3_demo ''x+y'' = Ok ''https://b.s3.cn-north-1.amazonaws.com.cn/p/x%2By''"
    by (simp add: object_url_def s3_demo_def force_path_style_def dns_suffix_def dns_suffixes_def
        show_s3_scheme_def percent_encode_def percent_byte_def is_unreserved_def is_digit_def byte_in_def
        hex_upper_def)
  with object_url_encodes[OF this] show ?thesis by blast
qed

text \<open>
  The credentials cache never hands out credentials it should refresh: what it returns is either
  cached with its refresh time still ahead or fresh from the provider; a provider failure leaves
  the cache as it was; credentials with an expiry are refreshed ten seconds before it.
\<close>

theorem credentials_fresh:
  assumes "credentials provided now cached = (Ok c, cached')"
    and "\<forall>c0 t. cached = Some (c0, t) \<longrightarrow> (\<forall>e. cr_expiry c0 = Some e \<longrightarrow> t + 10000000000 = e)"
  shows "(provided = Ok c \<or> (\<exists>t. cached = Some (c, t) \<and> now < t \<and> cached' = cached)) \<and>
    (\<forall>e. cr_expiry c = Some e \<longrightarrow> provided = Ok c \<or> now + 10000000000 < e) \<and>
    (\<exists>t. cached' = Some (c, t) \<and> (\<forall>e. cr_expiry c = Some e \<longrightarrow> t + 10000000000 = e))"
  using assms unfolding credentials_def
  by (auto simp: Let_def credentials_refresh_margin_def secs_def split: option.splits sum.splits if_splits)

theorem credentials_fresh_witness:
  "\<exists>t. snd (credentials (Ok \<lparr>cr_id = ''k'', cr_expiry = Some 50000000000\<rparr>) 0 None)
     = Some (\<lparr>cr_id = ''k'', cr_expiry = Some 50000000000\<rparr>, t) \<and> t + 10000000000 = 50000000000"
  using credentials_fresh[of "Ok \<lparr>cr_id = ''k'', cr_expiry = Some 50000000000\<rparr>" 0 None]
  by (fastforce simp: credentials_def)

text \<open>
  What an HTTP cache's status means: 404, 403 and 410 are a missing file, any 2xx a response,
  and every other status an error; only an upstream with a user name sends credentials.
\<close>

theorem http_send_status:
  "http_send net b method path headers timeout =
     (case net 1 \<lparr>q_method = method, q_url = b_url b @ path, q_headers = headers,
         q_basic_auth = (if b_username b = [] then None else Some (b_username b, b_password b)),
         q_timeout = timeout\<rparr> of
        Err e \<Rightarrow> Err (RequestError (b_url b @ path) e)
      | Ok resp \<Rightarrow>
          if resp_status resp \<in> {403, 404, 410} then Ok None
          else if resp_status resp \<in> {200..<300} then Ok (Some resp)
          else Err (StatusError (b_url b @ path) (resp_status resp)))"
  by (auto simp: http_send_def is_authenticated_def is_miss_status_def is_success_def Let_def split: sum.split)

end
