(* ===== verification/Router.thy ===== *)
theory Router
  imports PathFilter NarUrl TtlCache Db Health Upstream "HOL-Library.List_Lexorder" "HOL-Library.Char_ord"
begin

text \<open>
  The router of \<open>ncro_router\<close>: which upstream answers for a store hash. Its state holds the
  database, the prober, the registered keys, filters, modes and timeouts, the two in-memory
  caches, the cooldown map and the race gates; \<open>rt_log\<close> collects the metrics it counts. What
  happens outside is an \<open>env\<close>: the clocks, the answers of the upstreams to a HEAD (in each round of a race) and a GET, the
  order in which the tasks of a race group finish, and the database faults. The operations of
  the code follow in its order: registration, resolution through the caches, the race by
  priority group, and the commit of a winner.
\<close>

section \<open>Types\<close>

datatype router_error =
    NotFound
  | UpstreamUnavailable
  | NoCandidates string
  | SignatureVerificationFailed
  | Backend backend_error
  | ParseNarinfo narinfo_error
  | RDb db_error

datatype hop = Client | Peer | PeerOfPeer

definition hop_header :: string where "hop_header = ''x-ncro-hop''"

definition hop_from_headers :: "(string \<times> string) list \<Rightarrow> hop" where
  "hop_from_headers headers =
     (case map_of headers hop_header of
        None \<Rightarrow> Client
      | Some v \<Rightarrow> if v = ''1'' then Peer else PeerOfPeer)"

definition hop_outgoing :: "hop \<Rightarrow> string" where
  "hop_outgoing hp = (case hp of Client \<Rightarrow> ''1'' | Peer \<Rightarrow> ''2'' | PeerOfPeer \<Rightarrow> ''2'')"

definition hop_headers :: "hop \<Rightarrow> (string \<times> string) list" where
  "hop_headers hp = [(hop_header, hop_outgoing hp)]"

record resolve_result =
  rr_url :: string
  rr_latency_ms :: f64
  rr_cache_hit :: bool
  rr_narinfo :: "bytes option"

text \<open>The trait \<open>RouterUpstream\<close>: what registration reads of an upstream.\<close>

record router_upstream =
  ru_url :: string
  ru_public_key :: string
  ru_public_keys :: "string list"
  ru_filters :: "filter_rule list"
  ru_nar_url_mode :: nar_url_mode
  ru_narinfo_timeout :: "duration option"

record tuning =
  tn_max_concurrent_races :: u32
  tn_per_upstream_max_inflight :: u32
  tn_in_memory_negative_ttl :: duration
  tn_upstream_cooldown :: duration

datatype metric =
    NarinfoCacheHits
  | NarinfoCacheMisses
  | NarinfoMemoryNegativeHits
  | NarinfoUpstreamAttempts
  | UpstreamRaceWins string
  | UpstreamLatency string f64
  | AttemptsPerResolve string nat
  | NarinfoRaceWait f64
  | NarinfoSingleflightWaiters

record router =
  rt_db :: db
  rt_prober :: prober
  rt_route_ttl :: duration
  rt_race_timeout :: duration
  rt_negative_ttl :: duration
  rt_timeouts :: "string \<rightharpoonup> duration"
  rt_keys :: "string \<rightharpoonup> string list"
  rt_filters :: "string \<rightharpoonup> filter_rule list"
  rt_modes :: "string \<rightharpoonup> nar_url_mode"
  rt_lru :: "resolve_result ttl_cache"
  rt_miss :: "unit ttl_cache"
  rt_race_permits :: u32
  rt_per_upstream_limit :: u32
  rt_gates :: "string \<times> hop \<rightharpoonup> u32"
  rt_cooldown :: "string \<rightharpoonup> instant"
  rt_cooldown_window :: duration
  rt_log :: "metric list"

datatype race_event = Joined string | JoinFailed string | Deadline

datatype db_call = CallIsNegative | CallGetRoute | CallSetRoute | CallEvict | CallSetNegative

record env =
  e_now :: instant
  e_ts :: timestamp
  e_get :: "string \<Rightarrow> string \<Rightarrow> (string \<times> string) list \<Rightarrow> duration \<Rightarrow> (backend_error, bytes option) result"
  e_head :: "string list \<Rightarrow> string \<Rightarrow> string \<Rightarrow> (string \<times> string) list \<Rightarrow> duration \<Rightarrow> (backend_error, unit option) result \<times> f64"
  e_race :: "string list \<Rightarrow> race_event list"
  e_fault :: "db_call \<Rightarrow> sqlx_error option"
  e_elapsed :: f64
  e_waited :: f64
  e_contended :: bool

definition metrics_add :: "metric list \<Rightarrow> router \<Rightarrow> router" where
  "metrics_add ms r = r\<lparr>rt_log := rt_log r @ ms\<rparr>"

lemma metrics_add_simps [simp]:
  "metrics_add b (metrics_add a r) = metrics_add (a @ b) r" "metrics_add [] r = r"
  by (simp_all add: metrics_add_def)

section \<open>Construction and registration\<close>

definition router_new :: "db \<Rightarrow> prober \<Rightarrow> duration \<Rightarrow> duration \<Rightarrow> duration \<Rightarrow> tuning \<Rightarrow> router" where
  "router_new d p route_ttl race_timeout negative_ttl tn =
     \<lparr>rt_db = d, rt_prober = p, rt_route_ttl = route_ttl, rt_race_timeout = race_timeout,
      rt_negative_ttl = negative_ttl, rt_timeouts = Map.empty, rt_keys = Map.empty,
      rt_filters = Map.empty, rt_modes = Map.empty, rt_lru = cache_new 1024 route_ttl,
      rt_miss = cache_new 32768 (tn_in_memory_negative_ttl tn),
      rt_race_permits = tn_max_concurrent_races tn,
      rt_per_upstream_limit = tn_per_upstream_max_inflight tn, rt_gates = Map.empty,
      rt_cooldown = Map.empty, rt_cooldown_window = tn_upstream_cooldown tn, rt_log = []\<rparr>"

definition normalized_public_keys :: "string \<Rightarrow> string list \<Rightarrow> string list" where
  "normalized_public_keys public_key public_keys =
     remdups_adj (sort ((if public_key = [] then [] else [public_key]) @ public_keys))"

fun parse_keys :: "crypto \<Rightarrow> string list \<Rightarrow> (narinfo_error, unit) result" where
  "parse_keys C [] = Ok ()"
| "parse_keys C (k # ks) = (case parse_public_key C k of Err e \<Rightarrow> Err e | Ok _ \<Rightarrow> parse_keys C ks)"

definition register_upstream_keys ::
  "crypto \<Rightarrow> router \<Rightarrow> string \<Rightarrow> string \<Rightarrow> string list \<Rightarrow> (narinfo_error, unit) result \<times> router" where
  "register_upstream_keys C r url public_key public_keys =
     (let keys = normalized_public_keys public_key public_keys in
      case parse_keys C keys of
        Err e \<Rightarrow> (Err e, r)
      | Ok _ \<Rightarrow> (Ok (), r\<lparr>rt_keys := (rt_keys r)(url := if keys = [] then None else Some keys)\<rparr>))"

definition register_upstream_filters :: "router \<Rightarrow> string \<Rightarrow> filter_rule list \<Rightarrow> router" where
  "register_upstream_filters r url filters =
     r\<lparr>rt_filters := (rt_filters r)(url := if filters = [] then None else Some filters)\<rparr>"

definition register_upstream_nar_url_mode :: "router \<Rightarrow> string \<Rightarrow> nar_url_mode \<Rightarrow> router" where
  "register_upstream_nar_url_mode r url mode = r\<lparr>rt_modes := (rt_modes r)(url \<mapsto> mode)\<rparr>"

definition register_upstream_narinfo_timeout :: "router \<Rightarrow> string \<Rightarrow> duration option \<Rightarrow> router" where
  "register_upstream_narinfo_timeout r url t = r\<lparr>rt_timeouts := (rt_timeouts r)(url := t)\<rparr>"

definition register_upstream :: "crypto \<Rightarrow> router \<Rightarrow> router_upstream \<Rightarrow> (narinfo_error, unit) result \<times> router" where
  "register_upstream C r u =
     (case register_upstream_keys C r (ru_url u) (ru_public_key u) (ru_public_keys u) of
        (Err e, r) \<Rightarrow> (Err e, r)
      | (Ok _, r) \<Rightarrow>
          (Ok (),
           register_upstream_narinfo_timeout
             (register_upstream_nar_url_mode
               (register_upstream_filters r (ru_url u) (ru_filters u))
               (ru_url u) (ru_nar_url_mode u))
             (ru_url u) (ru_narinfo_timeout u)))"

definition narinfo_timeout :: "router \<Rightarrow> string \<Rightarrow> duration" where
  "narinfo_timeout r upstream = (case rt_timeouts r upstream of Some t \<Rightarrow> t | None \<Rightarrow> rt_race_timeout r)"

definition public_keys :: "router \<Rightarrow> string \<Rightarrow> string list option" where
  "public_keys r upstream = rt_keys r upstream"

definition nar_url_mode :: "router \<Rightarrow> string \<Rightarrow> nar_url_mode" where
  "nar_url_mode r upstream = (case rt_modes r upstream of Some m \<Rightarrow> m | None \<Rightarrow> nar_url_mode_default)"

section \<open>Fetching a narinfo\<close>

definition narinfo_path :: "string \<Rightarrow> string" where
  "narinfo_path store_hash = ''/'' @ store_hash @ ''.narinfo''"

definition narinfo_verifies_any_key :: "crypto \<Rightarrow> narinfo \<Rightarrow> string list \<Rightarrow> bool" where
  "narinfo_verifies_any_key C ni keys =
     list_ex (\<lambda>key. case narinfo_verify C ni key of Ok b \<Rightarrow> b | Err _ \<Rightarrow> False) keys"

definition fetch_narinfo ::
  "crypto \<Rightarrow> env \<Rightarrow> router \<Rightarrow> string \<Rightarrow> string \<Rightarrow> hop \<Rightarrow> (router_error, bytes option \<times> narinfo) result" where
  "fetch_narinfo C ev r upstream store_hash hp =
     (case e_get ev upstream (narinfo_path store_hash) (hop_headers hp) (narinfo_timeout r upstream) of
        Err e \<Rightarrow> Err (Backend e)
      | Ok None \<Rightarrow> Err NotFound
      | Ok (Some body) \<Rightarrow>
          (case narinfo_parse body of
             Err e \<Rightarrow> Err (ParseNarinfo e)
           | Ok parsed \<Rightarrow>
               (case rt_keys r upstream of
                  Some keys \<Rightarrow>
                    if \<not> narinfo_verifies_any_key C parsed keys then Err SignatureVerificationFailed
                    else Ok (Some body, parsed)
                | None \<Rightarrow> Ok (Some body, parsed))))"

definition response_narinfo_bytes :: "router \<Rightarrow> string \<Rightarrow> string \<Rightarrow> bytes option \<Rightarrow> bytes option" where
  "response_narinfo_bytes r upstream store_hash body =
     (case body of
        None \<Rightarrow> None
      | Some body \<Rightarrow>
          let mode = nar_url_mode r upstream in
          if mode = Keep then Some body
          else Some (rewrite_narinfo_url body upstream store_hash mode))"

definition upstream_allows_narinfo :: "router \<Rightarrow> string \<Rightarrow> narinfo \<Rightarrow> bool" where
  "upstream_allows_narinfo r upstream ni = rules_allow (rt_filters r upstream) ni"

definition resolve_fallback ::
  "crypto \<Rightarrow> env \<Rightarrow> router \<Rightarrow> string \<Rightarrow> string \<Rightarrow> hop \<Rightarrow> (router_error, resolve_result) result" where
  "resolve_fallback C ev r store_hash upstream hp =
     (case fetch_narinfo C ev r upstream store_hash hp of
        Err e \<Rightarrow> Err e
      | Ok (body, _) \<Rightarrow>
          Ok \<lparr>rr_url = upstream, rr_latency_ms = e_elapsed ev, rr_cache_hit = False,
              rr_narinfo = response_narinfo_bytes r upstream store_hash body\<rparr>)"

definition upstream_nar_path ::
  "crypto \<Rightarrow> env \<Rightarrow> router \<Rightarrow> string \<Rightarrow> string \<Rightarrow> narinfo option \<Rightarrow> string option \<Rightarrow> (router_error, string) result" where
  "upstream_nar_path C ev r upstream store_hash expected_narinfo expected_compression =
     (case fetch_narinfo C ev r upstream store_hash Client of
        Err e \<Rightarrow> Err e
      | Ok (_, parsed) \<Rightarrow>
          if \<not> upstream_allows_narinfo r upstream parsed then Err NotFound
          else if (case expected_compression of Some c \<Rightarrow> compression parsed \<noteq> c | None \<Rightarrow> False) then Err NotFound
          else if (case expected_narinfo of
                Some ex \<Rightarrow> store_path parsed \<noteq> store_path ex \<or> compression parsed \<noteq> compression ex
                  \<or> file_hash parsed \<noteq> file_hash ex \<or> file_size parsed \<noteq> file_size ex
                  \<or> nar_hash parsed \<noteq> nar_hash ex \<or> nar_size parsed \<noteq> nar_size ex
              | None \<Rightarrow> False) then Err NotFound
          else Ok (''/'' @ relative_nar_url (ni_url parsed)))"

section \<open>The cached route\<close>

datatype cached_filter_check = Cached | Fetched bytes | RejectedByFilter

definition cached_route_filter_check ::
  "crypto \<Rightarrow> env \<Rightarrow> router \<Rightarrow> string \<Rightarrow> string \<Rightarrow> bytes option \<Rightarrow> hop \<Rightarrow> cached_filter_check" where
  "cached_route_filter_check C ev r upstream store_hash narinfo_bytes hp =
     (if rt_filters r upstream = None then Cached
      else if (case narinfo_bytes of
            Some bs \<Rightarrow> (case narinfo_parse bs of Ok ni \<Rightarrow> upstream_allows_narinfo r upstream ni | Err _ \<Rightarrow> False)
          | None \<Rightarrow> False) then Cached
      else (case fetch_narinfo C ev r upstream store_hash hp of
          Ok (Some body, parsed) \<Rightarrow>
            if upstream_allows_narinfo r upstream parsed then Fetched body else RejectedByFilter
        | _ \<Rightarrow> RejectedByFilter))"

text \<open>The branch of \<open>valid_cached_route\<close> that a live in-memory entry takes.\<close>

definition memory_route ::
  "crypto \<Rightarrow> env \<Rightarrow> router \<Rightarrow> string \<Rightarrow> hop \<Rightarrow> resolve_result \<Rightarrow> resolve_result option \<times> router" where
  "memory_route C ev r store_hash hp cached =
     (case cached_route_filter_check C ev r (rr_url cached) store_hash (rr_narinfo cached) hp of
        RejectedByFilter \<Rightarrow> (None, r\<lparr>rt_lru := cache_invalidate store_hash (rt_lru r)\<rparr>)
      | Cached \<Rightarrow> (Some (cached\<lparr>rr_cache_hit := True\<rparr>), metrics_add [NarinfoCacheHits] r)
      | Fetched bs \<Rightarrow>
          let result = cached\<lparr>rr_cache_hit := True,
              rr_narinfo := response_narinfo_bytes r (rr_url cached) store_hash (Some bs)\<rparr>
          in (Some result,
              metrics_add [NarinfoCacheHits] (r\<lparr>rt_lru := cache_insert (e_now ev) store_hash result (rt_lru r)\<rparr>)))"

definition db_set_route :: "jiff \<Rightarrow> env \<Rightarrow> router \<Rightarrow> route_entry \<Rightarrow> (db_error, unit) result \<times> router" where
  "db_set_route J ev r e =
     (let (res, d) = set_route J (e_fault ev CallSetRoute) (e_fault ev CallEvict) (rt_db r) e in
      (res, r\<lparr>rt_db := d\<rparr>))"

text \<open>Its branch for a database route: the bytes to serve, or nothing when the route is not usable.\<close>

definition refresh_route ::
  "crypto \<Rightarrow> jiff \<Rightarrow> env \<Rightarrow> router \<Rightarrow> string \<Rightarrow> hop \<Rightarrow> route_entry
     \<Rightarrow> (router_error, route_entry option) result \<times> router" where
  "refresh_route C J ev r store_hash hp entry =
     (let refreshed = (\<lambda>bs.
        let entry' = entry\<lparr>r_narinfo_bytes := Some bs\<rparr> in
        (case db_set_route J ev r entry' of
           (Err e, r') \<Rightarrow> (Err (RDb e), r')
         | (Ok _, r') \<Rightarrow> (Ok (Some entry'), r')))
      in case cached_route_filter_check C ev r (r_upstream_url entry) store_hash (r_narinfo_bytes entry) hp of
           Cached \<Rightarrow>
             if r_narinfo_bytes entry \<noteq> None then (Ok (Some entry), r)
             else (case fetch_narinfo C ev r (r_upstream_url entry) store_hash hp of
                 Ok (Some bs, _) \<Rightarrow> refreshed bs
               | _ \<Rightarrow> (Ok None, r))
         | Fetched bs \<Rightarrow> refreshed bs
         | RejectedByFilter \<Rightarrow> (Ok None, r))"

definition serve_route :: "env \<Rightarrow> router \<Rightarrow> string \<Rightarrow> route_entry \<Rightarrow> resolve_result \<times> router" where
  "serve_route ev r store_hash entry =
     (let result = \<lparr>rr_url = r_upstream_url entry, rr_latency_ms = r_latency_ema entry, rr_cache_hit = True,
          rr_narinfo = response_narinfo_bytes r (r_upstream_url entry) store_hash (r_narinfo_bytes entry)\<rparr>
      in (result, metrics_add [NarinfoCacheHits]
           (r\<lparr>rt_lru := cache_insert (e_now ev) store_hash result (rt_lru r)\<rparr>)))"

definition upstream_down :: "router \<Rightarrow> string \<Rightarrow> bool" where
  "upstream_down r url = (case get_health (rt_prober r) url of Some h \<Rightarrow> h_status h = Down | None \<Rightarrow> False)"

definition valid_cached_route ::
  "crypto \<Rightarrow> jiff \<Rightarrow> env \<Rightarrow> router \<Rightarrow> string \<Rightarrow> hop \<Rightarrow> (router_error, resolve_result option) result \<times> router" where
  "valid_cached_route C J ev r store_hash hp =
     (case cache_get (e_now ev) store_hash (rt_lru r) of
        (Some cached, lru) \<Rightarrow>
          (let (res, r') = memory_route C ev (r\<lparr>rt_lru := lru\<rparr>) store_hash hp cached in (Ok res, r'))
      | (None, lru) \<Rightarrow>
          let r = r\<lparr>rt_lru := lru\<rparr> in
          (case get_route J (e_fault ev CallGetRoute) (rt_db r) store_hash of
             Err e \<Rightarrow> (Err (RDb e), r)
           | Ok None \<Rightarrow> (Ok None, r)
           | Ok (Some entry) \<Rightarrow>
               if \<not> is_valid (e_ts ev) entry then (Ok None, r)
               else if upstream_down r (r_upstream_url entry) then (Ok None, r)
               else (case refresh_route C J ev r store_hash hp entry of
                   (Err e, r') \<Rightarrow> (Err e, r')
                 | (Ok None, r') \<Rightarrow> (Ok None, r')
                 | (Ok (Some entry'), r') \<Rightarrow>
                     (let (res, r'') = serve_route ev r' store_hash entry' in (Ok (Some res), r'')))))"

definition resolve_cached ::
  "crypto \<Rightarrow> jiff \<Rightarrow> env \<Rightarrow> router \<Rightarrow> string \<Rightarrow> hop \<Rightarrow> (router_error, resolve_result option) result \<times> router" where
  "resolve_cached C J ev r store_hash hp =
     (case cache_get (e_now ev) store_hash (rt_miss r) of
        (Some _, miss) \<Rightarrow> (Err NotFound, metrics_add [NarinfoMemoryNegativeHits] (r\<lparr>rt_miss := miss\<rparr>))
      | (None, miss) \<Rightarrow>
          let r = r\<lparr>rt_miss := miss\<rparr> in
          (case is_negative J (e_fault ev CallIsNegative) (e_ts ev) (rt_db r) store_hash of
             Err e \<Rightarrow> (Err (RDb e), r)
           | Ok True \<Rightarrow> (Err NotFound, r)
           | Ok False \<Rightarrow> valid_cached_route C J ev r store_hash hp))"

section \<open>Cooldown and gates\<close>

definition mark_cooldown :: "instant \<Rightarrow> router \<Rightarrow> string \<Rightarrow> router" where
  "mark_cooldown now r url = r\<lparr>rt_cooldown := (rt_cooldown r)(url \<mapsto> now + rt_cooldown_window r)\<rparr>"

definition in_cooldown :: "instant \<Rightarrow> router \<Rightarrow> string \<Rightarrow> bool \<times> router" where
  "in_cooldown now r url =
     (let cd = (case rt_cooldown r url of
          Some until \<Rightarrow> if until \<le> now then (rt_cooldown r)(url := None) else rt_cooldown r
        | None \<Rightarrow> rt_cooldown r)
      in (cd url \<noteq> None, r\<lparr>rt_cooldown := cd\<rparr>))"

fun cooldown_filtered_candidates :: "instant \<Rightarrow> router \<Rightarrow> string list \<Rightarrow> string list \<times> router" where
  "cooldown_filtered_candidates now r [] = ([], r)"
| "cooldown_filtered_candidates now r (u # us) =
     (let (cool, r1) = in_cooldown now r u;
          (kept, r2) = cooldown_filtered_candidates now r1 us
      in (if cool then kept else u # kept, r2))"

definition upstream_gate :: "router \<Rightarrow> string \<Rightarrow> hop \<Rightarrow> router" where
  "upstream_gate r upstream hp =
     (case rt_gates r (upstream, hp) of
        Some _ \<Rightarrow> r
      | None \<Rightarrow> r\<lparr>rt_gates := (rt_gates r)((upstream, hp) \<mapsto> rt_per_upstream_limit r)\<rparr>)"

section \<open>Racing one group\<close>

datatype race_attempt = Winner f64 | AttemptNotFound | AttemptNetworkError

definition race_attempt :: "env \<Rightarrow> string list \<Rightarrow> router \<Rightarrow> string \<Rightarrow> hop \<Rightarrow> string \<Rightarrow> race_attempt" where
  "race_attempt ev rnd r store_hash hp upstream =
     (case e_head ev rnd upstream (narinfo_path store_hash) (hop_headers hp) (narinfo_timeout r upstream) of
        (Ok (Some _), ms) \<Rightarrow> Winner ms
      | (Ok None, _) \<Rightarrow> AttemptNotFound
      | (Err _, _) \<Rightarrow> AttemptNetworkError)"

datatype race_group_error = GroupNotFound | GroupNetworkError | GroupTimeout

record tally =
  tl_winner :: "(string \<times> f64) option"
  tl_attempts :: nat
  tl_net_errs :: nat
  tl_not_founds :: nat

text \<open>
  The \<open>select!\<close> loop over the tasks still running. A task finishes once; the deadline, or no further
  event at all, ends the loop without a winner.
\<close>

fun race_loop ::
  "env \<Rightarrow> string list \<Rightarrow> string \<Rightarrow> hop \<Rightarrow> string list \<Rightarrow> race_event list \<Rightarrow> tally \<Rightarrow> router \<Rightarrow> tally \<times> router" where
  "race_loop ev rnd store_hash hp [] events t r = (t, r)"
| "race_loop ev rnd store_hash hp running [] t r = (t, r)"
| "race_loop ev rnd store_hash hp running (Deadline # es) t r = (t, r)"
| "race_loop ev rnd store_hash hp running (JoinFailed u # es) t r =
     (if u \<notin> set running then race_loop ev rnd store_hash hp running es t r
      else race_loop ev rnd store_hash hp (remove1 u running) es
        (t\<lparr>tl_attempts := tl_attempts t + 1, tl_net_errs := tl_net_errs t + 1\<rparr>) (metrics_add [NarinfoUpstreamAttempts] r))"
| "race_loop ev rnd store_hash hp running (Joined u # es) t r =
     (if u \<notin> set running then race_loop ev rnd store_hash hp running es t r
      else let t1 = t\<lparr>tl_attempts := tl_attempts t + 1\<rparr>; r1 = metrics_add [NarinfoUpstreamAttempts] r in
        (case race_attempt ev rnd r store_hash hp u of
           Winner ms \<Rightarrow> (t1\<lparr>tl_winner := Some (u, ms)\<rparr>, r1)
         | AttemptNetworkError \<Rightarrow>
             race_loop ev rnd store_hash hp (remove1 u running) es (t1\<lparr>tl_net_errs := tl_net_errs t + 1\<rparr>)
               (mark_cooldown (e_now ev) r1 u)
         | AttemptNotFound \<Rightarrow>
             race_loop ev rnd store_hash hp (remove1 u running) es (t1\<lparr>tl_not_founds := tl_not_founds t + 1\<rparr>) r1))"

definition race_group ::
  "env \<Rightarrow> router \<Rightarrow> string \<Rightarrow> string list \<Rightarrow> hop
     \<Rightarrow> (race_group_error, string \<times> f64) result \<times> nat \<times> router" where
  "race_group ev r store_hash grp hp =
     (let r1 = foldl (\<lambda>r u. upstream_gate r u hp) r grp;
          (t, r2) = race_loop ev grp store_hash hp grp (e_race ev grp)
            \<lparr>tl_winner = None, tl_attempts = 0, tl_net_errs = 0, tl_not_founds = 0\<rparr> r1
      in (case tl_winner t of
            Some w \<Rightarrow> (Ok w, tl_attempts t, r2)
          | None \<Rightarrow>
              (if 0 < tl_net_errs t \<and> tl_not_founds t = 0 then Err GroupNetworkError
               else if 0 < tl_not_founds t then Err GroupNotFound
               else Err GroupTimeout, tl_attempts t, r2)))"

section \<open>Committing a winner\<close>

datatype commit_outcome = Accepted resolve_result | Rejected

definition winner_entry ::
  "jiff \<Rightarrow> env \<Rightarrow> router \<Rightarrow> string \<Rightarrow> string \<Rightarrow> f64 \<Rightarrow> bytes option \<Rightarrow> narinfo \<Rightarrow> route_entry" where
  "winner_entry J ev r store_hash url ms body parsed =
     (let key = cut_query (trim_start_matches slash (ni_url parsed));
          canonical = (case nar_url_mode r url of
              ToSelf \<Rightarrow> canonical_nar_url (ni_url parsed) store_hash
            | _ \<Rightarrow> key);
          ema = (case get_health (rt_prober r) url of
              None \<Rightarrow> ms
            | Some h \<Rightarrow> ema_update (p_alpha (rt_prober r)) ms (h_ema h))
      in \<lparr>r_store_path = store_hash, r_upstream_url = url, r_latency_ms = ms, r_latency_ema = ema,
          r_last_verified = e_ts ev, r_query_count = 1, r_failure_count = 0,
          r_ttl = (case ts_add J (e_ts ev) (rt_route_ttl r) of Some t \<Rightarrow> t | None \<Rightarrow> ts_max J),
          r_nar_hash = nar_hash parsed, r_nar_size = nar_size parsed, r_nar_url = canonical,
          r_upstream_nar_url = ''/'' @ relative_nar_url (ni_url parsed), r_narinfo_bytes = body\<rparr>)"

definition commit_winner ::
  "crypto \<Rightarrow> jiff \<Rightarrow> env \<Rightarrow> router \<Rightarrow> string \<times> f64 \<Rightarrow> string \<Rightarrow> hop
     \<Rightarrow> (router_error, commit_outcome) result \<times> router" where
  "commit_winner C J ev r winner store_hash hp =
     (let (url, ms) = winner in
      case fetch_narinfo C ev r url store_hash hp of
        Err e \<Rightarrow> (Err e, r)
      | Ok (body, parsed) \<Rightarrow>
          if \<not> upstream_allows_narinfo r url parsed then (Ok Rejected, r)
          else
            let r1 = metrics_add [UpstreamRaceWins url, UpstreamLatency url (f_div ms (Fin 1000))] r;
                entry = winner_entry J ev r store_hash url ms body parsed;
                r2 = r1\<lparr>rt_prober := record_latency (rt_prober r1) (e_now ev) url ms\<rparr>
            in (case db_set_route J ev r2 entry of
                  (Err e, r3) \<Rightarrow> (Err (RDb e), r3)
                | (Ok _, r3) \<Rightarrow>
                    let result = \<lparr>rr_url = url, rr_latency_ms = ms, rr_cache_hit = False,
                        rr_narinfo = response_narinfo_bytes r3 url store_hash body\<rparr>
                    in (Ok (Accepted result),
                        r3\<lparr>rt_lru := cache_insert (e_now ev) store_hash result (rt_lru r3)\<rparr>)))"

definition commit_error_is_retryable :: "router_error \<Rightarrow> bool" where
  "commit_error_is_retryable err = (case err of
     NotFound \<Rightarrow> True | SignatureVerificationFailed \<Rightarrow> True | ParseNarinfo _ \<Rightarrow> True | Backend _ \<Rightarrow> True | _ \<Rightarrow> False)"

definition commit_error_is_network_like :: "router_error \<Rightarrow> bool" where
  "commit_error_is_network_like err = (case err of Backend _ \<Rightarrow> True | _ \<Rightarrow> False)"

section \<open>The race\<close>

definition priority_of :: "router \<Rightarrow> string \<Rightarrow> int" where
  "priority_of r url = (case get_health (rt_prober r) url of None \<Rightarrow> i32_max | Some h \<Rightarrow> h_priority h)"

text \<open>The \<open>BTreeMap\<close> of the candidates by priority, in ascending order.\<close>

definition group_by_priority :: "router \<Rightarrow> string list \<Rightarrow> string list list" where
  "group_by_priority r urls =
     map (\<lambda>p. filter (\<lambda>u. priority_of r u = p) urls) (remdups_adj (sort (map (priority_of r) urls)))"

record race_state =
  rs_router :: router
  rs_any_not_found :: bool
  rs_attempts :: nat

datatype race_outcome = RaceDone "(router_error, resolve_result) result" router | RaceNext race_state

lemma race_loop_winner:
  "race_loop ev rnd h hp running es t r = (t', r') \<Longrightarrow> tl_winner t = None \<Longrightarrow> tl_winner t' = Some (u, ms) \<Longrightarrow>
     u \<in> set running"
proof (induction ev rnd h hp running es t r arbitrary: t' r' rule: race_loop.induct)
  case (5 ev rnd h hp v va u' es t r)
  then show ?case
    by (auto simp: Let_def split: if_splits race_attempt.splits dest: notin_set_remove1)
next
  case (4 ev rnd h hp v va u' es t r)
  then show ?case by (auto split: if_splits dest: notin_set_remove1)
qed auto

lemma race_group_winner:
  "race_group ev r h grp hp = (Ok (u, ms), n, r') \<Longrightarrow> u \<in> set grp"
  by (auto simp: race_group_def Let_def split: prod.splits option.splits if_splits dest: race_loop_winner)

text \<open>
  The inner loop over one group: race what is left of it, commit the winner, drop a winner that
  cannot be committed and race again. A winner is one of the group, so the group shrinks.
\<close>

function race_while ::
  "crypto \<Rightarrow> jiff \<Rightarrow> env \<Rightarrow> string \<Rightarrow> hop \<Rightarrow> string list \<Rightarrow> race_state \<Rightarrow> race_outcome" where
  "race_while C J ev store_hash hp grp st =
     (if grp = [] then RaceNext st
      else case race_group ev (rs_router st) store_hash grp hp of
        (Ok (winner_url, ms), attempts, r) \<Rightarrow>
          (let total = rs_attempts st + attempts;
               rest = filter (\<lambda>u. u \<noteq> winner_url) grp
           in case commit_winner C J ev r (winner_url, ms) store_hash hp of
                (Ok (Accepted result), r1) \<Rightarrow>
                  RaceDone (Ok result) (metrics_add [AttemptsPerResolve ''success'' total] r1)
              | (Ok Rejected, r1) \<Rightarrow>
                  race_while C J ev store_hash hp rest
                    \<lparr>rs_router = r1, rs_any_not_found = True, rs_attempts = total\<rparr>
              | (Err err, r1) \<Rightarrow>
                  (if commit_error_is_retryable err then
                     (if commit_error_is_network_like err then
                        race_while C J ev store_hash hp rest
                          \<lparr>rs_router = mark_cooldown (e_now ev) r1 winner_url,
                           rs_any_not_found = rs_any_not_found st, rs_attempts = total\<rparr>
                      else
                        race_while C J ev store_hash hp rest
                          \<lparr>rs_router = r1, rs_any_not_found = True, rs_attempts = total\<rparr>)
                   else RaceDone (Err err) r1))
      | (Err err, attempts, r) \<Rightarrow>
          RaceNext \<lparr>rs_router = r,
            rs_any_not_found = (if err = GroupNotFound then True else rs_any_not_found st),
            rs_attempts = rs_attempts st + attempts\<rparr>)"
  by pat_completeness auto
termination
proof (relation "measure (\<lambda>(C, J, ev, h, hp, grp, st). length grp)", goal_cases)
  case 1
  show ?case by simp
qed (auto dest!: race_group_winner[OF sym] intro!: length_filter_less)

declare race_while.simps [simp del]

fun race_groups ::
  "crypto \<Rightarrow> jiff \<Rightarrow> env \<Rightarrow> string \<Rightarrow> hop \<Rightarrow> string list list \<Rightarrow> race_state \<Rightarrow> race_outcome" where
  "race_groups C J ev store_hash hp [] st = RaceNext st"
| "race_groups C J ev store_hash hp (grp # groups) st =
     (case race_while C J ev store_hash hp grp st of
        RaceDone res r \<Rightarrow> RaceDone res r
      | RaceNext st' \<Rightarrow> race_groups C J ev store_hash hp groups st')"

text \<open>A client's race waits for a permit, and how long is observed.\<close>

definition race_permit :: "env \<Rightarrow> router \<Rightarrow> hop \<Rightarrow> router" where
  "race_permit ev r hp = (if hp = Client then metrics_add [NarinfoRaceWait (e_waited ev)] r else r)"

definition race ::
  "crypto \<Rightarrow> jiff \<Rightarrow> env \<Rightarrow> router \<Rightarrow> string \<Rightarrow> string list \<Rightarrow> hop
     \<Rightarrow> (router_error, resolve_result) result \<times> router" where
  "race C J ev r store_hash candidates hp =
     (if candidates = [] then (Err (NoCandidates store_hash), r)
      else
        let (filtered, r1) = cooldown_filtered_candidates (e_now ev) (race_permit ev r hp) candidates;
            effective = (if filtered = [] then candidates else filtered)
        in case race_groups C J ev store_hash hp (group_by_priority r1 effective)
               \<lparr>rs_router = r1, rs_any_not_found = False, rs_attempts = 0\<rparr> of
             RaceDone res r2 \<Rightarrow> (res, r2)
           | RaceNext st \<Rightarrow>
               if rs_any_not_found st
               then (Err NotFound, metrics_add [AttemptsPerResolve ''not_found'' (rs_attempts st)] (rs_router st))
               else (Err UpstreamUnavailable,
                     metrics_add [AttemptsPerResolve ''unavailable'' (rs_attempts st)] (rs_router st)))"

section \<open>Resolution\<close>

text \<open>The negative entries of a client's confirmed miss; a failure of the database is ignored.\<close>

definition remember_miss :: "jiff \<Rightarrow> env \<Rightarrow> router \<Rightarrow> string \<Rightarrow> router" where
  "remember_miss J ev r store_hash =
     (let r1 = r\<lparr>rt_miss := cache_insert (e_now ev) store_hash () (rt_miss r)\<rparr> in
      r1\<lparr>rt_db := snd (set_negative J (e_fault ev CallSetNegative) (e_ts ev) (rt_db r1) store_hash (rt_negative_ttl r1))\<rparr>)"

text \<open>
  \<open>resolve\<close> sees three moments: the first look at the caches, the second one behind the
  single-flight lock (where other tasks may have changed the state, \<open>others\<close>), and the race.
  Only a client's request takes the lock and looks twice; whether it finds the lock on record is
  \<open>e_contended\<close>, which \<open>Flight\<close> computes from the tasks in flight.
\<close>

definition count_miss :: "env \<Rightarrow> router \<Rightarrow> hop \<Rightarrow> router" where
  "count_miss ev r hp = metrics_add
     (NarinfoCacheMisses # (if hp = Client \<and> e_contended ev then [NarinfoSingleflightWaiters] else [])) r"

definition resolve ::
  "crypto \<Rightarrow> jiff \<Rightarrow> env \<Rightarrow> env \<Rightarrow> env \<Rightarrow> (router \<Rightarrow> router) \<Rightarrow> router \<Rightarrow> string \<Rightarrow> string list \<Rightarrow> hop
     \<Rightarrow> (router_error, resolve_result) result \<times> router" where
  "resolve C J ev1 ev2 ev3 others r store_hash candidates hp =
     (case resolve_cached C J ev1 r store_hash hp of
        (Err e, r1) \<Rightarrow> (Err e, r1)
      | (Ok (Some result), r1) \<Rightarrow> (Ok result, r1)
      | (Ok None, r1) \<Rightarrow>
          if hp = PeerOfPeer then (Err NotFound, r1)
          else
            let r2 = count_miss ev2 r1 hp;
                (cached, r3) = (if hp = Client then resolve_cached C J ev2 (others r2) store_hash hp else (Ok None, r2))
            in (case cached of
                  Err e \<Rightarrow> (Err e, r3)
                | Ok (Some result) \<Rightarrow> (Ok result, r3)
                | Ok None \<Rightarrow>
                    let (result, r4) = race C J ev3 r3 store_hash candidates hp in
                    (result, if hp = Client \<and> result = Err NotFound then remember_miss J ev3 r4 store_hash else r4)))"

end
