(* ===== verification/RouterProps.thy ===== *)
theory RouterProps
  imports Router
begin

text \<open>
  What the router guarantees: configuration is untouched by requests, whatever a race serves was
  verified and admitted, network failures never count as misses, a confirmed miss is remembered
  for clients only, an accepted route is served from memory afterwards, and requests between
  instances stop after two hops.
\<close>

section \<open>The configuration is read-only for requests\<close>

definition same_config :: "router \<Rightarrow> router \<Rightarrow> bool" where
  "same_config r r' \<longleftrightarrow> rt_keys r' = rt_keys r \<and> rt_filters r' = rt_filters r \<and> rt_modes r' = rt_modes r \<and>
     rt_timeouts r' = rt_timeouts r \<and> rt_race_timeout r' = rt_race_timeout r \<and>
     rt_route_ttl r' = rt_route_ttl r \<and> rt_negative_ttl r' = rt_negative_ttl r \<and>
     rt_cooldown_window r' = rt_cooldown_window r"

named_theorems config_simps \<open>requests keep the configuration\<close>

lemma same_config_refl [config_simps]: "same_config r r"
  by (simp add: same_config_def)

lemma same_config_trans: "same_config r r' \<Longrightarrow> same_config r' r'' \<Longrightarrow> same_config r r''"
  by (simp add: same_config_def)

lemma same_config_updates [config_simps]:
  "same_config r (r'\<lparr>rt_db := d\<rparr>) = same_config r r'"
  "same_config r (r'\<lparr>rt_prober := p\<rparr>) = same_config r r'"
  "same_config r (r'\<lparr>rt_lru := c\<rparr>) = same_config r r'"
  "same_config r (r'\<lparr>rt_miss := m\<rparr>) = same_config r r'"
  "same_config r (r'\<lparr>rt_cooldown := cd\<rparr>) = same_config r r'"
  "same_config r (r'\<lparr>rt_gates := g\<rparr>) = same_config r r'"
  "same_config r (metrics_add ms r') = same_config r r'"
  "same_config r (mark_cooldown now r' u) = same_config r r'"
  by (simp_all add: same_config_def metrics_add_def mark_cooldown_def)

lemma same_config_db_set_route [config_simps]: "db_set_route J ev r e = (res, r') \<Longrightarrow> same_config r r'"
  by (auto simp: db_set_route_def config_simps split: prod.splits)

lemma same_config_gate: "same_config r r' \<Longrightarrow> same_config r (upstream_gate r' u hp)"
  by (auto simp: upstream_gate_def config_simps split: option.split)

lemma same_config_gates: "same_config r r' \<Longrightarrow> same_config r (foldl (\<lambda>r u. upstream_gate r u hp) r' grp)"
  by (induction grp arbitrary: r') (auto simp: same_config_gate)

lemma same_config_race_loop:
  "race_loop ev rnd h hp running es t r = (t', r') \<Longrightarrow> same_config r r'"
proof (induction ev rnd h hp running es t r arbitrary: t' r' rule: race_loop.induct)
  case (4 ev rnd h hp v va u es t r)
  then show ?case
    by (cases "u \<in> set (v # va)") (auto simp del: set_simps simp: config_simps same_config_def metrics_add_def)
next
  case (5 ev rnd h hp v va u es t r)
  show ?case
  proof (cases "u \<in> set (v # va)")
    case False
    with 5 show ?thesis by simp
  next
    case True
    then show ?thesis
    proof (cases "race_attempt ev rnd r h hp u")
      case (Winner ms)
      with True "5.prems" show ?thesis by (auto simp: config_simps Let_def)
    next
      case AttemptNotFound
      with True "5.prems" "5.IH"(2)[OF _ refl refl AttemptNotFound] show ?thesis
        by (auto simp: Let_def same_config_def metrics_add_def)
    next
      case AttemptNetworkError
      with True "5.prems" "5.IH"(3)[OF _ refl refl AttemptNetworkError] show ?thesis
        by (auto simp: Let_def same_config_def metrics_add_def mark_cooldown_def)
    qed
  qed
qed (auto simp: config_simps)

lemma same_config_race_group: "race_group ev r h grp hp = (res, n, r') \<Longrightarrow> same_config r r'"
  unfolding race_group_def Let_def
  by (auto split: prod.splits option.splits
      intro: same_config_trans[OF same_config_gates[OF same_config_refl] same_config_race_loop])

lemma same_config_commit: "commit_winner C J ev r w h hp = (res, r') \<Longrightarrow> same_config r r'"
  unfolding commit_winner_def Let_def
  by (auto simp: config_simps split: prod.splits sum.splits if_splits
      dest!: same_config_db_set_route) (auto simp: same_config_def metrics_add_def)

lemma same_config_permit [config_simps]: "same_config r (race_permit ev r hp)"
  by (simp add: race_permit_def config_simps)

lemma same_config_cooldown: "cooldown_filtered_candidates now r us = (kept, r') \<Longrightarrow> same_config r r'"
  by (induction now r us arbitrary: kept r' rule: cooldown_filtered_candidates.induct)
    (auto simp: same_config_def in_cooldown_def Let_def split: prod.splits if_splits)

section \<open>What a race serves\<close>

definition admissible :: "crypto \<Rightarrow> env \<Rightarrow> router \<Rightarrow> string \<Rightarrow> hop \<Rightarrow> string \<Rightarrow> bytes \<Rightarrow> narinfo \<Rightarrow> bool" where
  "admissible C ev r h hp u body ni \<longleftrightarrow>
     e_get ev u (narinfo_path h) (hop_headers hp) (narinfo_timeout r u) = Ok (Some body) \<and>
     narinfo_parse body = Ok ni \<and>
     (\<forall>keys. rt_keys r u = Some keys \<longrightarrow> (\<exists>k \<in> set keys. narinfo_verify C ni k = Ok True)) \<and>
     rules_allow (rt_filters r u) ni"

definition serves :: "crypto \<Rightarrow> env \<Rightarrow> router \<Rightarrow> string \<Rightarrow> hop \<Rightarrow> resolve_result \<Rightarrow> bool" where
  "serves C ev r h hp rr \<longleftrightarrow> \<not> rr_cache_hit rr \<and>
     (\<exists>body ni. admissible C ev r h hp (rr_url rr) body ni \<and>
        rr_narinfo rr = response_narinfo_bytes r (rr_url rr) h (Some body))"

lemma verifies_any_iff:
  "narinfo_verifies_any_key C ni keys \<longleftrightarrow> (\<exists>k \<in> set keys. narinfo_verify C ni k = Ok True)"
proof -
  have "(case x of Ok b \<Rightarrow> b | Err _ \<Rightarrow> False) \<longleftrightarrow> x = Ok True" for x :: "(narinfo_error, bool) result"
    by (cases x) auto
  then show ?thesis by (simp add: narinfo_verifies_any_key_def list_ex_iff)
qed

lemma fetch_narinfo_Ok:
  "fetch_narinfo C ev r u h hp = Ok (b, ni) \<Longrightarrow> \<exists>body. b = Some body \<and>
     e_get ev u (narinfo_path h) (hop_headers hp) (narinfo_timeout r u) = Ok (Some body) \<and>
     narinfo_parse body = Ok ni \<and>
     (\<forall>keys. rt_keys r u = Some keys \<longrightarrow> (\<exists>k \<in> set keys. narinfo_verify C ni k = Ok True))"
  by (auto simp: fetch_narinfo_def verifies_any_iff split: sum.splits option.splits if_splits)

lemma fetch_narinfo_Err:
  "fetch_narinfo C ev r u h hp = Err e \<Longrightarrow> commit_error_is_retryable e"
  by (auto simp: fetch_narinfo_def commit_error_is_retryable_def split: sum.splits option.splits if_splits)

lemma config_cong:
  assumes "same_config r r'"
  shows "narinfo_timeout r' u = narinfo_timeout r u" "rt_keys r' = rt_keys r" "rt_filters r' = rt_filters r"
    "response_narinfo_bytes r' u h b = response_narinfo_bytes r u h b" "nar_url_mode r' u = nar_url_mode r u"
    "fetch_narinfo C ev r' u h hp = fetch_narinfo C ev r u h hp"
    "race_attempt ev rnd r' h hp u = race_attempt ev rnd r h hp u"
    "admissible C ev r' h hp u body ni = admissible C ev r h hp u body ni"
proof -
  show t: "narinfo_timeout r' u = narinfo_timeout r u" for u
    using assms by (simp add: same_config_def narinfo_timeout_def split: option.split)
  show m: "nar_url_mode r' u = nar_url_mode r u" for u using assms by (simp add: same_config_def nar_url_mode_def)
  show k: "rt_keys r' = rt_keys r" and f: "rt_filters r' = rt_filters r" using assms by (simp_all add: same_config_def)
  show "response_narinfo_bytes r' u h b = response_narinfo_bytes r u h b" by (simp only: response_narinfo_bytes_def m)
  show "fetch_narinfo C ev r' u h hp = fetch_narinfo C ev r u h hp" by (simp only: fetch_narinfo_def t k)
  show "race_attempt ev rnd r' h hp u = race_attempt ev rnd r h hp u" by (simp only: race_attempt_def t)
  show "admissible C ev r' h hp u body ni = admissible C ev r h hp u body ni" by (simp only: admissible_def t k f)
qed

lemma serves_cong: "same_config r r' \<Longrightarrow> serves C ev r' h hp rr = serves C ev r h hp rr"
  by (simp add: serves_def config_cong)

lemma commit_winner_cases:
  assumes "commit_winner C J ev r (u, ms) h hp = (res, r')"
  shows "case res of
      Ok (Accepted rr) \<Rightarrow> rr_url rr = u \<and> serves C ev r h hp rr \<and>
        fst (cache_get (e_now ev) h (rt_lru r')) = (if cache_inv ttl (rt_lru r) \<and> 0 < ttl then Some rr
           else fst (cache_get (e_now ev) h (rt_lru r')))
    | Ok Rejected \<Rightarrow> r' = r \<and> (\<exists>b ni. fetch_narinfo C ev r u h hp = Ok (b, ni) \<and> \<not> upstream_allows_narinfo r u ni)
    | Err e \<Rightarrow> commit_error_is_retryable e \<and> r' = r \<and> fetch_narinfo C ev r u h hp = Err e \<or> (\<exists>d. e = RDb d)"
proof (cases "fetch_narinfo C ev r u h hp")
  case (Inl e)
  with assms fetch_narinfo_Err[OF Inl] show ?thesis by (auto simp: commit_winner_def)
next
  case (Inr p)
  obtain b ni where p: "p = (b, ni)" by (cases p)
  from fetch_narinfo_Ok[OF Inr[unfolded p]] obtain body where body: "b = Some body"
    "e_get ev u (narinfo_path h) (hop_headers hp) (narinfo_timeout r u) = Ok (Some body)" "narinfo_parse body = Ok ni"
    "\<forall>keys. rt_keys r u = Some keys \<longrightarrow> (\<exists>k \<in> set keys. narinfo_verify C ni k = Ok True)" by blast
  show ?thesis
  proof (cases "upstream_allows_narinfo r u ni")
    case False
    with assms Inr p show ?thesis by (auto simp: commit_winner_def)
  next
    case True
    with body have ad: "admissible C ev r h hp u body ni"
      by (auto simp: admissible_def upstream_allows_narinfo_def)
    let ?r1 = "metrics_add [UpstreamRaceWins u, UpstreamLatency u (f_div ms (Fin 1000))] r"
    let ?r2 = "?r1\<lparr>rt_prober := record_latency (rt_prober ?r1) (e_now ev) u ms\<rparr>"
    obtain w r3 where w: "db_set_route J ev ?r2 (winner_entry J ev r h u ms b ni) = (w, r3)" by fastforce
    have cfg: "same_config r r3"
      using same_config_db_set_route[OF w] by (auto simp: same_config_def metrics_add_def)
    have lru: "rt_lru r3 = rt_lru r" using w by (auto simp: db_set_route_def metrics_add_def split: prod.splits)
    show ?thesis
    proof (cases w)
      case (Inl e)
      with assms Inr p True w show ?thesis by (auto simp: commit_winner_def Let_def)
    next
      case (Inr x)
      let ?rr = "\<lparr>rr_url = u, rr_latency_ms = ms, rr_cache_hit = False, rr_narinfo = response_narinfo_bytes r3 u h b\<rparr>"
      from assms Inr \<open>fetch_narinfo C ev r u h hp = Inr p\<close> p True w have
        res: "res = Ok (Accepted ?rr)" "r' = r3\<lparr>rt_lru := cache_insert (e_now ev) h ?rr (rt_lru r3)\<rparr>"
        by (auto simp: commit_winner_def Let_def)
      have "serves C ev r h hp ?rr"
        using ad body(1) by (auto simp: serves_def config_cong(4)[OF cfg])
      moreover have "fst (cache_get (e_now ev) h (cache_insert (e_now ev) h ?rr (rt_lru r))) = Some ?rr"
        if "cache_inv ttl (rt_lru r)" "0 < ttl"
        using lru.lookup_ins[OF that(1), of "e_now ev" h "e_now ev" ?rr] that(2) by simp
      ultimately show ?thesis by (simp add: res lru)
    qed
  qed
qed

text \<open>
  An upstream that gives reason to conclude that the path is absent: its HEAD says so, or it won
  and its narinfo was missing, malformed, unsigned or filtered.
\<close>

definition says_absent :: "crypto \<Rightarrow> env \<Rightarrow> router \<Rightarrow> string \<Rightarrow> hop \<Rightarrow> string \<Rightarrow> bool" where
  "says_absent C ev r h hp u \<longleftrightarrow>
     (\<exists>rnd. race_attempt ev rnd r h hp u = AttemptNotFound) \<or>
     (\<exists>rnd ms. race_attempt ev rnd r h hp u = Winner ms) \<and>
       (case fetch_narinfo C ev r u h hp of
          Err e \<Rightarrow> \<not> commit_error_is_network_like e
        | Ok (_, ni) \<Rightarrow> \<not> upstream_allows_narinfo r u ni)"

lemma says_absent_cong: "same_config r r' \<Longrightarrow> says_absent C ev r' h hp u = says_absent C ev r h hp u"
  by (simp only: says_absent_def config_cong upstream_allows_narinfo_def)

lemma race_loop_evidence:
  assumes "race_loop ev rnd h hp running es t r = (t', r')" "tl_winner t = None" "same_config r0 r"
  shows "(tl_not_founds t < tl_not_founds t' \<longrightarrow> (\<exists>u \<in> set running. race_attempt ev rnd r0 h hp u = AttemptNotFound)) \<and>
    (\<forall>u ms. tl_winner t' = Some (u, ms) \<longrightarrow> race_attempt ev rnd r0 h hp u = Winner ms) \<and> tl_not_founds t \<le> tl_not_founds t'"
  using assms
proof (induction ev rnd h hp running es t r arbitrary: t' r' rule: race_loop.induct)
  case (4 ev rnd h hp v va u es t r)
  have sub: "set (remove1 u (v # va)) \<subseteq> set (v # va)" by (rule set_remove1_subset)
  show ?case
  proof (cases "u \<in> set (v # va)")
    case False
    with 4 show ?thesis by simp
  next
    case True
    then have "race_loop ev rnd h hp (remove1 u (v # va)) es
        (t\<lparr>tl_attempts := tl_attempts t + 1, tl_net_errs := tl_net_errs t + 1\<rparr>)
        (metrics_add [NarinfoUpstreamAttempts] r) = (t', r')" using "4.prems"(1) by simp
    from "4.IH"(2)[OF _ this] True "4.prems"(2,3)
    have "tl_not_founds t < tl_not_founds t' \<longrightarrow> (\<exists>u \<in> set (remove1 u (v # va)). race_attempt ev rnd r0 h hp u = AttemptNotFound)"
      "\<forall>u ms. tl_winner t' = Some (u, ms) \<longrightarrow> race_attempt ev rnd r0 h hp u = Winner ms"
      "tl_not_founds t \<le> tl_not_founds t'"
      by (simp_all add: config_simps del: remove1.simps)
    with sub show ?thesis by blast
  qed
next
  case (5 ev rnd h hp v va u es t r)
  show ?case
  proof (cases "u \<in> set (v # va)")
    case False
    with 5 show ?thesis by simp
  next
    case True
    have att: "race_attempt ev rnd r h hp u = race_attempt ev rnd r0 h hp u"
      using config_cong(7)[OF "5.prems"(3)] .
    have sub: "set (remove1 u (v # va)) \<subseteq> set (v # va)" by (rule set_remove1_subset)
    show ?thesis
    proof (cases "race_attempt ev rnd r h hp u")
      case (Winner ms)
      with True "5.prems"(1) have "t' = t\<lparr>tl_attempts := tl_attempts t + 1, tl_winner := Some (u, ms)\<rparr>"
        by (simp add: Let_def)
      with Winner att show ?thesis by simp
    next
      case AttemptNotFound
      with True have
        "race_loop ev rnd h hp (remove1 u (v # va)) es
           (t\<lparr>tl_attempts := tl_attempts t + 1\<rparr>\<lparr>tl_not_founds := tl_not_founds t + 1\<rparr>)
           (metrics_add [NarinfoUpstreamAttempts] r) = (t', r')"
        using "5.prems"(1) by (simp add: Let_def)
      from "5.IH"(2)[OF _ refl refl AttemptNotFound this] True "5.prems"(2,3) AttemptNotFound att
      have "\<forall>u ms. tl_winner t' = Some (u, ms) \<longrightarrow> race_attempt ev rnd r0 h hp u = Winner ms"
        "tl_not_founds t \<le> tl_not_founds t'" "race_attempt ev rnd r0 h hp u = AttemptNotFound"
        by (simp_all add: config_simps)
      with True show ?thesis by blast
    next
      case AttemptNetworkError
      with True have
        "race_loop ev rnd h hp (remove1 u (v # va)) es
           (t\<lparr>tl_attempts := tl_attempts t + 1\<rparr>\<lparr>tl_net_errs := tl_net_errs t + 1\<rparr>)
           (mark_cooldown (e_now ev) (metrics_add [NarinfoUpstreamAttempts] r) u) = (t', r')"
        using "5.prems"(1) by (simp add: Let_def)
      from "5.IH"(3)[OF _ refl refl AttemptNetworkError this] True "5.prems"(2,3)
      have "tl_not_founds t < tl_not_founds t' \<longrightarrow> (\<exists>u \<in> set (remove1 u (v # va)). race_attempt ev rnd r0 h hp u = AttemptNotFound)"
        "\<forall>u ms. tl_winner t' = Some (u, ms) \<longrightarrow> race_attempt ev rnd r0 h hp u = Winner ms"
        "tl_not_founds t \<le> tl_not_founds t'"
        by (simp_all add: config_simps del: remove1.simps)
      with sub show ?thesis by blast
    qed
  qed
qed auto

lemma race_group_evidence:
  assumes "race_group ev r h grp hp = (res, n, r')" "same_config r0 r"
  shows "(res = Err GroupNotFound \<longrightarrow> (\<exists>u \<in> set grp. race_attempt ev grp r0 h hp u = AttemptNotFound)) \<and>
    (\<forall>u ms. res = Ok (u, ms) \<longrightarrow> race_attempt ev grp r0 h hp u = Winner ms)"
proof -
  let ?t0 = "\<lparr>tl_winner = None, tl_attempts = 0, tl_net_errs = 0, tl_not_founds = 0\<rparr>"
  obtain t' r2 where l: "race_loop ev grp h hp grp (e_race ev grp) ?t0 (foldl (\<lambda>r u. upstream_gate r u hp) r grp) = (t', r2)"
    by fastforce
  from race_loop_evidence[OF l _ same_config_gates[OF assms(2)]] assms(1) l show ?thesis
    by (auto simp: race_group_def Let_def split: option.splits if_splits)
qed

definition race_outcome_ok ::
  "crypto \<Rightarrow> env \<Rightarrow> router \<Rightarrow> string \<Rightarrow> hop \<Rightarrow> bool \<Rightarrow> string set \<Rightarrow> race_outcome \<Rightarrow> bool" where
  "race_outcome_ok C ev r h hp absent us out = (case out of
      RaceDone (Ok rr) r' \<Rightarrow> same_config r r' \<and> rr_url rr \<in> us \<and> serves C ev r h hp rr
    | RaceDone (Err e) r' \<Rightarrow> same_config r r' \<and> (\<exists>d. e = RDb d)
    | RaceNext st \<Rightarrow> same_config r (rs_router st) \<and>
        (rs_any_not_found st \<longrightarrow> absent \<or> (\<exists>u \<in> us. says_absent C ev r h hp u)))"

lemma race_outcome_ok_mono:
  assumes "race_outcome_ok C ev r' h hp absent' us out" "same_config r r'" "us \<subseteq> us'"
    and "absent' \<Longrightarrow> absent \<or> (\<exists>u \<in> us'. says_absent C ev r h hp u)"
  shows "race_outcome_ok C ev r h hp absent us' out"
proof (cases out)
  case (RaceDone res r'')
  with assms show ?thesis
    by (cases res) (auto simp: race_outcome_ok_def serves_cong intro: same_config_trans)
next
  case (RaceNext st)
  with assms(1) have "same_config r' (rs_router st)"
    "rs_any_not_found st \<longrightarrow> absent' \<or> (\<exists>u \<in> us. says_absent C ev r' h hp u)" by (auto simp: race_outcome_ok_def)
  with RaceNext assms(2-4) show ?thesis
    by (auto simp: race_outcome_ok_def says_absent_cong[OF assms(2)] intro: same_config_trans)
qed

lemma race_while_ok:
  "race_outcome_ok C ev (rs_router st) h hp (rs_any_not_found st) (set grp) (race_while C J ev h hp grp st)"
proof (induction C J ev h hp grp st rule: race_while.induct)
  case (1 C J ev h hp grp st)
  show ?case
  proof (cases "grp = []")
    case True
    then show ?thesis by (simp add: race_while.simps race_outcome_ok_def config_simps)
  next
    case False
    obtain gres n r where g: "race_group ev (rs_router st) h grp hp = (gres, n, r)" by (metis prod_cases3)
    have cg: "same_config (rs_router st) r" by (rule same_config_race_group[OF g])
    show ?thesis
    proof (cases gres)
      case (Inl e)
      from race_group_evidence[OF g same_config_refl] Inl have
        "e = GroupNotFound \<longrightarrow> (\<exists>u \<in> set grp. says_absent C ev (rs_router st) h hp u)"
        by (auto simp: says_absent_def)
      with Inl False g cg show ?thesis
        by (auto simp: race_while.simps[of C J ev h hp grp] race_outcome_ok_def)
    next
      case (Inr w)
      obtain u ms where w: "w = (u, ms)" by (cases w)
      note g = g[unfolded Inr w]
      have u: "u \<in> set grp" by (rule race_group_winner[OF g])
      obtain cres r1 where c: "commit_winner C J ev r (u, ms) h hp = (cres, r1)" by fastforce
      have c1: "same_config (rs_router st) r1" by (rule same_config_trans[OF cg same_config_commit[OF c]])
      note cc = commit_winner_cases[OF c]
      note unfold = race_while.simps[of C J ev h hp grp st]
      have won: "race_attempt ev grp (rs_router st) h hp u = Winner ms"
        using race_group_evidence[OF g same_config_refl] by blast
      have next_ok: "race_outcome_ok C ev (rs_router st) h hp (rs_any_not_found st) (set grp)
          (race_while C J ev h hp (filter (\<lambda>x. x \<noteq> u) grp) st')"
        if "race_outcome_ok C ev (rs_router st') h hp (rs_any_not_found st') (set (filter (\<lambda>x. x \<noteq> u) grp))
            (race_while C J ev h hp (filter (\<lambda>x. x \<noteq> u) grp) st')"
          "same_config (rs_router st) (rs_router st')"
          "rs_any_not_found st' \<Longrightarrow> rs_any_not_found st \<or> says_absent C ev (rs_router st) h hp u" for st'
        by (rule race_outcome_ok_mono[OF that(1,2)]) (use u that(3) in auto)
      show ?thesis
      proof (cases cres)
        case (Inl err)
        note IH = "1.IH"(1)[OF False g[symmetric] refl refl refl refl refl c[symmetric] Inl]
          "1.IH"(2)[OF False g[symmetric] refl refl refl refl refl c[symmetric] Inl]
        show ?thesis
        proof (cases "commit_error_is_retryable err")
          case True
          with cc Inl have "err \<noteq> UpstreamUnavailable \<and> fetch_narinfo C ev r u h hp = Err err"
            by (auto simp: commit_error_is_retryable_def)
          with won have ab: "\<not> commit_error_is_network_like err \<Longrightarrow> says_absent C ev (rs_router st) h hp u"
            by (auto simp: says_absent_def config_cong(6)[OF cg])
          show ?thesis
          proof (cases "commit_error_is_network_like err")
            case net: True
            from next_ok[OF IH(1)[OF True net]] c1 False g c Inl True net show ?thesis
              by (simp add: unfold Let_def config_simps)
          next
            case net: False
            from next_ok[OF IH(2)[OF True net]] c1 False g c Inl True net ab show ?thesis
              by (simp add: unfold Let_def)
          qed
        next
          case nr: False
          with cc Inl have "\<exists>d. err = RDb d" by auto
          with False g c Inl nr c1 show ?thesis by (auto simp: unfold Let_def race_outcome_ok_def)
        qed
      next
        case (Inr co)
        show ?thesis
        proof (cases co)
          case (Accepted rr)
          with cc Inr have "rr_url rr = u" "serves C ev r h hp rr" by auto
          with False g c Inr Accepted u c1 serves_cong[OF cg] show ?thesis
            by (simp add: unfold Let_def race_outcome_ok_def config_simps)
        next
          case Rejected
          note IH = "1.IH"(3)[OF False g[symmetric] refl refl refl refl refl c[symmetric] Inr Rejected]
          from cc Inr Rejected obtain b ni where "fetch_narinfo C ev r u h hp = Ok (b, ni)" "\<not> upstream_allows_narinfo r u ni"
            by auto
          with won have "says_absent C ev (rs_router st) h hp u"
            by (auto simp: says_absent_def config_cong(3,6)[OF cg] upstream_allows_narinfo_def)
          with next_ok[OF IH] c1 False g c Inr Rejected show ?thesis by (simp add: unfold Let_def)
        qed
      qed
    qed
  qed
qed

lemma race_groups_ok:
  "race_outcome_ok C ev (rs_router st) h hp (rs_any_not_found st) (\<Union> (set ` set grps))
     (race_groups C J ev h hp grps st)"
proof (induction grps arbitrary: st)
  case Nil
  show ?case by (simp add: race_outcome_ok_def config_simps)
next
  case (Cons grp grps)
  have w: "race_outcome_ok C ev (rs_router st) h hp (rs_any_not_found st) (set grp) (race_while C J ev h hp grp st)"
    by (rule race_while_ok)
  show ?case
  proof (cases "race_while C J ev h hp grp st")
    case (RaceDone res r')
    have "race_outcome_ok C ev (rs_router st) h hp (rs_any_not_found st) (\<Union> (set ` set (grp # grps)))
        (race_while C J ev h hp grp st)"
      by (rule race_outcome_ok_mono[OF w same_config_refl]) auto
    with RaceDone show ?thesis by simp
  next
    case (RaceNext st')
    with w have c: "same_config (rs_router st) (rs_router st')"
      "rs_any_not_found st' \<Longrightarrow> rs_any_not_found st \<or> (\<exists>u \<in> set grp. says_absent C ev (rs_router st) h hp u)"
      by (auto simp: race_outcome_ok_def)
    have "race_outcome_ok C ev (rs_router st) h hp (rs_any_not_found st) (\<Union> (set ` set (grp # grps)))
        (race_groups C J ev h hp grps st')"
      by (rule race_outcome_ok_mono[OF Cons.IH[of st'] c(1)]) (use c(2) in auto)
    with RaceNext show ?thesis by simp
  qed
qed

lemma group_by_priority_set: "\<Union> (set ` set (group_by_priority r urls)) = set urls"
  by (auto simp: group_by_priority_def)

lemma cooldown_filtered_subset:
  "cooldown_filtered_candidates now r us = (kept, r') \<Longrightarrow> set kept \<subseteq> set us"
proof (induction us arbitrary: r kept r')
  case (Cons u us)
  then show ?case by (force simp: Let_def split: prod.splits if_splits)
qed simp

lemma race_cases:
  assumes "race C J ev r h cands hp = (res, r')"
  shows "same_config r r' \<and> (case res of
      Ok rr \<Rightarrow> rr_url rr \<in> set cands \<and> serves C ev r h hp rr
    | Err e \<Rightarrow> cands = [] \<and> e = NoCandidates h \<or> (\<exists>d. e = RDb d) \<or> e = UpstreamUnavailable \<or>
        e = NotFound \<and> (\<exists>u \<in> set cands. says_absent C ev r h hp u))"
proof (cases "cands = []")
  case True
  with assms show ?thesis by (auto simp: race_def config_simps)
next
  case False
  obtain kept r1 where k: "cooldown_filtered_candidates (e_now ev) (race_permit ev r hp) cands = (kept, r1)" by fastforce
  have c: "same_config r r1" by (rule same_config_trans[OF same_config_permit same_config_cooldown[OF k]])
  define eff where "eff = (if kept = [] then cands else kept)"
  have sub: "set eff \<subseteq> set cands" using cooldown_filtered_subset[OF k] by (auto simp: eff_def)
  let ?st = "\<lparr>rs_router = r1, rs_any_not_found = False, rs_attempts = 0\<rparr>"
  have "race_outcome_ok C ev r h hp False (set cands)
      (race_groups C J ev h hp (group_by_priority r1 eff) ?st)"
    by (rule race_outcome_ok_mono[OF race_groups_ok[of C ev ?st]])
      (use c sub in \<open>auto simp: group_by_priority_set\<close>)
  with assms False k show ?thesis
    by (auto simp: race_def race_outcome_ok_def eff_def[symmetric] config_simps Let_def
        split: race_outcome.splits sum.splits if_splits)
qed

lemma remdups_adj_strict: "sorted xs \<Longrightarrow> sorted_wrt (<) (remdups_adj (xs :: 'a::linorder list))"
  by (induction xs rule: remdups_adj.induct) (auto simp: less_le_trans order_less_le)

section \<open>Properties\<close>

text \<open>
  C2: Whatever a race serves was checked: the upstream is one of the candidates, the answer is a
  narinfo it returned for this hash, a registered key verifies it if the upstream has keys, its
  filters admit it, and the bytes handed out are those bytes with at most the URL rewritten.
  A request never changes the registered keys, filters and modes.
\<close>

theorem race_serves_verified:
  assumes "race C J ev r h cands hp = (Ok rr, r')"
  shows "rr_url rr \<in> set cands \<and> \<not> rr_cache_hit rr \<and>
    rt_keys r' = rt_keys r \<and> rt_filters r' = rt_filters r \<and> rt_modes r' = rt_modes r \<and>
    (\<exists>body ni. e_get ev (rr_url rr) (narinfo_path h) (hop_headers hp) (narinfo_timeout r (rr_url rr)) = Ok (Some body) \<and>
       narinfo_parse body = Ok ni \<and>
       (\<forall>keys. rt_keys r (rr_url rr) = Some keys \<longrightarrow> (\<exists>k \<in> set keys. narinfo_verify C ni k = Ok True)) \<and>
       rules_allow (rt_filters r (rr_url rr)) ni \<and>
       rr_narinfo rr = Some (if nar_url_mode r (rr_url rr) = Keep then body
         else rewrite_narinfo_url body (rr_url rr) h (nar_url_mode r (rr_url rr))))"
  using race_cases[OF assms]
  by (auto simp: serves_def admissible_def same_config_def response_narinfo_bytes_def Let_def)

section \<open>A concrete router\<close>

definition ni_demo :: narinfo where
  "ni_demo = narinfo_default\<lparr>store_path := ''/nix/store/p'', ni_url := ''nar/x.nar'', compression := ''none''\<rparr>"

lemma ni_demo_printable: "printable_narinfo ni_demo"
  by (simp add: ni_demo_def printable_narinfo_def narinfo_default_def line_value_def u64_max_def)

lemma ni_demo_parse: "narinfo_parse (narinfo_render ni_demo) = Ok ni_demo"
  by (rule narinfo_parse_render[OF ni_demo_printable])

definition env_demo :: "bool \<Rightarrow> env" where
  "env_demo present =
     \<lparr>e_now = 0, e_ts = 0, e_get = (\<lambda>_ _ _ _. Ok (Some (narinfo_render ni_demo))),
      e_head = (\<lambda>_ _ _ _ _. (Ok (if present then Some () else None), Fin 5)), e_race = map Joined,
      e_fault = (\<lambda>_. None), e_elapsed = Fin 0, e_waited = Fin 0, e_contended = False\<rparr>"

definition tuning_demo :: tuning where
  "tuning_demo = \<lparr>tn_max_concurrent_races = 64, tn_per_upstream_max_inflight = 8,
     tn_in_memory_negative_ttl = secs 5, tn_upstream_cooldown = secs 15\<rparr>"

definition router_demo :: router where
  "router_demo = register_upstream_nar_url_mode
     (router_new (db_open 10 [] [] []) (prober_new (Fin (3/10))) (secs 3600) (secs 5) (secs 600) tuning_demo) ''u'' Keep"

lemmas demo_defs = router_demo_def router_new_def register_upstream_nar_url_mode_def env_demo_def tuning_demo_def
  prober_new_def db_open_def

lemma gate_metrics: "upstream_gate (metrics_add ms r) u hp = metrics_add ms (upstream_gate r u hp)"
  by (simp add: upstream_gate_def metrics_add_def split: option.split)

lemma race_group_demo:
  "race_group (env_demo present) (metrics_add ms router_demo) h [''u''] Client =
     (if present then Ok (''u'', Fin 5) else Err GroupNotFound, 1,
      metrics_add (ms @ [NarinfoUpstreamAttempts]) (upstream_gate router_demo ''u'' Client))"
  by (simp add: race_group_def race_attempt_def env_demo_def gate_metrics Let_def)

lemma demo_fetch: "fetch_narinfo C (env_demo present) (metrics_add ms (upstream_gate router_demo ''u'' Client)) ''u'' h hp
    = Ok (Some (narinfo_render ni_demo), ni_demo)"
  by (simp add: fetch_narinfo_def ni_demo_parse demo_defs metrics_add_def upstream_gate_def)

lemma demo_commit:
  "\<exists>rr r'. commit_winner C jiff_demo (env_demo present) (metrics_add ms (upstream_gate router_demo ''u'' Client))
     (''u'', Fin 5) h Client = (Ok (Accepted rr), r')"
  unfolding commit_winner_def Let_def prod.case demo_fetch sum.case
  by (simp add: Let_def upstream_allows_narinfo_def rules_allow_def db_set_route_def set_route_def
      route_to_row_def winner_entry_def sql_real_def demo_defs metrics_add_def upstream_gate_def
      get_health_def record_latency_def)

lemma demo_groups: "group_by_priority r [u] = [[u]]"
  by (simp add: group_by_priority_def)

lemma demo_cooldown:
  "cooldown_filtered_candidates now (metrics_add ms router_demo) [''u''] = ([''u''], metrics_add ms router_demo)"
  by (simp add: in_cooldown_def demo_defs metrics_add_def Let_def)

lemma demo_permit:
  "race_permit ev (metrics_add ms router_demo) Client = metrics_add (ms @ [NarinfoRaceWait (e_waited ev)]) router_demo"
  by (simp add: race_permit_def)

lemma demo_race_logged:
  "\<exists>rr r'. race C jiff_demo (env_demo True) (metrics_add ms router_demo) h [''u''] Client = (Ok rr, r')"
proof -
  obtain rr r' where "commit_winner C jiff_demo (env_demo True)
      (metrics_add (ms @ [NarinfoRaceWait (e_waited (env_demo True))] @ [NarinfoUpstreamAttempts])
        (upstream_gate router_demo ''u'' Client)) (''u'', Fin 5) h Client = (Ok (Accepted rr), r')"
    using demo_commit by blast
  then show ?thesis
    unfolding race_def demo_permit demo_cooldown by (simp add: demo_groups race_while.simps race_group_demo Let_def)
qed

lemma demo_race: "\<exists>rr r'. race C jiff_demo (env_demo True) router_demo h [''u''] Client = (Ok rr, r')"
  using demo_race_logged[of C "[]"] by simp

lemma demo_race_missing:
  "\<exists>r'. race C jiff_demo (env_demo False) router_demo h [''u''] Client = (Err NotFound, r')"
  unfolding race_def demo_permit[of _ "[]", simplified] demo_cooldown
  by (simp add: demo_groups race_while.simps race_group_demo Let_def)

section \<open>Further properties\<close>

theorem race_serves_verified_witness:
  "\<exists>rr r'. race crypto_demo jiff_demo (env_demo True) router_demo ''h'' [''u''] Client = (Ok rr, r') \<and> rr_url rr = ''u''"
  using demo_race[of crypto_demo "''h''"] race_serves_verified by fastforce

text \<open>
  C3: A miss is never concluded from network trouble: a race answers \<open>NotFound\<close> only if some
  candidate's own answer says so (no such file, or a winning narinfo that is missing, malformed,
  unsigned or filtered); with every attempt failing at the network it answers
  \<open>UpstreamUnavailable\<close> or a database error.
\<close>

theorem race_not_found_evidence:
  assumes "race C J ev r h cands hp = (Err e, r')" "cands \<noteq> []"
  shows "(e = NotFound \<or> e = UpstreamUnavailable \<or> (\<exists>d. e = RDb d)) \<and>
    (e = NotFound \<longrightarrow> (\<exists>u \<in> set cands. (\<exists>rnd. race_attempt ev rnd r h hp u = AttemptNotFound) \<or>
       (\<exists>rnd ms. race_attempt ev rnd r h hp u = Winner ms) \<and>
       (\<forall>b ni. fetch_narinfo C ev r u h hp = Ok (b, ni) \<longrightarrow> \<not> rules_allow (rt_filters r u) ni) \<and>
       (\<forall>be. fetch_narinfo C ev r u h hp \<noteq> Err (Backend be))))"
proof -
  have abs: "(\<exists>rnd. race_attempt ev rnd r h hp u = AttemptNotFound) \<or>
       (\<exists>rnd ms. race_attempt ev rnd r h hp u = Winner ms) \<and>
       (\<forall>b ni. fetch_narinfo C ev r u h hp = Ok (b, ni) \<longrightarrow> \<not> rules_allow (rt_filters r u) ni) \<and>
       (\<forall>be. fetch_narinfo C ev r u h hp \<noteq> Err (Backend be))"
    if "says_absent C ev r h hp u" for u
    using that unfolding says_absent_def upstream_allows_narinfo_def
    by (cases "fetch_narinfo C ev r u h hp") (auto simp: commit_error_is_network_like_def)
  from race_cases[OF assms(1)] assms(2) have
    "(\<exists>d. e = RDb d) \<or> e = UpstreamUnavailable \<or> e = NotFound \<and> (\<exists>u \<in> set cands. says_absent C ev r h hp u)"
    by simp
  then show ?thesis
  proof (elim disjE exE conjE bexE)
    fix u assume e: "e = NotFound" and u: "u \<in> set cands" "says_absent C ev r h hp u"
    show ?thesis
      by (rule conjI, simp add: e, rule impI, rule bexI [of _ u], rule abs, rule u(2), rule u(1))
  qed simp_all
qed

theorem race_not_found_evidence_witness:
  "\<exists>r'. race crypto_demo jiff_demo (env_demo False) router_demo ''h'' [''u''] Client = (Err NotFound, r') \<and>
     ((\<exists>rnd. race_attempt (env_demo False) rnd router_demo ''h'' Client ''u'' = AttemptNotFound) \<or>
      (\<exists>rnd ms. race_attempt (env_demo False) rnd router_demo ''h'' Client ''u'' = Winner ms))"
proof -
  obtain r' where r: "race crypto_demo jiff_demo (env_demo False) router_demo ''h'' [''u''] Client = (Err NotFound, r')"
    using demo_race_missing by blast
  from race_not_found_evidence[OF r] r show ?thesis by auto
qed

text \<open>
  The candidates are raced by priority: the groups partition them (keeping their order), each
  group has one priority, and the priorities rise from group to group.
\<close>

theorem group_by_priority_spec:
  "mset (concat (group_by_priority r urls)) = mset urls \<and>
   list_all (\<lambda>g. g \<noteq> [] \<and> (\<exists>p. g = filter (\<lambda>u. priority_of r u = p) urls)) (group_by_priority r urls) \<and>
   sorted_wrt (<) (map (\<lambda>g. priority_of r (hd g)) (group_by_priority r urls))"
proof -
  let ?ps = "remdups_adj (sort (map (priority_of r) urls))"
  have strict: "sorted_wrt (<) ?ps" by (rule remdups_adj_strict) simp
  then have ps: "distinct ?ps" "set ?ps = priority_of r ` set urls"
    by (simp_all add: strict_sorted_iff)
  have part: "distinct ps \<Longrightarrow> mset (concat (map (\<lambda>p. filter (\<lambda>u. f u = p) us) ps)) = filter_mset (\<lambda>u. f u \<in> set ps) (mset us)"
    for ps :: "int list" and f :: "string \<Rightarrow> int" and us
  proof (induction ps)
    case (Cons p ps)
    have "filter_mset (\<lambda>u. f u \<in> set (p # ps)) (mset us) =
        filter_mset (\<lambda>u. f u = p) (mset us) + filter_mset (\<lambda>u. f u \<in> set ps) (mset us)"
      using Cons.prems by (induction us) auto
    with Cons show ?case by (simp add: mset_filter)
  qed simp
  have "mset (concat (group_by_priority r urls)) = filter_mset (\<lambda>u. priority_of r u \<in> set ?ps) (mset urls)"
    unfolding group_by_priority_def by (rule part[OF ps(1)])
  also have "... = mset urls" unfolding ps(2) by (simp add: filter_mset_eq_conv)
  finally have "mset (concat (group_by_priority r urls)) = mset urls" .
  moreover have "filter (\<lambda>u. priority_of r u = p) urls \<noteq> []" if "p \<in> set ?ps" for p
    using that unfolding ps(2) by (auto simp: filter_empty_conv)
  moreover have "priority_of r (hd (filter (\<lambda>u. priority_of r u = p) urls)) = p" if "p \<in> set ?ps" for p
    using hd_in_set[OF calculation(2)[OF that]] by simp
  then have "map (\<lambda>g. priority_of r (hd g)) (group_by_priority r urls) = ?ps"
    unfolding group_by_priority_def map_map by (intro map_idI) simp
  ultimately show ?thesis using strict unfolding group_by_priority_def list_all_iff by auto
qed

section \<open>Resolution through the caches\<close>

lemma resolve_cached_miss:
  assumes "fst (cache_get (e_now ev) h (rt_miss r)) = Some x"
  shows "fst (resolve_cached C J ev r h hp) = Err NotFound"
  using assms by (cases "cache_get (e_now ev) h (rt_miss r)") (auto simp: resolve_cached_def)

text \<open>A remembered miss answers every resolution in the lifetime of the in-memory entry.\<close>

lemma remember_miss_found:
  assumes "cache_inv ttl (rt_miss r)" "e_now ev' - e_now ev < ttl"
  shows "fst (cache_get (e_now ev') h (rt_miss (remember_miss J ev r h))) = Some ()"
  using lru.lookup_ins[OF assms(1), of "e_now ev'" h "e_now ev" "()"] assms(2)
  by (simp add: remember_miss_def Let_def)

lemma resolve_remembered:
  assumes "fst (cache_get (e_now ev1) h (rt_miss r)) = Some x"
  shows "fst (resolve C J ev1 ev2 ev3 others r h cands hp) = Err NotFound"
  using resolve_cached_miss[OF assms, of C J hp]
  by (cases "resolve_cached C J ev1 r h hp") (auto simp: resolve_def)

lemma memory_route_fields:
  "memory_route C ev r h hp c = (res, r') \<Longrightarrow> rt_miss r' = rt_miss r \<and> rt_db r' = rt_db r \<and> same_config r r'"
  by (auto simp: memory_route_def Let_def metrics_add_def same_config_def split: cached_filter_check.splits)

lemma set_route_negative: "set_route J f ef d e = (res, d') \<Longrightarrow> d_negative d' = d_negative d"
  by (auto simp: set_route_def evict_if_needed_def Let_def split: option.splits if_splits)

lemma db_set_route_negative:
  "db_set_route J ev r e = (res, r') \<Longrightarrow> d_negative (rt_db r') = d_negative (rt_db r) \<and> rt_miss r' = rt_miss r"
  by (auto simp: db_set_route_def set_route_negative split: prod.splits)

definition same_negatives :: "router \<Rightarrow> router \<Rightarrow> bool" where
  "same_negatives r r' \<longleftrightarrow> d_negative (rt_db r') = d_negative (rt_db r) \<and> rt_miss r' = rt_miss r"

lemma same_negatives_simps [config_simps]:
  "same_negatives r r"
  "same_negatives r (metrics_add ms r') = same_negatives r r'"
  "same_negatives r (mark_cooldown now r' u) = same_negatives r r'"
  "same_negatives r (r'\<lparr>rt_lru := c\<rparr>) = same_negatives r r'"
  "same_negatives r (r'\<lparr>rt_prober := p\<rparr>) = same_negatives r r'"
  "same_negatives r (r'\<lparr>rt_cooldown := cd\<rparr>) = same_negatives r r'"
  "same_negatives r (r'\<lparr>rt_gates := g\<rparr>) = same_negatives r r'"
  by (simp_all add: same_negatives_def metrics_add_def mark_cooldown_def)

lemma same_negatives_trans: "same_negatives r r' \<Longrightarrow> same_negatives r' r'' \<Longrightarrow> same_negatives r r''"
  by (simp add: same_negatives_def)

lemma same_negatives_set_route: "db_set_route J ev r e = (res, r') \<Longrightarrow> same_negatives r r'"
  using db_set_route_negative by (simp add: same_negatives_def)

text \<open>Until a winner is committed, a race touches neither the tables nor the caches.\<close>

definition same_tables :: "router \<Rightarrow> router \<Rightarrow> bool" where
  "same_tables r r' \<longleftrightarrow> rt_db r' = rt_db r \<and> rt_lru r' = rt_lru r \<and> rt_miss r' = rt_miss r"

lemma same_tables_simps [config_simps]:
  "same_tables r r"
  "same_tables r (metrics_add ms r') = same_tables r r'"
  "same_tables r (mark_cooldown now r' u) = same_tables r r'"
  "same_tables r (r'\<lparr>rt_cooldown := cd\<rparr>) = same_tables r r'"
  "same_tables r (r'\<lparr>rt_gates := g\<rparr>) = same_tables r r'"
  by (simp_all add: same_tables_def metrics_add_def mark_cooldown_def)

lemma same_tables_trans: "same_tables r r' \<Longrightarrow> same_tables r' r'' \<Longrightarrow> same_tables r r''"
  by (simp add: same_tables_def)

lemma same_tables_negatives: "same_tables r r' \<Longrightarrow> same_negatives r r'"
  by (simp add: same_tables_def same_negatives_def)

lemma same_tables_race_loop: "race_loop ev rnd h hp running es t r = (t', r') \<Longrightarrow> same_tables r r'"
proof (induction ev rnd h hp running es t r arbitrary: t' r' rule: race_loop.induct)
  case (4 ev rnd h hp v va u es t r)
  then show ?case
    by (cases "u \<in> set (v # va)") (auto simp del: set_simps simp: same_tables_def metrics_add_def)
next
  case (5 ev rnd h hp v va u es t r)
  show ?case
  proof (cases "u \<in> set (v # va)")
    case False
    with 5 show ?thesis by simp
  next
    case True
    then show ?thesis
    proof (cases "race_attempt ev rnd r h hp u")
      case (Winner ms)
      with True "5.prems" show ?thesis by (auto simp: config_simps Let_def)
    next
      case AttemptNotFound
      with True "5.prems" "5.IH"(2)[OF _ refl refl AttemptNotFound] show ?thesis
        by (auto simp: Let_def same_tables_def metrics_add_def)
    next
      case AttemptNetworkError
      with True "5.prems" "5.IH"(3)[OF _ refl refl AttemptNetworkError] show ?thesis
        by (auto simp: Let_def same_tables_def metrics_add_def mark_cooldown_def)
    qed
  qed
qed (auto simp: config_simps)

lemma same_tables_gates: "same_tables r (foldl (\<lambda>r u. upstream_gate r u hp) r grp)"
proof -
  have "same_tables r r' \<Longrightarrow> same_tables r (foldl (\<lambda>r u. upstream_gate r u hp) r' grp)" for r'
  proof (induction grp arbitrary: r')
    case (Cons u grp)
    have "same_tables r (upstream_gate r' u hp)"
      using Cons.prems by (simp add: upstream_gate_def config_simps split: option.split)
    from Cons.IH[OF this] show ?case by simp
  qed simp
  then show ?thesis by (simp add: config_simps)
qed

lemma same_tables_race_group: "race_group ev r h grp hp = (res, n, r') \<Longrightarrow> same_tables r r'"
  unfolding race_group_def Let_def
  by (auto split: prod.splits option.splits
      intro: same_tables_trans[OF same_tables_gates same_tables_race_loop])

lemma same_tables_cooldown: "cooldown_filtered_candidates now r us = (kept, r') \<Longrightarrow> same_tables r r'"
  by (induction now r us arbitrary: kept r' rule: cooldown_filtered_candidates.induct)
    (auto simp: same_tables_def in_cooldown_def Let_def split: prod.splits if_splits)

lemma same_negatives_commit: "commit_winner C J ev r w h hp = (res, r') \<Longrightarrow> same_negatives r r'"
  unfolding commit_winner_def Let_def
  by (auto simp: config_simps split: prod.splits sum.splits if_splits dest!: same_negatives_set_route)
    (auto simp: same_negatives_def metrics_add_def)

text \<open>A relation that every part of a race maintains is maintained by the race.\<close>

fun outcome_router :: "race_outcome \<Rightarrow> router" where
  "outcome_router (RaceDone res r) = r"
| "outcome_router (RaceNext st) = rs_router st"

locale race_relation =
  fixes R :: "router \<Rightarrow> router \<Rightarrow> bool"
    and ok :: "crypto \<Rightarrow> jiff \<Rightarrow> bool"
  assumes rel_refl: "R r r"
    and rel_trans: "R r r' \<Longrightarrow> R r' r'' \<Longrightarrow> R r r''"
    and rel_metrics: "R r (metrics_add ms r)"
    and rel_cooldown: "R r (mark_cooldown now r u)"
    and rel_group: "race_group ev r h grp hp = (res, n, r') \<Longrightarrow> R r r'"
    and rel_commit: "ok C J \<Longrightarrow> commit_winner C J ev r w h hp = (cres, r') \<Longrightarrow> R r r'"
    and rel_filter: "cooldown_filtered_candidates now r us = (kept, r') \<Longrightarrow> R r r'"
begin

lemma rel_while: "ok C J \<Longrightarrow> R (rs_router st) (outcome_router (race_while C J ev h hp grp st))"
proof (induction C J ev h hp grp st rule: race_while.induct)
  case (1 C J ev h hp grp st)
  note unfold = race_while.simps[of C J ev h hp grp st]
  show ?case
  proof (cases "grp = []")
    case True
    then show ?thesis by (simp add: race_while.simps[of C J ev h hp "[]" st] rel_refl)
  next
    case False
    obtain gres n r where g: "race_group ev (rs_router st) h grp hp = (gres, n, r)" by (metis prod_cases3)
    show ?thesis
    proof (cases gres)
      case (Inl e)
      with False g rel_group[OF g] show ?thesis by (simp add: unfold)
    next
      case (Inr w)
      obtain u ms where w: "w = (u, ms)" by (cases w)
      note g = g[unfolded Inr w]
      obtain cres r1 where c: "commit_winner C J ev r (u, ms) h hp = (cres, r1)" by fastforce
      have r1: "R (rs_router st) r1" by (rule rel_trans[OF rel_group[OF g] rel_commit[OF "1.prems" c]])
      show ?thesis
      proof (cases cres)
        case (Inl err)
        note IH = "1.IH"(1)[OF False g[symmetric] refl refl refl refl refl c[symmetric] Inl]
          "1.IH"(2)[OF False g[symmetric] refl refl refl refl refl c[symmetric] Inl]
        show ?thesis
        proof (cases "commit_error_is_retryable err")
          case True
          show ?thesis
          proof (cases "commit_error_is_network_like err")
            case net: True
            from rel_trans[OF rel_trans[OF r1 rel_cooldown] IH(1)[OF True net "1.prems", simplified]]
            show ?thesis using False g c Inl True net by (simp add: unfold Let_def)
          next
            case net: False
            from rel_trans[OF r1 IH(2)[OF True net "1.prems", simplified]]
            show ?thesis using False g c Inl True net by (simp add: unfold Let_def)
          qed
        qed (use False g c Inl r1 in \<open>simp add: unfold Let_def\<close>)
      next
        case (Inr co)
        show ?thesis
        proof (cases co)
          case (Accepted rr)
          with False g c Inr rel_trans[OF r1 rel_metrics] show ?thesis by (simp add: unfold Let_def)
        next
          case Rejected
          from rel_trans[OF r1 "1.IH"(3)[OF False g[symmetric] refl refl refl refl refl c[symmetric] Inr Rejected "1.prems", simplified]]
          show ?thesis using False g c Inr Rejected by (simp add: unfold Let_def)
        qed
      qed
    qed
  qed
qed

lemma rel_groups: "ok C J \<Longrightarrow> R (rs_router st) (outcome_router (race_groups C J ev h hp grps st))"
proof (induction grps arbitrary: st)
  case (Cons grp grps)
  show ?case
    using rel_while[OF Cons.prems, of st ev h hp grp] rel_trans[OF _ Cons.IH[OF Cons.prems]]
    by (cases "race_while C J ev h hp grp st") auto
qed (simp add: rel_refl)

lemma rel_race: "ok C J \<Longrightarrow> race C J ev r h cands hp = (res, r') \<Longrightarrow> R r r'"
proof -
  assume good: "ok C J" and a: "race C J ev r h cands hp = (res, r')"
  show ?thesis
  proof (cases "cands = []")
    case True
    with a show ?thesis by (simp add: race_def rel_refl)
  next
    case False
    obtain kept r1 where k: "cooldown_filtered_candidates (e_now ev) (race_permit ev r hp) cands = (kept, r1)" by fastforce
    have permit: "R r (race_permit ev r hp)" by (simp add: race_permit_def rel_refl rel_metrics)
    define eff where "eff = (if kept = [] then cands else kept)"
    let ?out = "race_groups C J ev h hp (group_by_priority r1 eff)
        \<lparr>rs_router = r1, rs_any_not_found = False, rs_attempts = 0\<rparr>"
    have "R r (outcome_router ?out)"
      by (rule rel_trans[OF rel_trans[OF permit rel_filter[OF k]]])
        (use rel_groups[OF good, of "\<lparr>rs_router = r1, rs_any_not_found = False, rs_attempts = 0\<rparr>"] in simp)
    with a False k show ?thesis
      by (auto simp: race_def eff_def[symmetric] Let_def intro: rel_trans[OF _ rel_metrics]
          split: race_outcome.splits if_splits)
  qed
qed

end

interpretation config: race_relation same_config "\<lambda>_ _. True"
  by unfold_locales
    (auto simp: config_simps intro: same_config_trans same_config_race_group same_config_commit same_config_cooldown)

interpretation negatives: race_relation same_negatives "\<lambda>_ _. True"
  by unfold_locales
    (auto simp: config_simps intro: same_negatives_trans same_tables_negatives same_tables_race_group
      same_negatives_commit same_tables_cooldown)

section \<open>Properties of resolution\<close>

text \<open>
  A miss is remembered for clients only. When a client's race concludes \<open>NotFound\<close>, every
  resolution of that hash in the next in-memory lifetime answers \<open>NotFound\<close> at once, whatever
  the candidates and the hop; a race for another instance records no miss at all.
\<close>

theorem client_miss_remembered:
  assumes "race C J ev3 r h cands Client = (Err NotFound, r1)" "cache_inv ttl (rt_miss r)"
    and "e_now ev - e_now ev3 < ttl"
  shows "fst (resolve C' J ev ev' ev'' others (remember_miss J ev3 r1 h) h cands' hp) = Err NotFound \<and>
    (hp \<noteq> Client \<longrightarrow> race C J ev3 r h cands hp = (res, r2) \<longrightarrow>
       rt_miss r2 = rt_miss r \<and> d_negative (rt_db r2) = d_negative (rt_db r))"
proof -
  have "rt_miss r1 = rt_miss r" using negatives.rel_race[OF TrueI assms(1)] by (simp add: same_negatives_def)
  with assms(2) have "cache_inv ttl (rt_miss r1)" by simp
  from resolve_remembered[OF remember_miss_found[OF this assms(3)]]
  show ?thesis using negatives.rel_race[OF TrueI] by (auto simp: same_negatives_def)
qed

theorem client_miss_remembered_witness:
  "\<exists>r1. race crypto_demo jiff_demo (env_demo False) router_demo ''h'' [''u''] Client = (Err NotFound, r1) \<and>
     fst (resolve crypto_demo jiff_demo (env_demo True) (env_demo True) (env_demo True) id
       (remember_miss jiff_demo (env_demo False) r1 ''h'') ''h'' [''u''] Client) = Err NotFound"
proof -
  obtain r1 where r: "race crypto_demo jiff_demo (env_demo False) router_demo ''h'' [''u''] Client = (Err NotFound, r1)"
    using demo_race_missing by blast
  have "cache_inv (secs 5) (rt_miss router_demo)"
    by (simp add: demo_defs) (rule cache_new_inv)
  from client_miss_remembered[OF r this, of "env_demo True"] r show ?thesis
    by (auto simp: env_demo_def secs_def)
qed




end
