(* ===== verification/Config.thy ===== *)
theory Config
  imports PathFilter NarUrl Location
begin

text \<open>
  crates/config/src/lib.rs: the configuration records with their defaults, the listen address,
  netrc and password files, \<open>Config::load\<close>, \<open>Config::check\<close> and \<open>Config::validate\<close>.

  The environment (variables, files, the netrc crate) is the record \<open>os\<close>; the libraries that
  read URLs, TOML, tracing directives, socket addresses and hexadecimal are the record \<open>libs\<close>.
  An error is a constructor with the values its message quotes.
\<close>

section \<open>Records and defaults\<close>

record upstream_config =
  uc_url :: string
  uc_priority :: int
  uc_public_key :: string
  uc_public_keys :: "string list"
  uc_username :: string
  uc_password :: "string option"
  uc_password_file :: "string option"
  uc_filters :: "filter_rule list"
  uc_nar_url_mode :: nar_url_mode
  uc_narinfo_timeout :: "duration option"
  uc_nar_timeout :: "duration option"
  uc_allow_hedging :: bool
  uc_realisations :: bool
  uc_location :: location

definition upstream_config_default :: upstream_config where
  "upstream_config_default = \<lparr>uc_url = [], uc_priority = 0, uc_public_key = [], uc_public_keys = [],
     uc_username = [], uc_password = None, uc_password_file = None, uc_filters = [],
     uc_nar_url_mode = nar_url_mode_default, uc_narinfo_timeout = None, uc_nar_timeout = None,
     uc_allow_hedging = True, uc_realisations = True, uc_location = Http\<rparr>"

record fallback_cache_config =
  fb_enabled :: bool
  fb_upstream :: upstream_config

definition fallback_default :: fallback_cache_config where
  "fallback_default = \<lparr>fb_enabled = False,
     fb_upstream = upstream_config_default\<lparr>uc_url := ''https://cache.nixos.org'',
       uc_public_key := ''cache.nixos.org-1:6NCHdD59X431o0gWypbMrAURkbJ16ZPMQFGspcDShjY=''\<rparr>\<rparr>"

text \<open>
  \<open>FallbackCacheConfig::deserialize\<close> on a TOML table; the deserialisers of its parts are the
  TOML library's. The default key is filled in only where the default URL is.
\<close>

definition fallback_deserialize ::
  "('v \<Rightarrow> ('e, bool) result) \<Rightarrow> (string \<Rightarrow> 'v) \<Rightarrow> ((string \<times> 'v) list \<Rightarrow> ('e, upstream_config) result)
     \<Rightarrow> (string \<times> 'v) list \<Rightarrow> ('e, fallback_cache_config) result" where
  "fallback_deserialize de_bool of_string de_upstream table =
     (case (case map_of table ''enabled'' of Some v \<Rightarrow> de_bool v | None \<Rightarrow> Ok False) of
        Err e \<Rightarrow> Err e
      | Ok enabled \<Rightarrow>
          let rest = remove_key ''enabled'' table;
              defaults = fb_upstream fallback_default;
              with_url = upsert ''url'' (of_string (uc_url defaults)) rest;
              filled = (if map_of rest ''url'' \<noteq> None then rest
                        else if map_of with_url ''public_key'' \<noteq> None then with_url
                        else upsert ''public_key'' (of_string (uc_public_key defaults)) with_url)
          in (case de_upstream filled of
                Err e \<Rightarrow> Err e
              | Ok u \<Rightarrow> Ok \<lparr>fb_enabled = enabled, fb_upstream = u\<rparr>))"

datatype 'sock listen_addr = Localhost nat | AnyAddr nat | Socket 'sock

definition u16_max :: nat where "u16_max = 2 ^ 16 - 1"

definition listen_from_str :: "(string \<Rightarrow> 'sock option) \<Rightarrow> string \<Rightarrow> (string, 'sock listen_addr) result" where
  "listen_from_str sock raw =
     (case strip_prefix '':'' raw of
        Some port \<Rightarrow> (case parse_uint u16_max port of Ok p \<Rightarrow> Ok (AnyAddr p) | Err _ \<Rightarrow> Err raw)
      | None \<Rightarrow>
          (case strip_prefix ''localhost:'' raw of
             Some port \<Rightarrow> (case parse_uint u16_max port of Ok p \<Rightarrow> Ok (Localhost p) | Err _ \<Rightarrow> Err raw)
           | None \<Rightarrow> (case sock raw of Some s \<Rightarrow> Ok (Socket s) | None \<Rightarrow> Err raw)))"

definition listen_display :: "('sock \<Rightarrow> string) \<Rightarrow> 'sock listen_addr \<Rightarrow> string" where
  "listen_display show_sock l =
     (case l of Localhost p \<Rightarrow> ''localhost:'' @ show_nat p | AnyAddr p \<Rightarrow> '':'' @ show_nat p
              | Socket s \<Rightarrow> show_sock s)"

definition deserialize_listen ::
  "(string \<Rightarrow> 'sock option) \<Rightarrow> string \<Rightarrow> (string, 'sock listen_addr option) result" where
  "deserialize_listen sock raw =
     (if raw = [] then Ok None
      else case listen_from_str sock raw of Err e \<Rightarrow> Err e | Ok l \<Rightarrow> Ok (Some l))"

record 'sock server_config =
  sc_listen :: "'sock listen_addr option"
  sc_cache_priority :: int
  sc_want_mass_query :: bool
  sc_read_timeout :: duration
  sc_write_timeout :: duration

definition server_default :: "'sock server_config" where
  "server_default = \<lparr>sc_listen = Some (Localhost 8080), sc_cache_priority = 30, sc_want_mass_query = True,
     sc_read_timeout = secs 30, sc_write_timeout = secs 30\<rparr>"

record nar_hedging_config =
  nh_enabled :: bool
  nh_delay :: duration
  nh_max_inflight :: u32

definition nar_hedging_default :: nar_hedging_config where
  "nar_hedging_default = \<lparr>nh_enabled = True, nh_delay = secs 1, nh_max_inflight = 2\<rparr>"

record mass_query_config =
  mq_max_concurrent_races :: u32
  mq_per_upstream_max_inflight :: u32
  mq_in_memory_negative_ttl :: duration
  mq_upstream_cooldown :: duration

definition mass_query_default :: mass_query_config where
  "mass_query_default = \<lparr>mq_max_concurrent_races = 64, mq_per_upstream_max_inflight = 8,
     mq_in_memory_negative_ttl = secs 5, mq_upstream_cooldown = secs 15\<rparr>"

record cache_config =
  cc_db_path :: string
  cc_max_entries :: int
  cc_ttl :: duration
  cc_negative_ttl :: duration
  cc_latency_alpha :: f64
  cc_slow_statement_threshold :: duration
  cc_mass_query :: mass_query_config
  cc_nar_hedging :: nar_hedging_config

definition cache_default :: cache_config where
  "cache_default = \<lparr>cc_db_path = ''/var/lib/ncro/routes.db'', cc_max_entries = 100000, cc_ttl = secs 3600,
     cc_negative_ttl = secs 600, cc_latency_alpha = Fin (3 / 10), cc_slow_statement_threshold = secs 1,
     cc_mass_query = mass_query_default, cc_nar_hedging = nar_hedging_default\<rparr>"

type_synonym mesh_public_key = "u8 list"

text \<open>The error of the \<open>data_encoding\<close> crate; \<open>hex\<close> is its permissive lower-case decoder.\<close>

datatype decode_kind = DecodeLength | DecodeSymbol | DecodeTrailing | DecodePadding

record decode_error =
  de_position :: nat
  de_kind :: decode_kind

definition mesh_public_key_from_str ::
  "(string \<Rightarrow> (decode_error, u8 list) result) \<Rightarrow> string \<Rightarrow> (decode_error, mesh_public_key) result" where
  "mesh_public_key_from_str hex raw =
     (case hex raw of
        Err e \<Rightarrow> Err e
      | Ok bs \<Rightarrow> if length bs = 32 then Ok bs
               else Err \<lparr>de_position = length raw, de_kind = DecodeLength\<rparr>)"

record peer_config =
  pc_addr :: string
  pc_public_key :: mesh_public_key

record mesh_config =
  mc_enabled :: bool
  mc_bind_addr :: string
  mc_peers :: "peer_config list"
  mc_private_key_path :: string
  mc_gossip_interval :: duration

definition mesh_default :: mesh_config where
  "mesh_default = \<lparr>mc_enabled = False, mc_bind_addr = ''0.0.0.0:7946'', mc_peers = [],
     mc_private_key_path = [], mc_gossip_interval = secs 30\<rparr>"

datatype address_family = AnyFamily | Ipv4 | Ipv6

record discovery_config =
  dc_enabled :: bool
  dc_service_name :: string
  dc_domain :: string
  dc_discovery_time :: duration
  dc_priority :: int
  dc_address_family :: address_family

definition discovery_default :: discovery_config where
  "discovery_default = \<lparr>dc_enabled = False, dc_service_name = ''_nix-serve._tcp'', dc_domain = ''local'',
     dc_discovery_time = secs 5, dc_priority = 20, dc_address_family = AnyFamily\<rparr>"

datatype log_format = Json | TextFormat

record logging_config =
  lc_level :: string
  lc_format :: log_format
  lc_timestamps :: bool

definition logging_default :: logging_config where
  "logging_default = \<lparr>lc_level = ''info'', lc_format = Json, lc_timestamps = True\<rparr>"

record 'sock config =
  cf_server :: "'sock server_config"
  cf_upstreams :: "upstream_config list"
  cf_fallback :: fallback_cache_config
  cf_cache :: cache_config
  cf_mesh :: mesh_config
  cf_discovery :: discovery_config
  cf_logging :: logging_config

definition config_default :: "'sock config" where
  "config_default = \<lparr>cf_server = server_default,
     cf_upstreams = [upstream_config_default\<lparr>uc_url := ''https://cache.nixos.org'', uc_priority := 10\<rparr>],
     cf_fallback = fallback_default, cf_cache = cache_default, cf_mesh = mesh_default,
     cf_discovery = discovery_default, cf_logging = logging_default\<rparr>"

text \<open>
  What the \<open>Debug\<close> instance of an upstream prints: every field, the password replaced.
\<close>

definition upstream_debug :: "upstream_config \<Rightarrow> upstream_config" where
  "upstream_debug u = u\<lparr>uc_password := map_option (\<lambda>_. ''<redacted>'') (uc_password u)\<rparr>"

text \<open>
  A duration in the configuration: jiff reads a span, days counting 24 hours, and makes it a signed
  duration, here in nanoseconds; a negative one is refused.
\<close>

definition human_duration ::
  "(string \<Rightarrow> (string, 'span) result) \<Rightarrow> ('span \<Rightarrow> (string, int) result) \<Rightarrow> string \<Rightarrow> string \<Rightarrow> (string, duration) result" where
  "human_duration parse_span to_duration negative source =
     (case parse_span source of
        Err e \<Rightarrow> Err e
      | Ok sp \<Rightarrow> (case to_duration sp of
          Err e \<Rightarrow> Err e
        | Ok nanos \<Rightarrow> if nanos < 0 then Err negative else Ok (nat nanos)))"

lemma upstream_debug_hides:
  "uc_password u = None \<longleftrightarrow> uc_password v = None \<Longrightarrow> u\<lparr>uc_password := None\<rparr> = v\<lparr>uc_password := None\<rparr> \<Longrightarrow>
     upstream_debug u = upstream_debug v"
  by (cases u; cases v; cases "uc_password u") (auto simp: upstream_debug_def)

section \<open>Errors and the outside world\<close>

datatype invalid =
    InvalidLocation validation_error
  | InvalidListenVar string
  | PasswordConflict string
  | NoUpstreams
  | EmptyUrl string
  | BadUrl string string string
  | BadPublicKey string
  | EmptyPattern string nat
  | CachePriority int
  | LatencyAlpha f64
  | MustBePositive string
  | MustBeAtLeastOne string
  | EmptyLevel
  | BadLevel string string
  | NoPeers
  | EmptyPeerAddr nat
  | DiscoveryRequires string

datatype config_error =
    ReadConfig string string
  | PasswordFile string string
  | NetrcFile string string
  | ParseConfig string string
  | Validation invalid

record netrc_auth =
  na_login :: string
  na_password :: string

type_synonym netrc = "string \<rightharpoonup> netrc_auth"

record os =
  os_var :: "string \<Rightarrow> string option"
  os_read :: "string \<Rightarrow> (string, string) result"
  os_exists :: "string \<Rightarrow> bool"
  os_netrc :: "string \<Rightarrow> (string, netrc) result"

record 'sock libs =
  lib_url :: url_lib
  lib_toml :: "string \<Rightarrow> (string, 'sock config) result"
  lib_targets :: "string \<Rightarrow> (string, unit) result"
  lib_sock :: "string \<Rightarrow> 'sock option"

text \<open>A variable that is set and not empty.\<close>

definition env_var :: "os \<Rightarrow> string \<Rightarrow> string option" where
  "env_var E name = (case os_var E name of Some v \<Rightarrow> if v = [] then None else Some v | None \<Rightarrow> None)"

definition path_join :: "string \<Rightarrow> string \<Rightarrow> string" where
  "path_join dir name =
     (if dir = [] then name else if last dir = slash then dir @ name else dir @ slash # name)"

section \<open>Credentials\<close>

definition load_netrc :: "os \<Rightarrow> (config_error, netrc option) result" where
  "load_netrc E =
     (case env_var E ''NETRC'' of
        Some path \<Rightarrow> (case os_netrc E path of Ok nrc \<Rightarrow> Ok (Some nrc) | Err e \<Rightarrow> Err (NetrcFile path e))
      | None \<Rightarrow>
          (case os_var E ''HOME'' of
             None \<Rightarrow> Ok None
           | Some home \<Rightarrow>
               let path = path_join home ''.netrc'' in
               if \<not> os_exists E path then Ok None
               else (case os_netrc E path of Ok nrc \<Rightarrow> Ok (Some nrc) | Err _ \<Rightarrow> Ok None)))"

definition netrc_entry :: "url_lib \<Rightarrow> netrc \<Rightarrow> string \<Rightarrow> netrc_auth option" where
  "netrc_entry U nrc url =
     (case U url of
        Err _ \<Rightarrow> None
      | Ok parsed \<Rightarrow>
          (case u_host parsed of
             None \<Rightarrow> None
           | Some host \<Rightarrow>
               (case nrc host of
                  Some auth \<Rightarrow> Some auth
                | None \<Rightarrow> nrc ''default'')))"

definition apply_netrc :: "url_lib \<Rightarrow> netrc \<Rightarrow> upstream_config \<Rightarrow> upstream_config" where
  "apply_netrc U nrc u =
     (if uc_username u \<noteq> [] \<or> uc_location u \<noteq> Http then u
      else case netrc_entry U nrc (uc_url u) of
        None \<Rightarrow> u
      | Some auth \<Rightarrow>
          if na_login auth = [] then u
          else u\<lparr>uc_username := na_login auth,
                 uc_password := (if na_password auth = [] then None else Some (na_password auth))\<rparr>)"

definition read_password_file :: "os \<Rightarrow> string \<Rightarrow> (config_error, string) result" where
  "read_password_file E path =
     (case os_read E path of
        Err e \<Rightarrow> Err (PasswordFile path e)
      | Ok password \<Rightarrow>
          Ok (case strip_suffix [nl] password of
                None \<Rightarrow> password
              | Some p \<Rightarrow> (case strip_suffix [cr] p of None \<Rightarrow> p | Some q \<Rightarrow> q)))"

definition resolve_password_file :: "os \<Rightarrow> string \<Rightarrow> upstream_config \<Rightarrow> (config_error, upstream_config) result" where
  "resolve_password_file E label u =
     (case uc_password_file u of
        None \<Rightarrow> Ok u
      | Some path \<Rightarrow>
          if uc_password u \<noteq> None then Err (Validation (PasswordConflict label))
          else (case read_password_file E path of
                  Err e \<Rightarrow> Err e
                | Ok password \<Rightarrow> Ok (u\<lparr>uc_password := Some password\<rparr>)))"

definition upstream_label :: "nat \<Rightarrow> string" where
  "upstream_label i = ''upstream['' @ show_nat i @ '']''"

text \<open>A loop over the numbered upstreams that stops at the first error.\<close>

fun each_upstream ::
  "(string \<Rightarrow> upstream_config \<Rightarrow> (config_error, upstream_config) result) \<Rightarrow> nat \<Rightarrow> upstream_config list
     \<Rightarrow> (config_error, upstream_config list) result" where
  "each_upstream f i [] = Ok []"
| "each_upstream f i (u # us) =
     (case f (upstream_label i) u of
        Err e \<Rightarrow> Err e
      | Ok u' \<Rightarrow> (case each_upstream f (i + 1) us of Err e \<Rightarrow> Err e | Ok us' \<Rightarrow> Ok (u' # us')))"

text \<open>The loop and the enabled fallback after it.\<close>

definition each_and_fallback ::
  "(string \<Rightarrow> upstream_config \<Rightarrow> (config_error, upstream_config) result) \<Rightarrow> 'sock config
     \<Rightarrow> (config_error, 'sock config) result" where
  "each_and_fallback f cfg =
     (case each_upstream f 0 (cf_upstreams cfg) of
        Err e \<Rightarrow> Err e
      | Ok us \<Rightarrow>
          let cfg = cfg\<lparr>cf_upstreams := us\<rparr> in
          if fb_enabled (cf_fallback cfg) then
            (case f ''fallback_cache'' (fb_upstream (cf_fallback cfg)) of
               Err e \<Rightarrow> Err e
             | Ok u \<Rightarrow> Ok (cfg\<lparr>cf_fallback := (cf_fallback cfg)\<lparr>fb_upstream := u\<rparr>\<rparr>))
          else Ok cfg)"

section \<open>Loading\<close>

definition locate :: "url_lib \<Rightarrow> string \<Rightarrow> upstream_config \<Rightarrow> (config_error, upstream_config) result" where
  "locate U label u =
     (case location_parse U (uc_url u) label of
        Err e \<Rightarrow> Err (Validation (InvalidLocation e))
      | Ok l \<Rightarrow> Ok (u\<lparr>uc_location := l\<rparr>))"

definition config_parse :: "os \<Rightarrow> 'sock libs \<Rightarrow> string \<Rightarrow> (config_error, 'sock config) result" where
  "config_parse E L path =
     (case os_read E path of
        Err e \<Rightarrow> Err (ReadConfig path e)
      | Ok data \<Rightarrow>
          (case lib_toml L data of
             Err e \<Rightarrow> Err (ParseConfig path e)
           | Ok cfg \<Rightarrow> each_and_fallback (locate (lib_url L)) cfg))"

definition env_overrides :: "os \<Rightarrow> 'sock libs \<Rightarrow> 'sock config \<Rightarrow> (config_error, 'sock config) result" where
  "env_overrides E L cfg =
     (case (case env_var E ''NCRO_LISTEN'' of
              None \<Rightarrow> Ok cfg
            | Some v \<Rightarrow> (case listen_from_str (lib_sock L) v of
                  Err e \<Rightarrow> Err (Validation (InvalidListenVar e))
                | Ok l \<Rightarrow> Ok (cfg\<lparr>cf_server := (cf_server cfg)\<lparr>sc_listen := Some l\<rparr>\<rparr>))) of
        Err e \<Rightarrow> Err e
      | Ok cfg1 \<Rightarrow>
          let cfg2 = (case env_var E ''NCRO_DB_PATH'' of
                None \<Rightarrow> cfg1 | Some v \<Rightarrow> cfg1\<lparr>cf_cache := (cf_cache cfg1)\<lparr>cc_db_path := v\<rparr>\<rparr>)
          in Ok (case env_var E ''NCRO_LOG_LEVEL'' of
                None \<Rightarrow> cfg2 | Some v \<Rightarrow> cfg2\<lparr>cf_logging := (cf_logging cfg2)\<lparr>lc_level := v\<rparr>\<rparr>))"

text \<open>The netrc credentials go to every upstream and to the fallback, enabled or not.\<close>

definition netrc_overrides :: "url_lib \<Rightarrow> netrc option \<Rightarrow> 'sock config \<Rightarrow> 'sock config" where
  "netrc_overrides U nrc cfg =
     (case nrc of
        None \<Rightarrow> cfg
      | Some nrc \<Rightarrow> cfg\<lparr>cf_upstreams := map (apply_netrc U nrc) (cf_upstreams cfg),
          cf_fallback := (cf_fallback cfg)\<lparr>fb_upstream := apply_netrc U nrc (fb_upstream (cf_fallback cfg))\<rparr>\<rparr>)"

definition config_load :: "os \<Rightarrow> 'sock libs \<Rightarrow> string option \<Rightarrow> (config_error, 'sock config) result" where
  "config_load E L path =
     (case (case path of Some p \<Rightarrow> config_parse E L p | None \<Rightarrow> Ok config_default) of
        Err e \<Rightarrow> Err e
      | Ok cfg \<Rightarrow>
          (case env_overrides E L cfg of
             Err e \<Rightarrow> Err e
           | Ok cfg1 \<Rightarrow>
               (case each_and_fallback (resolve_password_file E) cfg1 of
                  Err e \<Rightarrow> Err e
                | Ok cfg2 \<Rightarrow>
                    (case load_netrc E of
                       Err e \<Rightarrow> Err e
                     | Ok nrc \<Rightarrow> Ok (netrc_overrides (lib_url L) nrc cfg2)))))"

section \<open>Validation\<close>

text \<open>\<open>check c e\<close> is \<open>if c { return Err(e) }\<close>; the checks run in order.\<close>

definition check :: "bool \<Rightarrow> 'e \<Rightarrow> ('e, unit) result" where
  "check c e = (if c then Err e else Ok ())"

fun run_checks :: "('e, unit) result list \<Rightarrow> ('e, unit) result" where
  "run_checks [] = Ok ()"
| "run_checks (c # cs) = (case c of Err e \<Rightarrow> Err e | Ok _ \<Rightarrow> run_checks cs)"

definition enumerate_map :: "(nat \<Rightarrow> 'a \<Rightarrow> 'b) \<Rightarrow> 'a list \<Rightarrow> 'b list" where
  "enumerate_map f xs = map (\<lambda>i. f i (xs ! i)) [0..<length xs]"

definition validate_nix_public_key :: "string \<Rightarrow> string \<Rightarrow> (invalid, unit) result" where
  "validate_nix_public_key public_key label =
     check (public_key = [] \<or> CHR '':'' \<notin> set public_key) (BadPublicKey label)"

definition validate_upstream :: "url_lib \<Rightarrow> string \<Rightarrow> upstream_config \<Rightarrow> (invalid, unit) result" where
  "validate_upstream U label u = run_checks
     ([check (uc_url u = []) (EmptyUrl label),
       (case U (uc_url u) of Err e \<Rightarrow> Err (BadUrl label (uc_url u) e) | Ok _ \<Rightarrow> Ok ()),
       (if uc_public_key u = [] then Ok ()
        else validate_nix_public_key (uc_public_key u) (label @ '': public_key''))]
      @ enumerate_map (\<lambda>i k. validate_nix_public_key k (label @ '': public_keys['' @ show_nat i @ '']'')) (uc_public_keys u)
      @ [check (uc_password u \<noteq> None \<and> uc_password_file u \<noteq> None) (PasswordConflict label)]
      @ enumerate_map (\<lambda>j f. check (pattern f = []) (EmptyPattern label j)) (uc_filters u))"

definition upstream_checks :: "'sock libs \<Rightarrow> 'sock config \<Rightarrow> (invalid, unit) result list" where
  "upstream_checks L cfg =
     [check (cf_upstreams cfg = []) NoUpstreams]
     @ enumerate_map (\<lambda>i u. validate_upstream (lib_url L) (upstream_label i) u) (cf_upstreams cfg)
     @ [if fb_enabled (cf_fallback cfg)
        then validate_upstream (lib_url L) ''fallback_cache'' (fb_upstream (cf_fallback cfg)) else Ok ()]"

definition server_checks :: "'sock server_config \<Rightarrow> (invalid, unit) result list" where
  "server_checks s =
     [check (sc_cache_priority s < 1) (CachePriority (sc_cache_priority s)),
      check (sc_read_timeout s = 0) (MustBePositive ''server.read_timeout''),
      check (sc_write_timeout s = 0) (MustBePositive ''server.write_timeout'')]"

definition cache_checks :: "cache_config \<Rightarrow> (invalid, unit) result list" where
  "cache_checks c =
     [check (\<not> (f_lt (Fin 0) (cc_latency_alpha c) \<and> f_lt (cc_latency_alpha c) (Fin 1))) (LatencyAlpha (cc_latency_alpha c)),
      check (cc_ttl c = 0) (MustBePositive ''cache.ttl''),
      check (cc_negative_ttl c = 0) (MustBePositive ''cache.negative_ttl''),
      check (cc_max_entries c \<le> 0) (MustBePositive ''cache.max_entries''),
      check (mq_max_concurrent_races (cc_mass_query c) = 0) (MustBeAtLeastOne ''cache.mass_query.max_concurrent_races''),
      check (mq_per_upstream_max_inflight (cc_mass_query c) = 0) (MustBeAtLeastOne ''cache.mass_query.per_upstream_max_inflight''),
      check (mq_in_memory_negative_ttl (cc_mass_query c) = 0) (MustBePositive ''cache.mass_query.in_memory_negative_ttl''),
      check (mq_upstream_cooldown (cc_mass_query c) = 0) (MustBePositive ''cache.mass_query.upstream_cooldown''),
      check (nh_delay (cc_nar_hedging c) = 0) (MustBePositive ''cache.nar_hedging.delay''),
      check (nh_max_inflight (cc_nar_hedging c) = 0) (MustBeAtLeastOne ''cache.nar_hedging.max_inflight'')]"

definition logging_checks :: "(string \<Rightarrow> (string, unit) result) \<Rightarrow> logging_config \<Rightarrow> (invalid, unit) result list" where
  "logging_checks targets l =
     [check (is_blank (lc_level l)) EmptyLevel,
      (case targets (lc_level l) of Err e \<Rightarrow> Err (BadLevel (lc_level l) e) | Ok _ \<Rightarrow> Ok ())]"

definition mesh_checks :: "mesh_config \<Rightarrow> (invalid, unit) result list" where
  "mesh_checks m =
     [check (mc_enabled m \<and> mc_peers m = []) NoPeers,
      check (mc_gossip_interval m = 0) (MustBePositive ''mesh.gossip_interval'')]
     @ enumerate_map (\<lambda>i peer. check (pc_addr peer = []) (EmptyPeerAddr i)) (mc_peers m)"

definition discovery_checks :: "discovery_config \<Rightarrow> (invalid, unit) result list" where
  "discovery_checks d =
     (if dc_enabled d then
        [check (dc_service_name d = []) (DiscoveryRequires ''discovery.service_name''),
         check (dc_domain d = []) (DiscoveryRequires ''discovery.domain''),
         check (dc_discovery_time d = 0) (MustBePositive ''discovery.discovery_time'')]
      else [])"

definition config_validate :: "'sock libs \<Rightarrow> 'sock config \<Rightarrow> (config_error, unit) result" where
  "config_validate L cfg =
     (case run_checks (upstream_checks L cfg @ server_checks (cf_server cfg) @ cache_checks (cf_cache cfg)
         @ logging_checks (lib_targets L) (cf_logging cfg) @ mesh_checks (cf_mesh cfg)
         @ discovery_checks (cf_discovery cfg)) of
        Err e \<Rightarrow> Err (Validation e)
      | Ok _ \<Rightarrow> Ok ())"

definition config_check :: "os \<Rightarrow> 'sock libs \<Rightarrow> string \<Rightarrow> (config_error, unit) result" where
  "config_check E L path =
     (case config_parse E L path of Err e \<Rightarrow> Err e | Ok cfg \<Rightarrow> config_validate L cfg)"

section \<open>Lemmas\<close>

lemma check_Ok [simp]: "check c e = Ok () \<longleftrightarrow> \<not> c"
  by (simp add: check_def)

lemma run_checks_Ok: "run_checks cs = Ok () \<longleftrightarrow> (\<forall>c \<in> set cs. c = Ok ())"
  by (induction cs) (auto split: sum.split)

lemma run_checks_first:
  "run_checks cs = Err e \<longleftrightarrow> (\<exists>i < length cs. cs ! i = Err e \<and> (\<forall>j < i. cs ! j = Ok ()))"
proof (induction cs)
  case (Cons c cs)
  show ?case
  proof (cases c)
    case (Inl e')
    then show ?thesis by (auto simp: nth_Cons split: nat.splits) (metis Zero_not_Suc nat.exhaust neq0_conv sum.distinct(1))
  next
    case (Inr u)
    show ?thesis
    proof
      assume "run_checks (c # cs) = Err e"
      with Inr Cons obtain i where "i < length cs" "cs ! i = Err e" "\<forall>j < i. cs ! j = Ok ()" by auto
      with Inr show "\<exists>i < length (c # cs). (c # cs) ! i = Err e \<and> (\<forall>j < i. (c # cs) ! j = Ok ())"
        by (intro exI [of _ "Suc i"]) (auto simp: nth_Cons split: nat.split)
    next
      assume "\<exists>i < length (c # cs). (c # cs) ! i = Err e \<and> (\<forall>j < i. (c # cs) ! j = Ok ())"
      then obtain i where i: "i < length (c # cs)" "(c # cs) ! i = Err e" "\<forall>j < i. (c # cs) ! j = Ok ()" by blast
      with Inr obtain k where "i = Suc k" by (cases i) auto
      with i Inr Cons show "run_checks (c # cs) = Err e" by fastforce
    qed
  qed
qed simp

lemma enumerate_map_Ok [simp]:
  "(\<forall>c \<in> set (enumerate_map f xs). c = Ok ()) \<longleftrightarrow> (\<forall>i < length xs. f i (xs ! i) = Ok ())"
  by (auto simp: enumerate_map_def)

lemma each_upstream_Ok:
  "each_upstream f i us = Ok us' \<Longrightarrow>
     length us' = length us \<and> (\<forall>j < length us. f (upstream_label (i + j)) (us ! j) = Ok (us' ! j))"
proof (induction f i us arbitrary: us' rule: each_upstream.induct)
  case (2 f i u us)
  from "2.prems" obtain u' us'' where a: "f (upstream_label i) u = Ok u'" "each_upstream f (i + 1) us = Ok us''"
    "us' = u' # us''"
    by (auto split: sum.splits)
  from "2.IH"[OF a(1) a(2)] a show ?case by (auto simp: nth_Cons split: nat.split)
qed simp

lemma each_and_fallback_Ok:
  assumes "each_and_fallback f cfg = Ok cfg'"
  shows "length (cf_upstreams cfg') = length (cf_upstreams cfg)"
    and "j < length (cf_upstreams cfg) \<Longrightarrow> f (upstream_label j) (cf_upstreams cfg ! j) = Ok (cf_upstreams cfg' ! j)"
    and "fb_enabled (cf_fallback cfg') = fb_enabled (cf_fallback cfg)"
    and "if fb_enabled (cf_fallback cfg)
         then f ''fallback_cache'' (fb_upstream (cf_fallback cfg)) = Ok (fb_upstream (cf_fallback cfg'))
         else cf_fallback cfg' = cf_fallback cfg"
    and "cf_server cfg' = cf_server cfg" "cf_cache cfg' = cf_cache cfg" "cf_mesh cfg' = cf_mesh cfg"
      "cf_discovery cfg' = cf_discovery cfg" "cf_logging cfg' = cf_logging cfg"
  using assms each_upstream_Ok[of f 0 "cf_upstreams cfg"]
  by (auto simp: each_and_fallback_def Let_def split: sum.splits if_splits)

lemma env_overrides_Ok:
  assumes "env_overrides E L cfg = Ok cfg'"
  shows "cf_upstreams cfg' = cf_upstreams cfg" "cf_fallback cfg' = cf_fallback cfg" "cf_mesh cfg' = cf_mesh cfg"
    "cf_discovery cfg' = cf_discovery cfg"
    and "(cf_server cfg')\<lparr>sc_listen := l\<rparr> = (cf_server cfg)\<lparr>sc_listen := l\<rparr>"
    and "(cf_cache cfg')\<lparr>cc_db_path := p\<rparr> = (cf_cache cfg)\<lparr>cc_db_path := p\<rparr>"
    and "(cf_logging cfg')\<lparr>lc_level := v\<rparr> = (cf_logging cfg)\<lparr>lc_level := v\<rparr>"
  using assms by (auto simp: env_overrides_def Let_def split: sum.splits option.splits)

lemma resolve_password_file_fields:
  "resolve_password_file E label u = Ok u' \<Longrightarrow>
     uc_password_file u' = uc_password_file u \<and> uc_username u' = uc_username u \<and>
     u'\<lparr>uc_password := pw\<rparr> = u\<lparr>uc_password := pw\<rparr> \<and>
     (case uc_password_file u of
        None \<Rightarrow> u' = u
      | Some path \<Rightarrow> uc_password u = None \<and> (\<exists>secret. read_password_file E path = Ok secret \<and> uc_password u' = Some secret))"
  by (auto simp: resolve_password_file_def split: option.splits if_splits sum.splits)

lemma apply_netrc_fields:
  "uc_password_file (apply_netrc U nrc u) = uc_password_file u"
  "uc_username u \<noteq> [] \<Longrightarrow> apply_netrc U nrc u = u"
  "(apply_netrc U nrc u)\<lparr>uc_username := n, uc_password := pw\<rparr> = u\<lparr>uc_username := n, uc_password := pw\<rparr>"
  "uc_password (apply_netrc U nrc u) = uc_password u \<or> uc_username u = [] \<and>
     (\<exists>auth. netrc_entry U nrc (uc_url u) = Some auth \<and> na_login auth \<noteq> [] \<and>
        uc_username (apply_netrc U nrc u) = na_login auth \<and>
        uc_password (apply_netrc U nrc u) = (if na_password auth = [] then None else Some (na_password auth)))"
  by (auto simp: apply_netrc_def split: option.splits)

lemma netrc_overrides_fields [simp]:
  "length (cf_upstreams (netrc_overrides U nrc cfg)) = length (cf_upstreams cfg)"
  "cf_server (netrc_overrides U nrc cfg) = cf_server cfg" "cf_cache (netrc_overrides U nrc cfg) = cf_cache cfg"
  "cf_mesh (netrc_overrides U nrc cfg) = cf_mesh cfg" "cf_discovery (netrc_overrides U nrc cfg) = cf_discovery cfg"
  "cf_logging (netrc_overrides U nrc cfg) = cf_logging cfg"
  "j < length (cf_upstreams cfg) \<Longrightarrow> cf_upstreams (netrc_overrides U nrc cfg) ! j =
     (case nrc of None \<Rightarrow> cf_upstreams cfg ! j | Some n \<Rightarrow> apply_netrc U n (cf_upstreams cfg ! j))"
  by (auto simp: netrc_overrides_def split: option.split)

text \<open>Loading in its stages.\<close>

lemma config_load_stages:
  assumes "config_load E L path = Ok cfg"
  obtains c0 c1 c2 nrc where
    "(case path of Some p \<Rightarrow> config_parse E L p | None \<Rightarrow> Ok config_default) = Ok c0"
    "env_overrides E L c0 = Ok c1" "each_and_fallback (resolve_password_file E) c1 = Ok c2"
    "load_netrc E = Ok nrc" "cfg = netrc_overrides (lib_url L) nrc c2"
  using assms by (auto simp: config_load_def split: sum.splits)

section \<open>What a valid configuration satisfies\<close>

definition valid_upstream :: "url_lib \<Rightarrow> upstream_config \<Rightarrow> bool" where
  "valid_upstream U u \<longleftrightarrow>
     uc_url u \<noteq> [] \<and> (\<exists>p. U (uc_url u) = Ok p) \<and>
     (uc_public_key u = [] \<or> CHR '':'' \<in> set (uc_public_key u)) \<and>
     (\<forall>k \<in> set (uc_public_keys u). CHR '':'' \<in> set k) \<and>
     (uc_password u = None \<or> uc_password_file u = None) \<and>
     (\<forall>f \<in> set (uc_filters u). pattern f \<noteq> [])"

definition valid_cache :: "cache_config \<Rightarrow> bool" where
  "valid_cache c \<longleftrightarrow>
     f_lt (Fin 0) (cc_latency_alpha c) \<and> f_lt (cc_latency_alpha c) (Fin 1) \<and>
     0 < cc_ttl c \<and> 0 < cc_negative_ttl c \<and> 0 < cc_max_entries c \<and>
     0 < mq_max_concurrent_races (cc_mass_query c) \<and> 0 < mq_per_upstream_max_inflight (cc_mass_query c) \<and>
     0 < mq_in_memory_negative_ttl (cc_mass_query c) \<and> 0 < mq_upstream_cooldown (cc_mass_query c) \<and>
     0 < nh_delay (cc_nar_hedging c) \<and> 0 < nh_max_inflight (cc_nar_hedging c)"

definition valid_config :: "'sock libs \<Rightarrow> 'sock config \<Rightarrow> bool" where
  "valid_config L cfg \<longleftrightarrow>
     cf_upstreams cfg \<noteq> [] \<and> (\<forall>u \<in> set (cf_upstreams cfg). valid_upstream (lib_url L) u) \<and>
     (fb_enabled (cf_fallback cfg) \<longrightarrow> valid_upstream (lib_url L) (fb_upstream (cf_fallback cfg))) \<and>
     1 \<le> sc_cache_priority (cf_server cfg) \<and> 0 < sc_read_timeout (cf_server cfg) \<and> 0 < sc_write_timeout (cf_server cfg) \<and>
     valid_cache (cf_cache cfg) \<and>
     \<not> is_blank (lc_level (cf_logging cfg)) \<and> lib_targets L (lc_level (cf_logging cfg)) = Ok () \<and>
     (mc_enabled (cf_mesh cfg) \<longrightarrow> mc_peers (cf_mesh cfg) \<noteq> []) \<and> 0 < mc_gossip_interval (cf_mesh cfg) \<and>
     (\<forall>peer \<in> set (mc_peers (cf_mesh cfg)). pc_addr peer \<noteq> []) \<and>
     (dc_enabled (cf_discovery cfg) \<longrightarrow> dc_service_name (cf_discovery cfg) \<noteq> [] \<and> dc_domain (cf_discovery cfg) \<noteq> []
        \<and> 0 < dc_discovery_time (cf_discovery cfg))"

lemma all_nth_set: "(\<forall>i < length xs. P (xs ! i)) \<longleftrightarrow> (\<forall>x \<in> set xs. P x)"
  by (metis in_set_conv_nth)

lemma case_sum_unit_Ok [simp]: "(case r of Err e \<Rightarrow> Err (f e) | Ok _ \<Rightarrow> Ok ()) = Ok () \<longleftrightarrow> (\<exists>p. r = Ok p)"
  by (auto split: sum.split)

lemma validate_nix_public_key_Ok: "validate_nix_public_key k label = Ok () \<longleftrightarrow> CHR '':'' \<in> set k"
  by (auto simp: validate_nix_public_key_def)

lemma validate_upstream_Ok: "validate_upstream U label u = Ok () \<longleftrightarrow> valid_upstream U u"
  unfolding validate_upstream_def run_checks_Ok
  by (simp add: ball_Un validate_nix_public_key_Ok valid_upstream_def
      all_nth_set[of _ "\<lambda>k. CHR '':'' \<in> set k"] all_nth_set[of _ "\<lambda>f. pattern f \<noteq> []"] del: not_None_eq run_checks.simps)
    (auto simp del: not_None_eq)

lemma cache_checks_Ok: "(\<forall>c \<in> set (cache_checks c). c = Ok ()) \<longleftrightarrow> valid_cache c"
  by (simp add: cache_checks_def valid_cache_def word_gt_0 not_le)

lemma upstream_checks_Ok:
  "(\<forall>c \<in> set (upstream_checks L cfg). c = Ok ()) \<longleftrightarrow>
     cf_upstreams cfg \<noteq> [] \<and> (\<forall>u \<in> set (cf_upstreams cfg). valid_upstream (lib_url L) u) \<and>
     (fb_enabled (cf_fallback cfg) \<longrightarrow> valid_upstream (lib_url L) (fb_upstream (cf_fallback cfg)))"
  by (auto simp: upstream_checks_def ball_Un validate_upstream_Ok all_nth_set[of _ "valid_upstream (lib_url L)"])

lemma server_checks_Ok:
  "(\<forall>c \<in> set (server_checks s). c = Ok ()) \<longleftrightarrow> 1 \<le> sc_cache_priority s \<and> 0 < sc_read_timeout s \<and> 0 < sc_write_timeout s"
  by (simp add: server_checks_def not_less)

lemma logging_checks_Ok:
  "(\<forall>c \<in> set (logging_checks targets l). c = Ok ()) \<longleftrightarrow> \<not> is_blank (lc_level l) \<and> targets (lc_level l) = Ok ()"
  by (simp add: logging_checks_def)

lemma mesh_checks_Ok:
  "(\<forall>c \<in> set (mesh_checks m). c = Ok ()) \<longleftrightarrow> (mc_enabled m \<longrightarrow> mc_peers m \<noteq> []) \<and> 0 < mc_gossip_interval m \<and>
     (\<forall>peer \<in> set (mc_peers m). pc_addr peer \<noteq> [])"
  by (simp add: mesh_checks_def all_nth_set[of _ "\<lambda>peer. pc_addr peer \<noteq> []"])

lemma discovery_checks_Ok:
  "(\<forall>c \<in> set (discovery_checks d). c = Ok ()) \<longleftrightarrow>
     (dc_enabled d \<longrightarrow> dc_service_name d \<noteq> [] \<and> dc_domain d \<noteq> [] \<and> 0 < dc_discovery_time d)"
  by (cases "dc_enabled d") (simp_all add: discovery_checks_def)

lemmas rest_checks_Ok = server_checks_Ok logging_checks_Ok mesh_checks_Ok discovery_checks_Ok

lemma config_validate_Ok: "config_validate L cfg = Ok () \<longleftrightarrow> valid_config L cfg"
proof -
  have "config_validate L cfg = Ok () \<longleftrightarrow> (\<forall>c \<in> set (upstream_checks L cfg @ server_checks (cf_server cfg)
      @ cache_checks (cf_cache cfg) @ logging_checks (lib_targets L) (cf_logging cfg) @ mesh_checks (cf_mesh cfg)
      @ discovery_checks (cf_discovery cfg)). c = Ok ())"
    unfolding config_validate_def run_checks_Ok[symmetric] by (auto split: sum.split)
  then show ?thesis
    unfolding set_append ball_Un upstream_checks_Ok rest_checks_Ok cache_checks_Ok valid_config_def by blast
qed

section \<open>A configuration on disk\<close>

text \<open>The instances the witnesses run on: one upstream with a password file.\<close>

definition url_demo :: url_lib where
  "url_demo u = (if u = ''http://c'' then Ok \<lparr>u_scheme = ''http'', u_host = Some ''c'', u_path = ''/'', u_query = []\<rparr>
                 else Err ''relative URL without a base'')"

definition upstream_demo :: upstream_config where
  "upstream_demo = upstream_config_default\<lparr>uc_url := ''http://c'', uc_username := ''me'', uc_password_file := Some ''pw''\<rparr>"

definition libs_demo :: "unit libs" where
  "libs_demo = \<lparr>lib_url = url_demo, lib_toml = (\<lambda>_. Ok (config_default\<lparr>cf_upstreams := [upstream_demo]\<rparr>)),
     lib_targets = (\<lambda>_. Ok ()), lib_sock = (\<lambda>_. None)\<rparr>"

definition os_demo :: os where
  "os_demo = \<lparr>os_var = (\<lambda>_. None), os_read = (\<lambda>p. if p = ''pw'' then Ok (''secret'' @ [nl]) else Ok ''toml''),
     os_exists = (\<lambda>_. False), os_netrc = (\<lambda>_. Err ''missing'')\<rparr>"

lemmas config_demo_defs = url_demo_def upstream_demo_def libs_demo_def os_demo_def upstream_config_default_def
  config_default_def fallback_default_def server_default_def cache_default_def mass_query_default_def
  nar_hedging_default_def mesh_default_def discovery_default_def logging_default_def

lemma parse_demo: "config_parse os_demo libs_demo ''c.toml'' = Ok (config_default\<lparr>cf_upstreams := [upstream_demo]\<rparr>)"
  by (simp add: config_parse_def each_and_fallback_def locate_def location_parse_def config_demo_defs Let_def)

lemma read_password_demo: "read_password_file os_demo ''pw'' = Ok ''secret''"
proof -
  have "strip_suffix [nl] (''secret'' @ [nl]) = Some ''secret''" by (rule strip_suffix_append)
  moreover have "strip_suffix [cr] ''secret'' = None" by code_simp
  ultimately show ?thesis by (simp add: read_password_file_def os_demo_def del: append.simps)
qed

lemma load_demo:
  "config_load os_demo libs_demo (Some ''c.toml'') =
     Ok (config_default\<lparr>cf_upstreams := [upstream_demo\<lparr>uc_password := Some ''secret''\<rparr>]\<rparr>)"
  unfolding config_load_def parse_demo option.case sum.case
  by (simp add: env_overrides_def env_var_def each_and_fallback_def
      resolve_password_file_def load_netrc_def netrc_overrides_def config_demo_defs
      read_password_demo[unfolded os_demo_def])

section \<open>Properties\<close>

text \<open>
  C24: Validation accepts a configuration exactly when it satisfies every constraint, and otherwise
  reports the first check of the sequence that fails.
\<close>

theorem config_validate_spec:
  "(config_validate L cfg = Ok () \<longleftrightarrow> valid_config L cfg) \<and>
   (config_validate L cfg = Err (Validation e) \<longleftrightarrow>
      (\<exists>before after. upstream_checks L cfg @ server_checks (cf_server cfg) @ cache_checks (cf_cache cfg)
         @ logging_checks (lib_targets L) (cf_logging cfg) @ mesh_checks (cf_mesh cfg)
         @ discovery_checks (cf_discovery cfg) = before @ Err e # after \<and> list_all (\<lambda>c. c = Ok ()) before))"
proof -
  have first: "run_checks cs = Err e \<longleftrightarrow> (\<exists>before after. cs = before @ Err e # after \<and> list_all (\<lambda>c. c = Ok ()) before)"
    for cs :: "(invalid, unit) result list"
  proof
    assume "run_checks cs = Err e"
    then obtain i where "i < length cs" "cs ! i = Err e" "\<forall>j < i. cs ! j = Ok ()" unfolding run_checks_first by blast
    then have "cs = take i cs @ Err e # drop (Suc i) cs" "list_all (\<lambda>c. c = Ok ()) (take i cs)"
      using id_take_nth_drop[of i cs] by (auto simp: list_all_length)
    then show "\<exists>before after. cs = before @ Err e # after \<and> list_all (\<lambda>c. c = Ok ()) before" by blast
  next
    assume "\<exists>before after. cs = before @ Err e # after \<and> list_all (\<lambda>c. c = Ok ()) before"
    then show "run_checks cs = Err e"
      by (elim exE conjE) (auto simp: run_checks_first nth_append list_all_length intro!: exI)
  qed
  show ?thesis unfolding config_validate_Ok first[symmetric] by (auto simp: config_validate_def split: sum.split)
qed

text \<open>
  Loading fills in credentials and nothing else of an upstream: a configured user name is kept
  with the configured password, or the contents of the password file where one is named; only an
  upstream without a user name can get its credentials from netrc, and it gets them together. The
  mesh, discovery and cache settings are those of the file, apart from the overridden database path.
\<close>

theorem load_credentials:
  assumes load: "config_load E L (Some path) = Ok cfg"
    and parsed: "config_parse E L path = Ok c0"
    and j: "j < length (cf_upstreams c0)"
  shows "length (cf_upstreams cfg) = length (cf_upstreams c0) \<and>
    (cf_upstreams cfg ! j)\<lparr>uc_username := n, uc_password := pw\<rparr> = (cf_upstreams c0 ! j)\<lparr>uc_username := n, uc_password := pw\<rparr> \<and>
    cf_mesh cfg = cf_mesh c0 \<and> cf_discovery cfg = cf_discovery c0 \<and>
    (cf_cache cfg)\<lparr>cc_db_path := d\<rparr> = (cf_cache c0)\<lparr>cc_db_path := d\<rparr> \<and>
    (uc_username (cf_upstreams c0 ! j) \<noteq> [] \<longrightarrow>
      uc_username (cf_upstreams cfg ! j) = uc_username (cf_upstreams c0 ! j) \<and>
      (case uc_password_file (cf_upstreams c0 ! j) of
         None \<Rightarrow> uc_password (cf_upstreams cfg ! j) = uc_password (cf_upstreams c0 ! j)
       | Some p \<Rightarrow> uc_password (cf_upstreams c0 ! j) = None \<and>
           (\<exists>secret. read_password_file E p = Ok secret \<and> uc_password (cf_upstreams cfg ! j) = Some secret)))"
proof -
  obtain c1 c2 nrc where s: "env_overrides E L c0 = Ok c1" "each_and_fallback (resolve_password_file E) c1 = Ok c2"
    "cfg = netrc_overrides (lib_url L) nrc c2"
    using config_load_stages[OF load] parsed by (metis Inr_inject option.case(2))
  note env = env_overrides_Ok[OF s(1)] and pw = each_and_fallback_Ok[OF s(2)]
  from pw(2)[of j] j env(1)
  have r: "resolve_password_file E (upstream_label j) (cf_upstreams c0 ! j) = Ok (cf_upstreams c2 ! j)" by simp
  have j2: "j < length (cf_upstreams c2)" using pw(1) env(1) j by simp
  note f = resolve_password_file_fields[OF r]
  have frame: "(cf_upstreams c2 ! j)\<lparr>uc_username := n, uc_password := pw\<rparr> = (cf_upstreams c0 ! j)\<lparr>uc_username := n, uc_password := pw\<rparr>"
    using f[of pw] by (cases "cf_upstreams c2 ! j"; cases "cf_upstreams c0 ! j") simp
  have "(cf_upstreams cfg ! j)\<lparr>uc_username := n, uc_password := pw\<rparr> = (cf_upstreams c2 ! j)\<lparr>uc_username := n, uc_password := pw\<rparr>"
    using j2 by (cases nrc) (simp_all add: s(3) apply_netrc_fields(3))
  with frame have same: "(cf_upstreams cfg ! j)\<lparr>uc_username := n, uc_password := pw\<rparr> =
    (cf_upstreams c0 ! j)\<lparr>uc_username := n, uc_password := pw\<rparr>" by simp
  have "cf_upstreams cfg ! j = cf_upstreams c2 ! j" if "uc_username (cf_upstreams c0 ! j) \<noteq> []"
    using that j2 f by (cases nrc) (simp_all add: s(3) apply_netrc_fields(2))
  then show ?thesis
    using same env pw f by (auto simp: s(3) split: option.splits)
qed

theorem load_credentials_witness:
  "\<exists>cfg. config_load os_demo libs_demo (Some ''c.toml'') = Ok cfg \<and>
     uc_username (cf_upstreams cfg ! 0) = ''me'' \<and> uc_password (cf_upstreams cfg ! 0) = Some ''secret''"
proof -
  have u: "uc_username upstream_demo = ''me''" "uc_password_file upstream_demo = Some ''pw''"
    by (simp_all add: upstream_demo_def)
  show ?thesis
    using load_credentials[OF load_demo parse_demo, of 0] u read_password_demo load_demo by simp
qed

text \<open>
  C33: An upstream with a password file never starts the server: after loading, the password read
  from the file stands beside the file's name, and validation, which the server runs on the loaded
  configuration, refuses the pair. The one way around it is a netrc entry with an empty password,
  which discards what the file said.
\<close>

theorem password_file_refused:
  assumes "config_load E L path = Ok cfg" and "u \<in> set (cf_upstreams cfg)" and "uc_password_file u \<noteq> None"
  shows "(\<exists>e. config_validate L cfg = Err e) \<or>
    (\<exists>nrc auth. load_netrc E = Ok (Some nrc) \<and> netrc_entry (lib_url L) nrc (uc_url u) = Some auth \<and>
       uc_username u = na_login auth \<and> na_password auth = [])"
proof (cases "uc_password u")
  case (Some secret)
  with assms(2,3) have "\<not> valid_config L cfg" by (auto simp: valid_config_def valid_upstream_def)
  then have "config_validate L cfg \<noteq> Ok ()" by (simp add: config_validate_Ok)
  then show ?thesis by (cases "config_validate L cfg") auto
next
  case None
  obtain c1 c2 nrc where s: "each_and_fallback (resolve_password_file E) c1 = Ok c2" "load_netrc E = Ok nrc"
    "cfg = netrc_overrides (lib_url L) nrc c2"
    using config_load_stages[OF assms(1)] by metis
  obtain j where j: "j < length (cf_upstreams c2)" "u = cf_upstreams cfg ! j"
    using assms(2) by (auto simp: in_set_conv_nth s(3))
  let ?v = "cf_upstreams c2 ! j" and ?w = "cf_upstreams c1 ! j"
  have r: "resolve_password_file E (upstream_label j) ?w = Ok ?v"
    using each_and_fallback_Ok(1,2)[OF s(1)] j(1) by simp
  have "uc_password_file ?v \<noteq> None"
    using assms(3) j by (cases nrc) (simp_all add: s(3) apply_netrc_fields(1))
  with resolve_password_file_fields[OF r, of None] have v: "uc_password ?v \<noteq> None" by (auto split: option.splits)
  with None j obtain n where n: "nrc = Some n" "u = apply_netrc (lib_url L) n ?v" by (cases nrc) (auto simp: s(3))
  with None v apply_netrc_fields(4)[of "lib_url L" n ?v]
  obtain auth where "netrc_entry (lib_url L) n (uc_url ?v) = Some auth" "na_password auth = []"
    "uc_username u = na_login auth"
    by (auto split: if_splits)
  moreover have "uc_url u = uc_url ?v" by (simp add: n(2) apply_netrc_def split: option.split)
  ultimately show ?thesis using s(2) n(1) by auto
qed

theorem password_file_refused_witness:
  "config_check os_demo libs_demo ''c.toml'' = Ok () \<and>
   (\<exists>cfg e. config_load os_demo libs_demo (Some ''c.toml'') = Ok cfg \<and> config_validate libs_demo cfg = Err e)"
proof
  have "\<not> is_blank ''info''" by (simp add: is_blank_def split_whitespace_def)
  then have "valid_config libs_demo (config_default\<lparr>cf_upstreams := [upstream_demo]\<rparr>)"
    by (simp add: valid_config_def valid_upstream_def valid_cache_def config_demo_defs secs_def)
  then show "config_check os_demo libs_demo ''c.toml'' = Ok ()"
    by (simp add: config_check_def parse_demo config_validate_Ok)
  have "load_netrc os_demo = Ok None" by (simp add: load_netrc_def env_var_def os_demo_def)
  with password_file_refused[OF load_demo, of "upstream_demo\<lparr>uc_password := Some ''secret''\<rparr>"] load_demo
  show "\<exists>cfg e. config_load os_demo libs_demo (Some ''c.toml'') = Ok cfg \<and> config_validate libs_demo cfg = Err e"
    by (simp add: upstream_demo_def)
qed

text \<open>
  A listen address is written the way it is read: a port on localhost, on every interface, or
  a socket address, provided the socket address library reads back what it writes and never writes
  one of the two special forms. The empty string asks for inherited sockets.
\<close>

theorem listen_roundtrip:
  assumes "\<And>s. sock (show_sock s) = Some s" and "\<And>s. \<not> prefix '':'' (show_sock s) \<and> \<not> prefix ''localhost:'' (show_sock s)"
    and "\<And>s. show_sock s \<noteq> []"
    and "case l of Localhost p \<Rightarrow> p \<le> u16_max | AnyAddr p \<Rightarrow> p \<le> u16_max | Socket _ \<Rightarrow> True"
  shows "deserialize_listen sock (listen_display show_sock l) = Ok (Some l) \<and> deserialize_listen sock [] = Ok None"
proof -
  have port: "p \<le> u16_max \<Longrightarrow> parse_uint u16_max (show_nat p) = Ok p" for p by (rule parse_uint_show_nat)
  have "listen_from_str sock (listen_display show_sock l) = Ok l"
  proof (cases l)
    case (Localhost p)
    have "strip_prefix '':'' (''localhost:'' @ show_nat p) = None" by (simp add: strip_prefix_def)
    with Localhost assms(4) port[of p] show ?thesis
      by (simp add: listen_from_str_def listen_display_def strip_prefix_append del: append.simps)
  next
    case (AnyAddr p)
    with assms(4) port[of p] show ?thesis
      by (simp add: listen_from_str_def listen_display_def strip_prefix_append del: append.simps)
  next
    case (Socket s)
    with assms(1)[of s] assms(2)[of s] show ?thesis
      by (simp add: listen_from_str_def listen_display_def strip_prefix_def)
  qed
  moreover have "listen_display show_sock l \<noteq> []" using assms(3) by (simp add: listen_display_def split: listen_addr.split)
  ultimately show ?thesis by (simp add: deserialize_listen_def)
qed

theorem listen_roundtrip_witness:
  "deserialize_listen (\<lambda>s. if s = ''[::1]:80'' then Some () else None) (listen_display (\<lambda>_ :: unit. ''[::1]:80'') (Localhost 8080)) = Ok (Some (Localhost 8080))"
  using listen_roundtrip[of "\<lambda>s. if s = ''[::1]:80'' then Some () else None" "\<lambda>_. ''[::1]:80''" "Localhost 8080"]
  by (simp add: u16_max_def)

end
