(* ===== verification/Realisation.thy ===== *)
theory Realisation
  imports Narinfo
begin

text \<open>
  crates/narinfo/src/realisation.rs: the \<open>.doi\<close> files that map a derivation output to its store
  path, and the fingerprint their signatures cover.

  The JSON library is the record \<open>json\<close>: the reader of a build-trace body, the reader of an
  object as its sorted fields, the reader of a list of signatures, the writer of a value, and the
  writer of a string. The compact object a derived \<open>Serialize\<close> writes is spelled out here.
\<close>

datatype drv_output = BuildTrace string string | Legacy

datatype wire_signature = SigText string | SigObject string string

definition wire_to_string :: "wire_signature \<Rightarrow> string" where
  "wire_to_string s = (case s of SigText t \<Rightarrow> t | SigObject key_name sg \<Rightarrow> key_name @ '':'' @ sg)"

record build_trace_body =
  bt_out_path :: string
  bt_signatures :: "wire_signature list"

record 'v json =
  js_body :: "bytes \<Rightarrow> (string, build_trace_body) result"
  js_object :: "bytes \<Rightarrow> (string, (string \<times> 'v) list) result"
  js_signatures :: "'v \<Rightarrow> (string, wire_signature list) result"
  js_show_object :: "(string \<times> 'v) list \<Rightarrow> string"
  js_string :: "string \<Rightarrow> string"

abbreviation quote :: char where "quote \<equiv> CHR 0x22"

text \<open>\<open>serde_json::to_string\<close> of \<open>BuildTraceFingerprint\<close>.\<close>

definition json_key :: "string \<Rightarrow> string" where
  "json_key name = quote # name @ [quote, CHR '':'']"

definition build_trace_fingerprint :: "'v json \<Rightarrow> string \<Rightarrow> string \<Rightarrow> string \<Rightarrow> string" where
  "build_trace_fingerprint J drv_path output_name out_path =
     ''{'' @ json_key ''key'' @ ''{'' @ json_key ''drvPath'' @ js_string J drv_path @ '',''
        @ json_key ''outputName'' @ js_string J output_name @ ''},''
      @ json_key ''value'' @ ''{'' @ json_key ''outPath'' @ js_string J out_path @ ''}}''"

record realisation =
  re_fingerprint :: string
  re_signatures :: "string list"

definition realisation_parse :: "'v json \<Rightarrow> bytes \<Rightarrow> drv_output \<Rightarrow> (string, realisation) result" where
  "realisation_parse J body ident =
     (case ident of
        BuildTrace drv_path output_name \<Rightarrow>
          (case js_body J body of
             Err e \<Rightarrow> Err e
           | Ok b \<Rightarrow> Ok \<lparr>re_fingerprint = build_trace_fingerprint J drv_path output_name (bt_out_path b),
               re_signatures = map wire_to_string (bt_signatures b)\<rparr>)
      | Legacy \<Rightarrow>
          (case js_object J body of
             Err e \<Rightarrow> Err e
           | Ok obj \<Rightarrow>
               (case (case map_of obj ''signatures'' of None \<Rightarrow> Ok [] | Some v \<Rightarrow> js_signatures J v) of
                  Err e \<Rightarrow> Err e
                | Ok sigs \<Rightarrow> Ok \<lparr>re_fingerprint = js_show_object J (remove_key ''signatures'' obj),
                    re_signatures = map wire_to_string sigs\<rparr>)))"

definition realisation_verify :: "crypto \<Rightarrow> realisation \<Rightarrow> string \<Rightarrow> (narinfo_error, bool) result" where
  "realisation_verify C re public_key = verify_fingerprint C (re_fingerprint re) (re_signatures re) public_key"

section \<open>The fingerprint\<close>

text \<open>What the fingerprint needs of the string writer: literals can be told apart as they are read.\<close>

definition js_string_ok :: "'v json \<Rightarrow> bool" where
  "js_string_ok J \<longleftrightarrow> (\<forall>x y r s. js_string J x @ r = js_string J y @ s \<longrightarrow> x = y \<and> r = s)"

lemma js_string_split: "js_string_ok J \<Longrightarrow> js_string J x @ r = js_string J y @ s \<longleftrightarrow> x = y \<and> r = s"
  unfolding js_string_ok_def by blast

lemma build_trace_fingerprint_inject:
  assumes "js_string_ok J"
  shows "build_trace_fingerprint J d n p = build_trace_fingerprint J d' n' p' \<longleftrightarrow> d = d' \<and> n = n' \<and> p = p'"
  unfolding build_trace_fingerprint_def
  by (simp only: same_append_eq js_string_split[OF assms] simp_thms)

text \<open>A writer that escapes quotes and backslashes, for the witnesses.\<close>

definition escape_char :: "char \<Rightarrow> string" where
  "escape_char c = (if c = quote \<or> c = CHR 0x5C then [CHR 0x5C, c] else [c])"

definition quoted :: "string \<Rightarrow> string" where
  "quoted s = quote # concat (map escape_char s) @ [quote]"

lemma escape_char_split [simp]: "escape_char c @ u = escape_char d @ v \<longleftrightarrow> c = d \<and> u = v"
  by (auto simp: escape_char_def)

lemma escape_char_quote [simp]: "escape_char c @ u \<noteq> quote # v" "quote # v \<noteq> escape_char c @ u"
  by (auto simp: escape_char_def)

lemma escaped_split:
  "concat (map escape_char x) @ quote # r = concat (map escape_char y) @ quote # s \<Longrightarrow> x = y \<and> r = s"
proof (induction x arbitrary: y)
  case Nil
  then show ?case by (cases y) simp_all
next
  case (Cons c x)
  then show ?case by (cases y) auto
qed

definition json_demo :: "unit json" where
  "json_demo = \<lparr>js_body = (\<lambda>b. Ok \<lparr>bt_out_path = b, bt_signatures = [SigObject ''k'' (replicate 64 CHR ''@'')]\<rparr>),
     js_object = (\<lambda>_. Err ''not an object''), js_signatures = (\<lambda>_. Ok []), js_show_object = (\<lambda>_. ''{}''),
     js_string = quoted\<rparr>"

lemma json_demo_ok: "js_string_ok json_demo"
  by (auto simp: js_string_ok_def json_demo_def quoted_def dest: escaped_split)

section \<open>Properties\<close>

text \<open>
  A signature accepted for a build-trace body covers the derivation and output it was fetched
  for and the store path it names: two bodies whose accepted fingerprints agree are for the same
  derivation, the same output and the same path. The signature is one of the body's, under the
  given key.
\<close>

theorem realisation_signature_binds:
  assumes "js_string_ok J" and "realisation_parse J body (BuildTrace d n) = Ok re"
    and "realisation_verify C re pk = Ok True"
  shows "\<exists>b name key. js_body J body = Ok b \<and> parse_public_key C pk = Ok (name, key) \<and>
     (\<exists>s \<in> set (bt_signatures b). signs C (build_trace_fingerprint J d n (bt_out_path b)) name key (wire_to_string s)) \<and>
     {x. build_trace_fingerprint J (fst x) (fst (snd x)) (snd (snd x)) = re_fingerprint re} = {(d, n, bt_out_path b)}"
proof -
  from assms(2) obtain b where b: "js_body J body = Ok b"
    "re = \<lparr>re_fingerprint = build_trace_fingerprint J d n (bt_out_path b), re_signatures = map wire_to_string (bt_signatures b)\<rparr>"
    by (auto simp: realisation_parse_def split: sum.splits)
  from assms(3) b(2) obtain name key s where "parse_public_key C pk = Ok (name, key)" "s \<in> set (bt_signatures b)"
    "signs C (build_trace_fingerprint J d n (bt_out_path b)) name key (wire_to_string s)"
    by (auto simp: realisation_verify_def verify_fingerprint_True_iff)
  with b show ?thesis using build_trace_fingerprint_inject[OF assms(1)] by (intro exI conjI) auto
qed

theorem realisation_signature_binds_witness:
  "\<exists>re b. realisation_parse json_demo ''p'' (BuildTrace ''d'' ''o'') = Ok re \<and>
     realisation_verify crypto_demo re (''k:'' @ replicate 32 CHR ''a'') = Ok True \<and>
     js_body json_demo ''p'' = Ok b \<and> bt_out_path b = ''p'' \<and>
     re_fingerprint re = build_trace_fingerprint json_demo ''d'' ''o'' (bt_out_path b)"
proof -
  let ?re = "\<lparr>re_fingerprint = build_trace_fingerprint json_demo ''d'' ''o'' ''p'',
    re_signatures = [''k:'' @ replicate 64 CHR ''@'']\<rparr>"
  have p: "realisation_parse json_demo ''p'' (BuildTrace ''d'' ''o'') = Ok ?re"
    by (simp add: realisation_parse_def json_demo_def wire_to_string_def)
  have v: "realisation_verify crypto_demo ?re (''k:'' @ replicate 32 CHR ''a'') = Ok True"
    by code_simp
  from realisation_signature_binds[OF json_demo_ok p v]
  have "\<exists>b. js_body json_demo ''p'' = Ok b \<and>
     {x. build_trace_fingerprint json_demo (fst x) (fst (snd x)) (snd (snd x)) = re_fingerprint ?re} = {(''d'', ''o'', bt_out_path b)}"
    by blast
  then obtain b where b: "js_body json_demo ''p'' = Ok b"
    "{x. build_trace_fingerprint json_demo (fst x) (fst (snd x)) (snd (snd x)) = re_fingerprint ?re} = {(''d'', ''o'', bt_out_path b)}"
    by blast
  have "(''d'', ''o'', ''p'') \<in> {x. build_trace_fingerprint json_demo (fst x) (fst (snd x)) (snd (snd x)) = re_fingerprint ?re}"
    by simp
  with b have "bt_out_path b = ''p''" by simp
  with p v b(1) show ?thesis by auto
qed

end
