(* ===== verification/Server.thy ===== *)
theory Server
  imports Router Realisation Config
begin

text \<open>
  crates/server/src/lib.rs: the HTTP handlers. A handler takes the application state and returns a
  response with the next state. The router of the model holds the database and the health table
  that \<open>AppState\<close> shares with it.

  The outside of one request is a \<open>server_env\<close>: what each moment of the resolution sees, what the
  backend of an upstream answers to a request, which attempts outlast their limit or panic, the
  order in which the tasks of a set finish, and the events of the hedging loop. A body is the list
  of the chunks of its stream. A header map is a list of pairs with lower-case names.
\<close>

section \<open>Requests and responses\<close>

type_synonym headers = "(string \<times> string) list"

record http_request =
  hq_method :: http_method
  hq_path :: string
  hq_query :: "string option"
  hq_headers :: headers

record http_response =
  hr_status :: nat
  hr_headers :: headers
  hr_chunks :: "(string, bytes) result list"

definition status_response :: "nat \<Rightarrow> http_response" where
  "status_response st = \<lparr>hr_status = st, hr_headers = [], hr_chunks = []\<rparr>"

definition text_response :: "nat \<Rightarrow> string \<Rightarrow> bytes \<Rightarrow> http_response" where
  "text_response st content_type body =
     \<lparr>hr_status = st, hr_headers = [(''content-type'', content_type)], hr_chunks = [Ok body]\<rparr>"

definition bad_gateway :: "bytes \<Rightarrow> http_response" where
  "bad_gateway body = text_response 502 ''text/plain; charset=utf-8'' body"

datatype route_kind = CacheHit | Direct | Hedge | Fallback | Race

definition route_header_value :: "route_kind \<Rightarrow> string" where
  "route_header_value k = (case k of CacheHit \<Rightarrow> ''cache-hit'' | Direct \<Rightarrow> ''direct'' | Hedge \<Rightarrow> ''hedge''
     | Fallback \<Rightarrow> ''fallback'' | Race \<Rightarrow> ''race'')"

section \<open>State and environment\<close>

datatype server_metric =
    NarinfoRequests string
  | NarRequests
  | NarHedges string string nat
  | NarHedgeFailures string

record app_state =
  as_router :: router
  as_upstreams :: "upstream_config list"
  as_fallback :: "upstream_config option"
  as_backends :: upstreams
  as_nar_timeouts :: "string \<rightharpoonup> duration"
  as_default_nar_timeout :: duration
  as_nar_hedging :: nar_hedging_config
  as_cache_priority :: int
  as_want_mass_query :: bool
  as_started :: instant
  as_log :: "server_metric list"

datatype nar_event = Finished nat | Crashed nat | HedgeTimer

record 'v server_env =
  se_first :: env
  se_locked :: env
  se_race :: env
  se_others :: "router \<Rightarrow> router"
  se_send :: "string \<Rightarrow> http_method \<Rightarrow> string \<Rightarrow> headers \<Rightarrow> duration option \<Rightarrow> (backend_error, response option) result"
  se_late :: "string \<Rightarrow> string \<Rightarrow> duration \<Rightarrow> bool"
  se_panics :: "string \<Rightarrow> bool"
  se_schedule :: "nat list"
  se_events :: "nar_event list"
  se_url :: url_lib
  se_header_ok :: "string \<Rightarrow> bool"
  se_json :: "'v json"

definition server_log :: "server_metric list \<Rightarrow> app_state \<Rightarrow> app_state" where
  "server_log ms S = S\<lparr>as_log := as_log S @ ms\<rparr>"

definition state_nar_timeout :: "app_state \<Rightarrow> string \<Rightarrow> duration" where
  "state_nar_timeout S url = (case as_nar_timeouts S url of Some t \<Rightarrow> t | None \<Rightarrow> as_default_nar_timeout S)"

text \<open>\<open>app\<close>: the time-outs of the upstreams and then the fallback; the first entry of a URL stays.\<close>

definition nar_timeouts_of :: "duration \<Rightarrow> upstream_config list \<Rightarrow> string \<rightharpoonup> duration" where
  "nar_timeouts_of read_timeout us =
     map_of (map (\<lambda>u. (uc_url u, case uc_nar_timeout u of Some t \<Rightarrow> t | None \<Rightarrow> read_timeout)) us)"

definition app ::
  "router \<Rightarrow> upstreams \<Rightarrow> upstream_config list \<Rightarrow> upstream_config option \<Rightarrow> nar_hedging_config \<Rightarrow> int \<Rightarrow> bool \<Rightarrow> duration
     \<Rightarrow> instant \<Rightarrow> app_state" where
  "app r backends us fallback hedging cache_priority want_mass_query read_timeout now =
     \<lparr>as_router = r, as_upstreams = us, as_fallback = fallback, as_backends = backends,
      as_nar_timeouts = nar_timeouts_of read_timeout (us @ (case fallback of None \<Rightarrow> [] | Some f \<Rightarrow> [f])),
      as_default_nar_timeout = read_timeout, as_nar_hedging = hedging, as_cache_priority = cache_priority,
      as_want_mass_query = want_mass_query, as_started = now, as_log = []\<rparr>"

section \<open>Provenance and forwarded headers\<close>

definition set_header :: "string \<Rightarrow> string \<Rightarrow> headers \<Rightarrow> headers" where
  "set_header name v hs = remove_key name hs @ [(name, v)]"

definition with_provenance :: "'v server_env \<Rightarrow> http_response \<Rightarrow> string \<Rightarrow> route_kind \<Rightarrow> http_response" where
  "with_provenance E resp upstream route =
     (let source = (case se_url E upstream of
            Ok parsed \<Rightarrow> (case u_host parsed of Some h \<Rightarrow> h | None \<Rightarrow> ''unknown'')
          | Err _ \<Rightarrow> ''unknown'')
      in resp\<lparr>hr_headers := set_header ''x-ncro-route'' (route_header_value route)
           (set_header ''x-ncro-upstream'' (if se_header_ok E source then source else ''unknown'') (hr_headers resp))\<rparr>)"

definition pick_headers :: "string list \<Rightarrow> headers \<Rightarrow> headers" where
  "pick_headers names hs =
     List.map_filter (\<lambda>name. map_option (\<lambda>v. (name, v)) (map_of hs name)) names"

definition forwarded_headers :: "headers \<Rightarrow> hop option \<Rightarrow> headers" where
  "forwarded_headers hs hp =
     pick_headers [''accept'', ''accept-encoding'', ''range''] hs
     @ (case hp of None \<Rightarrow> [] | Some h \<Rightarrow> [(hop_header, hop_outgoing h)])"

definition passed_headers :: "string list" where
  "passed_headers = [''accept-ranges'', ''content-type'', ''content-length'', ''content-range'',
     ''content-encoding'', ''etag'', ''x-nix-signature'', ''cache-control'', ''last-modified'']"

definition response_builder :: "response \<Rightarrow> http_response option" where
  "response_builder resp =
     (if resp_status resp < 100 \<or> 999 < resp_status resp then None
      else Some \<lparr>hr_status = resp_status resp, hr_headers = pick_headers passed_headers (resp_headers resp), hr_chunks = []\<rparr>)"

definition proxy :: "'v server_env \<Rightarrow> app_state \<Rightarrow> string \<Rightarrow> http_method \<Rightarrow> string \<Rightarrow> headers \<Rightarrow> http_response" where
  "proxy E S upstream meth path hs =
     (case se_send E upstream meth path hs (Some (as_default_nar_timeout S)) of
        Ok (Some resp) \<Rightarrow>
          (case response_builder resp of
             None \<Rightarrow> status_response 502
           | Some b \<Rightarrow> b\<lparr>hr_chunks := resp_chunks resp\<rparr>)
      | Ok None \<Rightarrow> status_response 404
      | Err _ \<Rightarrow> bad_gateway ''upstream error'')"

section \<open>Cache info, health and status\<close>

definition cache_info_body :: "bool \<Rightarrow> int \<Rightarrow> string" where
  "cache_info_body want_mass_query cache_priority =
     ''StoreDir: /nix/store'' @ [nl] @ ''WantMassQuery: '' @ (if want_mass_query then ''1'' else ''0'') @ [nl]
       @ ''Priority: '' @ show_int cache_priority @ [nl]"

definition cache_info :: "app_state \<Rightarrow> http_response" where
  "cache_info S = text_response 200 ''text/plain'' (cache_info_body (as_want_mass_query S) (as_cache_priority S))"

definition overall_status :: "upstream_health list \<Rightarrow> string" where
  "overall_status hs =
     (let down_count = length (filter (\<lambda>h. h_status h = Down) hs);
          any_degraded = list_ex (\<lambda>h. h_status h = Degraded) hs
      in if hs \<noteq> [] \<and> down_count = length hs then ''down''
         else if 0 < down_count \<or> any_degraded then ''degraded'' else ''ok'')"

definition health_endpoint :: "app_state \<Rightarrow> http_response" where
  "health_endpoint S =
     (let st = overall_status (sorted_by_latency (rt_prober (as_router S))) in
      text_response (if st = ''down'' then 503 else 200) ''application/json''
        (''{'' @ json_key ''status'' @ quote # st @ [quote] @ ''}''))"

record upstream_status =
  us_url :: string
  us_status :: string
  us_priority :: int
  us_ema_latency_ms :: f64
  us_consecutive_fails :: u32
  us_total_queries :: "64 word"
  us_last_probe_secs_ago :: "nat option"
  us_kind :: string
  us_authenticated :: bool

definition upstream_status_full :: "upstream_health \<Rightarrow> instant \<Rightarrow> string \<Rightarrow> bool \<Rightarrow> upstream_status" where
  "upstream_status_full h now kind authenticated =
     \<lparr>us_url = h_url h, us_status = status_as_str (h_status h), us_priority = h_priority h,
      us_ema_latency_ms = h_ema h, us_consecutive_fails = h_fails h, us_total_queries = h_queries h,
      us_last_probe_secs_ago = map_option (\<lambda>t. (now - t) div 1000000000) (h_last_probe h),
      us_kind = kind, us_authenticated = authenticated\<rparr>"

text \<open>
  The counters shown in \<open>/status\<close>: how often the logs have counted them, and the gauge that the expiry
  task sets.
\<close>

record cache_status =
  cs_route_entries :: int
  cs_narinfo_hits :: nat
  cs_narinfo_misses :: nat
  cs_narinfo_negative_hits :: nat
  cs_nar_requests :: nat

definition cache_status_of :: "int \<Rightarrow> app_state \<Rightarrow> cache_status" where
  "cache_status_of route_entries S =
     (let router = rt_log (as_router S) in
      \<lparr>cs_route_entries = route_entries,
       cs_narinfo_hits = count_list router NarinfoCacheHits,
       cs_narinfo_misses = count_list router NarinfoCacheMisses,
       cs_narinfo_negative_hits = count_list router NarinfoMemoryNegativeHits,
       cs_nar_requests = count_list (as_log S) NarRequests\<rparr>)"

record status_view =
  sv_uptime_secs :: nat
  sv_status :: string
  sv_cache :: cache_status
  sv_cache_priority :: int
  sv_upstream_count :: nat
  sv_fallback_configured :: bool
  sv_upstreams :: "upstream_status list"
  sv_fallback :: "upstream_status option"

text \<open>\<open>/status\<close>, with the value of the gauge of routes.\<close>

definition status_endpoint :: "int \<Rightarrow> app_state \<Rightarrow> instant \<Rightarrow> status_view" where
  "status_endpoint route_entries S now =
     (let sorted = sorted_by_latency (rt_prober (as_router S));
          view = (\<lambda>h. let b = get_backend (as_backends S) (h_url h) in
            upstream_status_full h now (backend_kind b) (backend_is_authenticated b))
      in \<lparr>sv_uptime_secs = (now - as_started S) div 1000000000, sv_status = overall_status sorted,
          sv_cache = cache_status_of route_entries S, sv_cache_priority = as_cache_priority S, sv_upstream_count = length (as_upstreams S),
          sv_fallback_configured = (as_fallback S \<noteq> None), sv_upstreams = map view sorted,
          sv_fallback = map_option (\<lambda>f. let b = get_backend (as_backends S) (uc_url f) in
            upstream_status_full
              (case get_health (rt_prober (as_router S)) (uc_url f) of
                 Some h \<Rightarrow> h | None \<Rightarrow> health_new (uc_url f) (uc_priority f))
              now (backend_kind b) (backend_is_authenticated b)) (as_fallback S)\<rparr>)"

section \<open>The narinfo handler\<close>

definition upstream_urls :: "app_state \<Rightarrow> string list" where
  "upstream_urls S =
     (let urls = map h_url (filter (\<lambda>h. h_status h \<noteq> Down) (sorted_by_latency (rt_prober (as_router S)))) in
      if urls = [] then map uc_url (as_upstreams S) else urls)"

text \<open>The response for a resolution: its bytes, or the upstream's own answer.\<close>

definition narinfo_response ::
  "'v server_env \<Rightarrow> app_state \<Rightarrow> http_request \<Rightarrow> hop \<Rightarrow> resolve_result \<Rightarrow> route_kind \<Rightarrow> http_response" where
  "narinfo_response E S req hp result route =
     with_provenance E
       (case rr_narinfo result of
          Some bs \<Rightarrow> text_response 200 ''text/x-nix-narinfo'' bs
        | None \<Rightarrow> proxy E S (rr_url result) (hq_method req) (hq_path req) (forwarded_headers (hq_headers req) (Some hp)))
       (rr_url result) route"

definition try_fallback_narinfo ::
  "crypto \<Rightarrow> 'v server_env \<Rightarrow> app_state \<Rightarrow> string \<Rightarrow> http_request \<Rightarrow> http_response option \<times> app_state" where
  "try_fallback_narinfo C E S hash req =
     (case as_fallback S of
        None \<Rightarrow> (None, S)
      | Some fallback \<Rightarrow>
          let hp = hop_from_headers (hq_headers req) in
          (case resolve_fallback C (se_race E) (as_router S) hash (uc_url fallback) hp of
             Ok result \<Rightarrow>
               (Some (narinfo_response E S req hp result Fallback), server_log [NarinfoRequests ''200''] S)
           | Err NotFound \<Rightarrow> (Some (status_response 404), server_log [NarinfoRequests ''error''] S)
           | Err _ \<Rightarrow> (None, S)))"

definition narinfo_handler ::
  "crypto \<Rightarrow> jiff \<Rightarrow> 'v server_env \<Rightarrow> app_state \<Rightarrow> string \<Rightarrow> http_request \<Rightarrow> http_response \<times> app_state" where
  "narinfo_handler C J E S hash_narinfo req =
     (case strip_suffix ''.narinfo'' hash_narinfo of
        None \<Rightarrow> (status_response 404, S)
      | Some hash \<Rightarrow>
          if \<not> is_store_hash hash then (status_response 404, S)
          else
            let hp = hop_from_headers (hq_headers req);
                (res, r) = resolve C J (se_first E) (se_locked E) (se_race E) (se_others E)
                  (as_router S) hash (upstream_urls S) hp;
                S1 = S\<lparr>as_router := r\<rparr>;
                failed = (bad_gateway ''upstream unavailable'', server_log [NarinfoRequests ''error''] S1)
            in (case res of
                  Ok result \<Rightarrow>
                    (narinfo_response E S1 req hp result (if rr_cache_hit result then CacheHit else Race),
                     server_log [NarinfoRequests ''200''] S1)
                | Err NotFound \<Rightarrow> (status_response 404, server_log [NarinfoRequests ''error''] S1)
                | Err e \<Rightarrow>
                    if (case e of UpstreamUnavailable \<Rightarrow> True | NoCandidates _ \<Rightarrow> True | _ \<Rightarrow> False) then
                      (case try_fallback_narinfo C E S1 hash req of
                         (Some resp, S2) \<Rightarrow> (resp, S2)
                       | (None, _) \<Rightarrow> failed)
                    else failed))"

section \<open>Realisations\<close>

definition has_extension :: "string \<Rightarrow> string \<Rightarrow> bool" where
  "has_extension name extension =
     (case rsplit_once ''.'' name of Some (_, found) \<Rightarrow> found = extension | None \<Rightarrow> False)"

definition configured_upstream :: "app_state \<Rightarrow> string \<Rightarrow> upstream_config option" where
  "configured_upstream S url = find (\<lambda>u. uc_url u = url) (as_upstreams S)"

definition serves_realisations :: "app_state \<Rightarrow> string \<Rightarrow> bool" where
  "serves_realisations S url = (case configured_upstream S url of None \<Rightarrow> True | Some u \<Rightarrow> uc_realisations u)"

definition realisation_trusted ::
  "crypto \<Rightarrow> 'v server_env \<Rightarrow> app_state \<Rightarrow> string \<Rightarrow> drv_output \<Rightarrow> bytes \<Rightarrow> bool" where
  "realisation_trusted C E S upstream ident body =
     (case public_keys (as_router S) upstream of
        None \<Rightarrow> True
      | Some keys \<Rightarrow>
          (case realisation_parse (se_json E) body ident of
             Err _ \<Rightarrow> False
           | Ok re \<Rightarrow> list_ex (\<lambda>k. case realisation_verify C re k of Ok b \<Rightarrow> b | Err _ \<Rightarrow> False) keys))"

type_synonym fetched_realisation = "string option \<times> bytes"

definition fetch_realisation ::
  "'v server_env \<Rightarrow> string \<Rightarrow> string \<Rightarrow> headers \<Rightarrow> (backend_error, fetched_realisation option) result" where
  "fetch_realisation E upstream path hs =
     (case se_send E upstream GET path hs None of
        Err e \<Rightarrow> Err e
      | Ok None \<Rightarrow> Ok None
      | Ok (Some resp) \<Rightarrow>
          (case resp_body resp of
             Err e \<Rightarrow> Err (BodyError (resp_url resp) e)
           | Ok body \<Rightarrow> Ok (Some (map_of (resp_headers resp) ''content-type'', body))))"

definition realisation_response :: "'v server_env \<Rightarrow> fetched_realisation \<Rightarrow> string \<Rightarrow> route_kind \<Rightarrow> http_response" where
  "realisation_response E found upstream route =
     with_provenance E
       \<lparr>hr_status = 200, hr_headers = (case fst found of None \<Rightarrow> [] | Some ct \<Rightarrow> [(''content-type'', ct)]),
        hr_chunks = [Ok (snd found)]\<rparr> upstream route"

text \<open>The answer of one upstream within its narinfo time-out, or nothing.\<close>

definition realisation_attempt ::
  "'v server_env \<Rightarrow> app_state \<Rightarrow> string \<Rightarrow> hop \<Rightarrow> string \<Rightarrow> fetched_realisation option option" where
  "realisation_attempt E S path hp upstream =
     (if se_late E upstream path (narinfo_timeout (as_router S) upstream) then None
      else case fetch_realisation E upstream path (hop_headers hp) of
        Err _ \<Rightarrow> None
      | Ok found \<Rightarrow> Some found)"

text \<open>
  The tasks of a \<open>JoinSet\<close> in the order they finish: every one of them once, those the schedule
  names first.
\<close>

definition join_order :: "nat list \<Rightarrow> 'a list \<Rightarrow> 'a list" where
  "join_order schedule tasks =
     (let named = filter (\<lambda>i. i < length tasks) (remdups schedule)
      in map (\<lambda>i. tasks ! i) (named @ filter (\<lambda>i. i \<notin> set named) [0..<length tasks]))"

fun realisation_loop ::
  "crypto \<Rightarrow> 'v server_env \<Rightarrow> app_state \<Rightarrow> string \<Rightarrow> drv_output \<Rightarrow> hop \<Rightarrow> string list \<Rightarrow> nat
     \<Rightarrow> http_response option \<times> nat" where
  "realisation_loop C E S path ident hp [] misses = (None, misses)"
| "realisation_loop C E S path ident hp (u # us) misses =
     (if se_panics E u then realisation_loop C E S path ident hp us misses
      else case realisation_attempt E S path hp u of
        Some (Some found) \<Rightarrow>
          if realisation_trusted C E S u ident (snd found)
          then (Some (realisation_response E found u Race), misses)
          else realisation_loop C E S path ident hp us misses
      | Some None \<Rightarrow> realisation_loop C E S path ident hp us (misses + 1)
      | None \<Rightarrow> realisation_loop C E S path ident hp us misses)"

text \<open>The fallback, when it serves realisations: a response, and whether it was asked and missed.\<close>

definition realisation_fallback ::
  "crypto \<Rightarrow> 'v server_env \<Rightarrow> app_state \<Rightarrow> string \<Rightarrow> drv_output \<Rightarrow> hop \<Rightarrow> http_response option \<times> nat \<times> nat" where
  "realisation_fallback C E S path ident hp =
     (case as_fallback S of
        None \<Rightarrow> (None, 0, 0)
      | Some f \<Rightarrow>
          if \<not> uc_realisations f then (None, 0, 0)
          else (case realisation_attempt E S path hp (uc_url f) of
                  Some (Some found) \<Rightarrow>
                    (if realisation_trusted C E S (uc_url f) ident (snd found)
                     then Some (realisation_response E found (uc_url f) Fallback) else None, 1, 0)
                | Some None \<Rightarrow> (None, 1, 1)
                | None \<Rightarrow> (None, 1, 0)))"

definition realisation_handler ::
  "crypto \<Rightarrow> jiff \<Rightarrow> 'v server_env \<Rightarrow> app_state \<Rightarrow> string \<Rightarrow> drv_output \<Rightarrow> hop \<Rightarrow> http_response \<times> app_state" where
  "realisation_handler C J E S path ident hp =
     (let ev = se_first E; r = as_router S in
      if hp = PeerOfPeer \<or> is_negative J (e_fault ev CallIsNegative) (e_ts ev) (rt_db r) path = Ok True
      then (status_response 404, S)
      else
        let tasks = filter (serves_realisations S) (upstream_urls S) in
        (case realisation_loop C E S path ident hp (join_order (se_schedule E) tasks) 0 of
           (Some resp, _) \<Rightarrow> (resp, S)
         | (None, misses) \<Rightarrow>
             (case realisation_fallback C E S path ident hp of
                (Some resp, _, _) \<Rightarrow> (resp, S)
              | (None, asked, missed) \<Rightarrow>
                  (status_response 404,
                   if hp = Client \<and> misses + missed = length tasks + asked then
                     S\<lparr>as_router := r\<lparr>rt_db := snd (set_negative J (e_fault (se_race E) CallSetNegative)
                         (e_ts (se_race E)) (rt_db r) path (rt_negative_ttl r))\<rparr>\<rparr>
                   else S))))"

definition build_trace ::
  "crypto \<Rightarrow> jiff \<Rightarrow> 'v server_env \<Rightarrow> app_state \<Rightarrow> string \<Rightarrow> string \<Rightarrow> http_request \<Rightarrow> http_response \<times> app_state" where
  "build_trace C J E S drv output req =
     (case strip_suffix ''.doi'' output of
        None \<Rightarrow> (status_response 404, S)
      | Some output_name \<Rightarrow>
          if \<not> has_extension drv ''drv'' then (status_response 404, S)
          else realisation_handler C J E S (hq_path req) (BuildTrace drv output_name) (hop_from_headers (hq_headers req)))"

definition legacy_realisation ::
  "crypto \<Rightarrow> jiff \<Rightarrow> 'v server_env \<Rightarrow> app_state \<Rightarrow> string \<Rightarrow> http_request \<Rightarrow> http_response \<times> app_state" where
  "legacy_realisation C J E S doi req =
     (if \<not> has_extension doi ''doi'' then (status_response 404, S)
      else realisation_handler C J E S (hq_path req) Legacy (hop_from_headers (hq_headers req)))"

section \<open>NAR attempts\<close>

record nar_candidate =
  nc_upstream :: string
  nc_path :: string
  nc_route :: route_kind

text \<open>A GET needs a first chunk of the body within the time limit; a HEAD needs the headers only.\<close>

definition try_nar_upstream ::
  "'v server_env \<Rightarrow> http_method \<Rightarrow> headers \<Rightarrow> string \<Rightarrow> string \<Rightarrow> route_kind \<Rightarrow> http_response option" where
  "try_nar_upstream E meth hs upstream path route =
     (case se_send E upstream meth path (forwarded_headers hs None) None of
        Err _ \<Rightarrow> None
      | Ok None \<Rightarrow> None
      | Ok (Some resp) \<Rightarrow>
          (case response_builder resp of
             None \<Rightarrow> None
           | Some b \<Rightarrow>
               if meth = HEAD then Some (with_provenance E b upstream route)
               else (case resp_chunks resp of
                       Ok first # rest \<Rightarrow> Some (with_provenance E (b\<lparr>hr_chunks := Ok first # rest\<rparr>) upstream route)
                     | _ \<Rightarrow> None)))"

definition nar_attempt :: "'v server_env \<Rightarrow> app_state \<Rightarrow> http_method \<Rightarrow> headers \<Rightarrow> nar_candidate \<Rightarrow> http_response option" where
  "nar_attempt E S meth hs c =
     (if se_late E (nc_upstream c) (nc_path c) (state_nar_timeout S (nc_upstream c)) then None
      else try_nar_upstream E meth hs (nc_upstream c) (nc_path c) (nc_route c))"

section \<open>Hedging\<close>

text \<open>
  The loop of \<open>hedged_nar\<close>. The candidates are a stack, its top at the end of the list. A panic of
  the loop itself is the outcome \<open>Panicked\<close>: \<open>select!\<close> with every branch disabled.
\<close>

datatype hedge_outcome = Running | NoResponse | Won http_response | Panicked

record hedge_state =
  hs_attempts :: "nar_candidate list"
  hs_candidates :: "nar_candidate list"
  hs_outcome :: hedge_outcome
  hs_log :: "server_metric list"

definition pop_candidate :: "hedge_state \<Rightarrow> hedge_state" where
  "pop_candidate st =
     (if hs_candidates st = [] then st
      else let c = last (hs_candidates st) in
        st\<lparr>hs_attempts := hs_attempts st @ [c], hs_candidates := butlast (hs_candidates st),
           hs_log := hs_log st @ [NarHedges ''started'' (nc_upstream c) 1]\<rparr>)"

definition hedge_guard :: "http_method \<Rightarrow> nar_hedging_config \<Rightarrow> nat \<Rightarrow> hedge_state \<Rightarrow> bool" where
  "hedge_guard meth cfg max_inflight st \<longleftrightarrow>
     meth \<noteq> HEAD \<and> nh_enabled cfg \<and> length (hs_attempts st) < max_inflight \<and> hs_candidates st \<noteq> []"

text \<open>The test at the head of the loop, and the state of the branches there.\<close>

definition hedge_head :: "http_method \<Rightarrow> nar_hedging_config \<Rightarrow> nat \<Rightarrow> hedge_state \<Rightarrow> hedge_state" where
  "hedge_head meth cfg max_inflight st =
     (if hs_outcome st \<noteq> Running then st
      else if hs_attempts st = [] \<and> hs_candidates st = [] then st\<lparr>hs_outcome := NoResponse\<rparr>
      else if hs_attempts st = [] \<and> \<not> hedge_guard meth cfg max_inflight st then st\<lparr>hs_outcome := Panicked\<rparr>
      else st)"

definition drop_nth :: "nat \<Rightarrow> 'a list \<Rightarrow> 'a list" where
  "drop_nth i xs = take i xs @ drop (Suc i) xs"

fun hedge_event ::
  "(nar_candidate \<Rightarrow> http_response option) \<Rightarrow> http_method \<Rightarrow> nar_hedging_config \<Rightarrow> nat \<Rightarrow> nar_event \<Rightarrow> hedge_state \<Rightarrow> hedge_state" where
  "hedge_event answer meth cfg max_inflight (Finished i) st =
     (if length (hs_attempts st) \<le> i then st
      else let c = hs_attempts st ! i; running = drop_nth i (hs_attempts st) in
        case answer c of
          Some resp \<Rightarrow>
            st\<lparr>hs_attempts := [], hs_outcome := Won resp,
               hs_log := hs_log st
                 @ (if nc_route c = Hedge then [NarHedges ''won'' (nc_upstream c) 1] else [])
                 @ (if running \<noteq> [] then [NarHedges ''cancelled'' (nc_upstream c) (length running)] else [])\<rparr>
        | None \<Rightarrow>
            pop_candidate (st\<lparr>hs_attempts := running, hs_log := hs_log st @ [NarHedgeFailures (nc_upstream c)]\<rparr>))"
| "hedge_event answer meth cfg max_inflight (Crashed i) st =
     (if length (hs_attempts st) \<le> i then st else st\<lparr>hs_attempts := drop_nth i (hs_attempts st)\<rparr>)"
| "hedge_event answer meth cfg max_inflight HedgeTimer st =
     (if hedge_guard meth cfg max_inflight st then pop_candidate st else st)"

definition hedge_step ::
  "(nar_candidate \<Rightarrow> http_response option) \<Rightarrow> http_method \<Rightarrow> nar_hedging_config \<Rightarrow> nat \<Rightarrow> hedge_state \<Rightarrow> nar_event \<Rightarrow> hedge_state" where
  "hedge_step answer meth cfg max_inflight st ev =
     (if hs_outcome st \<noteq> Running then st
      else hedge_head meth cfg max_inflight (hedge_event answer meth cfg max_inflight ev st))"

definition hedge_inflight :: "nar_hedging_config \<Rightarrow> nat" where
  "hedge_inflight cfg = (if nh_enabled cfg then unat (nh_max_inflight cfg) else 1)"

fun pop_all :: "nat \<Rightarrow> hedge_state \<Rightarrow> hedge_state" where
  "pop_all 0 st = st"
| "pop_all (Suc n) st = pop_all n (pop_candidate st)"

text \<open>Before the loop: the initial attempt, and for a HEAD with hedging all the others.\<close>

definition hedge_start :: "http_method \<Rightarrow> nar_hedging_config \<Rightarrow> nar_candidate \<Rightarrow> nar_candidate list \<Rightarrow> hedge_state" where
  "hedge_start meth cfg initial candidates =
     (let st = \<lparr>hs_attempts = [initial], hs_candidates = candidates, hs_outcome = Running, hs_log = []\<rparr> in
      if meth = HEAD \<and> nh_enabled cfg then pop_all (length candidates) st else st)"

definition hedged_nar ::
  "'v server_env \<Rightarrow> app_state \<Rightarrow> http_method \<Rightarrow> headers \<Rightarrow> nar_candidate \<Rightarrow> nar_candidate list \<Rightarrow> nar_event list \<Rightarrow> hedge_state" where
  "hedged_nar E S meth hs initial candidates events =
     (let cfg = as_nar_hedging S; m = hedge_inflight cfg in
      foldl (hedge_step (nar_attempt E S meth hs) meth cfg m)
        (hedge_head meth cfg m (hedge_start meth cfg initial candidates)) events)"

section \<open>The NAR handler\<close>

definition hedge_allowed :: "app_state \<Rightarrow> string \<Rightarrow> bool" where
  "hedge_allowed S url = (case configured_upstream S url of None \<Rightarrow> True | Some u \<Rightarrow> uc_allow_hedging u)"

text \<open>The \<open>BTreeMap\<close> of the usable upstreams by priority, each group in the order of the health table.\<close>

definition by_priority :: "upstream_health list \<Rightarrow> upstream_health list" where
  "by_priority hs =
     concat (map (\<lambda>p. filter (\<lambda>h. h_priority h = p) hs) (remdups_adj (sort (map h_priority hs))))"

definition hedge_candidates ::
  "crypto \<Rightarrow> 'v server_env \<Rightarrow> app_state \<Rightarrow> string option \<Rightarrow> string \<Rightarrow> string \<Rightarrow> bool \<Rightarrow> narinfo option \<Rightarrow> nar_candidate list" where
  "hedge_candidates C E S store_hash path skip include_opt_outs expected =
     (let usable = filter (\<lambda>h. \<not> (h_status h = Down \<or> h_url h = skip) \<and> (include_opt_outs \<or> hedge_allowed S (h_url h)))
            (sorted_by_latency (rt_prober (as_router S)));
          candidate_path = (\<lambda>url. case store_hash of
              None \<Rightarrow> Some path
            | Some h \<Rightarrow>
                (case upstream_nar_path C (se_race E) (as_router S) url h expected (compression_for_nar_url path) of
                   Err _ \<Rightarrow> None
                 | Ok p \<Rightarrow> Some p))
      in rev (List.map_filter (\<lambda>h. map_option (\<lambda>p. \<lparr>nc_upstream = h_url h, nc_path = p, nc_route = Hedge\<rparr>)
           (candidate_path (h_url h))) (by_priority usable)))"

datatype nar_result = Responded http_response | Pending | LoopPanicked

definition nar_fallback :: "'v server_env \<Rightarrow> app_state \<Rightarrow> http_request \<Rightarrow> string \<Rightarrow> http_response" where
  "nar_fallback E S req path_and_query =
     (case as_fallback S of
        None \<Rightarrow> status_response 404
      | Some f \<Rightarrow>
          (case nar_attempt E S (hq_method req) (hq_headers req)
              \<lparr>nc_upstream = uc_url f, nc_path = path_and_query, nc_route = Fallback\<rparr> of
             Some resp \<Rightarrow> resp
           | None \<Rightarrow> status_response 404))"

definition request_path_and_query :: "http_request \<Rightarrow> string" where
  "request_path_and_query req = (case hq_query req of None \<Rightarrow> hq_path req | Some q \<Rightarrow> hq_path req @ ''?'' @ q)"

text \<open>The attempts the handler starts with: the initial one and the stack of hedges, if there is any upstream.\<close>

definition nar_plan ::
  "crypto \<Rightarrow> jiff \<Rightarrow> 'v server_env \<Rightarrow> app_state \<Rightarrow> http_request \<Rightarrow> (nar_candidate \<times> nar_candidate list) option" where
  "nar_plan C J E S req =
     (let nar_url = trim_start_matches slash (hq_path req);
          path_and_query = request_path_and_query req;
          ev = se_first E;
          store_hash = store_hash_from_canonical_nar_url nar_url;
          direct = (case rev (hedge_candidates C E S store_hash path_and_query [] True None) of
              [] \<Rightarrow> None
            | initial # rest \<Rightarrow>
                Some (initial\<lparr>nc_route := Direct\<rparr>, filter (\<lambda>c. hedge_allowed S (nc_upstream c)) (rev rest)))
      in case get_route_by_nar_url J (e_fault ev CallGetRoute) (e_ts ev) (rt_db (as_router S)) nar_url of
           Ok (Some entry) \<Rightarrow>
             if \<not> is_valid (e_ts ev) entry then direct
             else Some (\<lparr>nc_upstream = r_upstream_url entry,
                 nc_path = (if r_upstream_nar_url entry = [] then path_and_query else r_upstream_nar_url entry),
                 nc_route = CacheHit\<rparr>,
               (case map_option narinfo_parse (r_narinfo_bytes entry) of
                  Some (Ok expected) \<Rightarrow>
                    hedge_candidates C E S store_hash path_and_query (r_upstream_url entry) False (Some expected)
                | _ \<Rightarrow> []))
         | _ \<Rightarrow> direct)"

definition nar_handler ::
  "crypto \<Rightarrow> jiff \<Rightarrow> 'v server_env \<Rightarrow> app_state \<Rightarrow> http_request \<Rightarrow> nar_result \<times> app_state" where
  "nar_handler C J E S req =
     (let S1 = server_log [NarRequests] S;
          fallback = Responded (nar_fallback E S req (request_path_and_query req))
      in case nar_plan C J E S req of
           None \<Rightarrow> (fallback, S1)
         | Some (initial, candidates) \<Rightarrow>
             let st = hedged_nar E S (hq_method req) (hq_headers req) initial candidates (se_events E);
                 S2 = server_log (hs_log st) S1
             in (case hs_outcome st of
                   Won resp \<Rightarrow> (Responded resp, S2)
                 | NoResponse \<Rightarrow> (fallback, S2)
                 | Running \<Rightarrow> (Pending, S2)
                 | Panicked \<Rightarrow> (LoopPanicked, S2)))"

end
