(* ===== verification/ServerProps.thy ===== *)
theory ServerProps
  imports Server RouterProps
begin

text \<open>
  What the HTTP handlers guarantee: the bound, the outcome and the end of the hedging loop, the
  trust in realisations, the headers that cross the proxy, the health verdict, and what a client
  can do with a narinfo of the fallback cache.
\<close>

section \<open>The hedging loop\<close>

lemma length_drop_nth: "i < length xs \<Longrightarrow> length (drop_nth i xs) = length xs - 1"
  by (simp add: drop_nth_def)

lemma mset_drop_nth: "i < length xs \<Longrightarrow> add_mset (xs ! i) (mset (drop_nth i xs)) = mset xs"
  using id_take_nth_drop[of i xs] unfolding drop_nth_def by (metis mset_append mset.simps(2) union_mset_add_mset_right)

lemma set_drop_nth: "i < length xs \<Longrightarrow> set xs = insert (xs ! i) (set (drop_nth i xs))"
  using arg_cong[OF mset_drop_nth, of i xs set_mset] by simp

lemma pop_candidate_simps:
  "hs_candidates st = [] \<Longrightarrow> pop_candidate st = st"
  "hs_outcome (pop_candidate st) = hs_outcome st"
  "length (hs_attempts (pop_candidate st)) + length (hs_candidates (pop_candidate st)) =
     length (hs_attempts st) + length (hs_candidates st)"
  "length (hs_attempts (pop_candidate st)) \<le> length (hs_attempts st) + 1"
  "set (hs_attempts (pop_candidate st)) \<union> set (hs_candidates (pop_candidate st)) =
     set (hs_attempts st) \<union> set (hs_candidates st)"
  "hs_candidates st \<noteq> [] \<Longrightarrow> hs_attempts (pop_candidate st) \<noteq> []"
proof -
  show "set (hs_attempts (pop_candidate st)) \<union> set (hs_candidates (pop_candidate st)) =
      set (hs_attempts st) \<union> set (hs_candidates st)"
  proof (cases "hs_candidates st" rule: rev_cases)
    case (snoc cs c)
    then show ?thesis by (auto simp: pop_candidate_def Let_def)
  qed (simp add: pop_candidate_def)
qed (auto simp: pop_candidate_def Let_def)

lemma hedge_head_simps [simp]:
  "hs_attempts (hedge_head meth cfg m st) = hs_attempts st"
  "hs_candidates (hedge_head meth cfg m st) = hs_candidates st"
  "hs_log (hedge_head meth cfg m st) = hs_log st"
  by (auto simp: hedge_head_def)

text \<open>
  The invariant of the loop for a set of planned attempts. A planned attempt is running, waiting,
  answered without a response, or was lost in a crash; a winner is one of the plan.
\<close>

definition hedge_inv ::
  "(nar_candidate \<Rightarrow> http_response option) \<Rightarrow> http_method \<Rightarrow> nat \<Rightarrow> nar_candidate set \<Rightarrow> nar_candidate set \<Rightarrow> hedge_state \<Rightarrow> bool" where
  "hedge_inv answer meth m plan crashed st \<longleftrightarrow>
     set (hs_attempts st) \<union> set (hs_candidates st) \<subseteq> plan \<and>
     (meth \<noteq> HEAD \<longrightarrow> length (hs_attempts st) \<le> max 1 m) \<and>
     (case hs_outcome st of
        Won resp \<Rightarrow> (\<exists>c \<in> plan. answer c = Some resp)
      | _ \<Rightarrow> (\<forall>c \<in> plan. c \<in> set (hs_attempts st) \<or> c \<in> set (hs_candidates st) \<or> answer c = None \<or> c \<in> crashed)) \<and>
     (hs_outcome st = NoResponse \<longrightarrow> hs_attempts st = [] \<and> hs_candidates st = [])"

lemma hedge_inv_head:
  assumes "hedge_inv answer meth m plan crashed st"
  shows "hedge_inv answer meth m plan crashed (hedge_head meth cfg m st)"
  using assms by (auto simp: hedge_inv_def hedge_head_def split: hedge_outcome.splits)

text \<open>The attempts an event list loses: those a task panic takes away.\<close>

fun crashed_by ::
  "(nar_candidate \<Rightarrow> http_response option) \<Rightarrow> http_method \<Rightarrow> nar_hedging_config \<Rightarrow> nat \<Rightarrow> hedge_state \<Rightarrow> nar_event list \<Rightarrow> nar_candidate set" where
  "crashed_by answer meth cfg m st [] = {}"
| "crashed_by answer meth cfg m st (ev # evs) =
     (case ev of Crashed i \<Rightarrow> if i < length (hs_attempts st) then {hs_attempts st ! i} else {} | _ \<Rightarrow> {})
     \<union> crashed_by answer meth cfg m (hedge_step answer meth cfg m st ev) evs"

lemma hedge_inv_step:
  assumes inv: "hedge_inv answer meth m plan crashed st"
  shows "hedge_inv answer meth m plan (crashed \<union> crashed_by answer meth cfg m st [ev])
     (hedge_step answer meth cfg m st ev)"
proof (cases "hs_outcome st = Running")
  case False
  with inv show ?thesis by (auto simp: hedge_step_def hedge_inv_def split: hedge_outcome.splits nar_event.splits)
next
  case run: True
  note i = inv[unfolded hedge_inv_def run hedge_outcome.case]
  have "hedge_inv answer meth m plan (crashed \<union> crashed_by answer meth cfg m st [ev]) (hedge_event answer meth cfg m ev st)"
  proof (cases ev)
    case (Finished k)
    show ?thesis
    proof (cases "k < length (hs_attempts st)")
      case False
      with Finished i run show ?thesis by (auto simp: hedge_inv_def)
    next
      case k: True
      let ?c = "hs_attempts st ! k" and ?r = "drop_nth k (hs_attempts st)"
      have c: "?c \<in> plan" using i nth_mem[OF k] by blast
      note s = set_drop_nth[OF k] and l = length_drop_nth[OF k]
      show ?thesis
      proof (cases "answer ?c")
        case (Some resp)
        with Finished k i c show ?thesis by (auto simp: hedge_inv_def Let_def)
      next
        case None
        let ?st = "st\<lparr>hs_attempts := ?r, hs_log := hs_log st @ [NarHedgeFailures (nc_upstream ?c)]\<rparr>"
        have "length (hs_attempts (pop_candidate ?st)) \<le> length (hs_attempts st)"
          using pop_candidate_simps(4)[of ?st] l k by simp
        moreover note pop_candidate_simps(2,5)[of ?st]
        ultimately show ?thesis
          using Finished k i None s run by (auto simp: hedge_inv_def Let_def)
      qed
    qed
  next
    case (Crashed k)
    show ?thesis
    proof (cases "k < length (hs_attempts st)")
      case False
      with Crashed i run show ?thesis by (auto simp: hedge_inv_def)
    next
      case k: True
      with Crashed i run set_drop_nth[OF k] length_drop_nth[OF k] show ?thesis by (auto simp: hedge_inv_def)
    qed
  next
    case HedgeTimer
    with i run pop_candidate_simps(2,4,5)[of st] show ?thesis
      by (auto simp: hedge_inv_def hedge_guard_def)
  qed
  from hedge_inv_head[OF this] show ?thesis using run by (simp add: hedge_step_def)
qed

lemma hedge_inv_run:
  "hedge_inv answer meth m plan crashed st \<Longrightarrow>
     hedge_inv answer meth m plan (crashed \<union> crashed_by answer meth cfg m st evs)
       (foldl (hedge_step answer meth cfg m) st evs)"
proof (induction evs arbitrary: st crashed)
  case (Cons ev evs)
  from Cons.IH[OF hedge_inv_step[OF Cons.prems, of cfg ev]] show ?case by (simp add: Un_assoc)
qed simp

lemma pop_all_fields:
  "hs_outcome (pop_all n st) = hs_outcome st \<and>
   length (hs_attempts (pop_all n st)) + length (hs_candidates (pop_all n st)) =
     length (hs_attempts st) + length (hs_candidates st) \<and>
   set (hs_attempts (pop_all n st)) \<union> set (hs_candidates (pop_all n st)) =
     set (hs_attempts st) \<union> set (hs_candidates st) \<and>
   (hs_attempts st \<noteq> [] \<longrightarrow> hs_attempts (pop_all n st) \<noteq> [])"
proof (induction n arbitrary: st)
  case (Suc n)
  have "hs_attempts st \<noteq> [] \<longrightarrow> hs_attempts (pop_candidate st) \<noteq> []"
    by (cases "hs_candidates st = []") (simp_all add: pop_candidate_simps)
  with Suc[of "pop_candidate st"] show ?case by (simp add: pop_candidate_simps)
qed simp

lemma hedge_start_fields:
  "hs_outcome (hedge_start meth cfg initial cs) = Running"
  "length (hs_attempts (hedge_start meth cfg initial cs)) + length (hs_candidates (hedge_start meth cfg initial cs)) = Suc (length cs)"
  "set (hs_attempts (hedge_start meth cfg initial cs)) \<union> set (hs_candidates (hedge_start meth cfg initial cs)) = set (initial # cs)"
  "hs_attempts (hedge_start meth cfg initial cs) \<noteq> []"
  "meth \<noteq> HEAD \<Longrightarrow> hs_attempts (hedge_start meth cfg initial cs) = [initial]"
  using pop_all_fields[of "length cs" "\<lparr>hs_attempts = [initial], hs_candidates = cs, hs_outcome = Running, hs_log = []\<rparr>"]
  by (auto simp: hedge_start_def Let_def)

lemma hedge_inv_start:
  "hedge_inv answer meth m (set (initial # cs)) {} (hedge_start meth cfg initial cs)"
  using hedge_start_fields[of meth cfg initial cs] by (auto simp: hedge_inv_def)

lemma hedged_nar_inv:
  "hedge_inv (nar_attempt E S meth hs) meth (hedge_inflight (as_nar_hedging S)) (set (initial # cs))
     (crashed_by (nar_attempt E S meth hs) meth (as_nar_hedging S) (hedge_inflight (as_nar_hedging S))
        (hedge_head meth (as_nar_hedging S) (hedge_inflight (as_nar_hedging S)) (hedge_start meth (as_nar_hedging S) initial cs)) evs)
     (hedged_nar E S meth hs initial cs evs)"
  using hedge_inv_run[OF hedge_inv_head[OF hedge_inv_start]] by (simp add: hedged_nar_def Let_def)

lemma crashed_by_none: "(\<And>i. Crashed i \<notin> set evs) \<Longrightarrow> crashed_by answer meth cfg m st evs = {}"
proof (induction evs arbitrary: st)
  case (Cons ev evs)
  from Cons.prems have "Crashed i \<noteq> ev" "Crashed i \<notin> set evs" for i by auto
  with Cons.IH show ?case by (auto split: nar_event.split)
qed simp

text \<open>Without crashes the loop has an attempt running until it ends, and each answer uses one up.\<close>

definition hedge_tasks :: "hedge_state \<Rightarrow> nat" where
  "hedge_tasks st = length (hs_attempts st) + length (hs_candidates st)"

definition hedge_alive :: "hedge_state \<Rightarrow> bool" where
  "hedge_alive st \<longleftrightarrow> hs_outcome st \<noteq> Panicked \<and> (hs_outcome st = Running \<longrightarrow> hs_attempts st \<noteq> [])"

text \<open>The attempts that end during the run, whichever of those in flight it is each time.\<close>

definition attempt_ends :: "hedge_state \<Rightarrow> nar_event \<Rightarrow> bool" where
  "attempt_ends st ev \<longleftrightarrow> hs_outcome st = Running \<and> (\<exists>i < length (hs_attempts st). ev = Finished i)"

fun attempts_ended ::
  "(nar_candidate \<Rightarrow> http_response option) \<Rightarrow> http_method \<Rightarrow> nar_hedging_config \<Rightarrow> nat \<Rightarrow> hedge_state \<Rightarrow> nar_event list \<Rightarrow> nat" where
  "attempts_ended answer meth cfg m st [] = 0"
| "attempts_ended answer meth cfg m st (ev # evs) =
     (if attempt_ends st ev then 1 else 0) + attempts_ended answer meth cfg m (hedge_step answer meth cfg m st ev) evs"

lemma hedge_step_alive:
  assumes "hedge_alive st" and "\<And>i. ev \<noteq> Crashed i"
  shows "hedge_alive (hedge_step answer meth cfg m st ev) \<and>
    (hs_outcome (hedge_step answer meth cfg m st ev) = Running \<longrightarrow>
       hs_outcome st = Running \<and>
       hedge_tasks (hedge_step answer meth cfg m st ev) + (if attempt_ends st ev then 1 else 0) = hedge_tasks st)"
proof (cases "hs_outcome st = Running")
  case False
  with assms(1) show ?thesis by (simp add: hedge_step_def hedge_alive_def)
next
  case run: True
  with assms(1) have att: "hs_attempts st \<noteq> []" by (simp add: hedge_alive_def)
  show ?thesis
  proof (cases ev)
    case (Finished k)
    show ?thesis
    proof (cases "k < length (hs_attempts st)")
      case False
      with Finished run att show ?thesis
        by (cases k) (auto simp: hedge_step_def hedge_head_def hedge_alive_def attempt_ends_def)
    next
      case k: True
      let ?c = "hs_attempts st ! k" and ?r = "drop_nth k (hs_attempts st)"
      show ?thesis
      proof (cases "answer ?c")
        case (Some resp)
        with Finished k run show ?thesis by (simp add: hedge_step_def hedge_head_def hedge_alive_def Let_def)
      next
        case None
        let ?st = "st\<lparr>hs_attempts := ?r, hs_log := hs_log st @ [NarHedgeFailures (nc_upstream ?c)]\<rparr>"
        have e: "hedge_event answer meth cfg m ev st = pop_candidate ?st"
          using Finished k None by (simp add: Let_def)
        note p = pop_candidate_simps[of ?st]
        have "hs_attempts (pop_candidate ?st) = [] \<Longrightarrow> hs_candidates (pop_candidate ?st) = []"
          by (cases "hs_candidates st = []") (use p(1,6) in simp_all)
        moreover have "hedge_tasks (pop_candidate ?st) + 1 = hedge_tasks st"
          using p(3) length_drop_nth[OF k] k by (simp add: hedge_tasks_def)
        moreover have "attempt_ends st ev" using run k Finished by (simp add: attempt_ends_def)
        ultimately show ?thesis
          using run p(2) by (auto simp: hedge_step_def e hedge_head_def hedge_alive_def hedge_tasks_def)
      qed
    qed
  next
    case HedgeTimer
    with run att pop_candidate_simps(2,3,6)[of st] show ?thesis
      by (auto simp: hedge_step_def hedge_head_def hedge_alive_def hedge_tasks_def hedge_guard_def attempt_ends_def)
  qed (use assms(2) in auto)
qed

lemma hedge_run_alive:
  assumes "hedge_alive st" and "\<And>i. Crashed i \<notin> set evs"
  shows "hedge_alive (foldl (hedge_step answer meth cfg m) st evs) \<and>
    (hs_outcome (foldl (hedge_step answer meth cfg m) st evs) = Running \<longrightarrow>
       attempts_ended answer meth cfg m st evs + hedge_tasks (foldl (hedge_step answer meth cfg m) st evs) = hedge_tasks st)"
  using assms
proof (induction evs arbitrary: st)
  case (Cons ev evs)
  from Cons.prems have "\<And>i. ev \<noteq> Crashed i" "\<And>i. Crashed i \<notin> set evs" by auto
  note s = hedge_step_alive[OF Cons.prems(1) this(1), of answer meth cfg m]
  have frozen: "hs_outcome st' \<noteq> Running \<Longrightarrow> foldl (hedge_step answer meth cfg m) st' evs = st'" for st'
    by (induction evs) (simp_all add: hedge_step_def)
  show ?case
  proof (cases "hs_outcome (hedge_step answer meth cfg m st ev) = Running")
    case True
    with s Cons.IH[OF conjunct1[OF s] \<open>\<And>i. Crashed i \<notin> set evs\<close>] show ?thesis by auto
  next
    case False
    with s frozen[OF False] show ?thesis by simp
  qed
qed simp

lemma attempts_ended_bound:
  assumes "hedge_alive st" and "\<And>i. Crashed i \<notin> set evs"
  shows "attempts_ended answer meth cfg m st evs \<le> hedge_tasks st"
  using assms
proof (induction evs arbitrary: st)
  case (Cons ev evs)
  from Cons.prems have "\<And>i. ev \<noteq> Crashed i" and evs: "\<And>i. Crashed i \<notin> set evs" by auto
  note s = hedge_step_alive[OF Cons.prems(1) this(1), of answer meth cfg m]
  have frozen: "hs_outcome st' \<noteq> Running \<Longrightarrow> attempts_ended answer meth cfg m st' evs = 0" for st'
    by (induction evs) (simp_all add: hedge_step_def attempt_ends_def)
  show ?case
  proof (cases "hs_outcome (hedge_step answer meth cfg m st ev) = Running")
    case True
    with s Cons.IH[OF conjunct1[OF s] evs] show ?thesis by auto
  next
    case False
    have "0 < hedge_tasks st" if "attempt_ends st ev" using that by (auto simp: attempt_ends_def hedge_tasks_def)
    with frozen[OF False] show ?thesis by (auto simp: Suc_le_eq)
  qed
qed simp

lemma hedge_inv_outcome:
  assumes "hedge_inv answer meth m plan crashed st"
  shows "case hs_outcome st of
     Won resp \<Rightarrow> Some resp \<in> answer ` plan
   | NoResponse \<Rightarrow> {c \<in> plan. answer c \<noteq> None} \<subseteq> crashed
   | _ \<Rightarrow> True"
proof (cases "hs_outcome st")
  case (Won resp)
  with assms obtain c where "c \<in> plan" "answer c = Some resp" by (auto simp: hedge_inv_def)
  then have "Some resp \<in> answer ` plan" by (metis image_eqI)
  with Won show ?thesis by simp
qed (use assms in \<open>auto simp: hedge_inv_def\<close>)

section \<open>Properties of hedging\<close>

text \<open>
  C19: A NAR download never has more attempts in flight than the configured bound (one when hedging
  is off), whatever the order of answers, failures, panics and hedge timers; a HEAD is not bounded
  but only ever asks the planned upstreams.
\<close>

theorem hedging_inflight_bound:
  "(if meth = GET then length (hs_attempts (hedged_nar E S meth hs initial cs evs)) \<le> max 1 (hedge_inflight (as_nar_hedging S))
    else length (hs_attempts (hedged_nar E S meth hs initial cs evs)) \<le> Suc (length cs)) \<and>
   set (hs_attempts (hedged_nar E S meth hs initial cs evs)) \<subseteq> set (initial # cs)"
proof -
  let ?st = "hedged_nar E S meth hs initial cs evs"
  have len: "length (hs_attempts st) + length (hs_candidates st) \<le> n \<Longrightarrow>
      length (hs_attempts (foldl (hedge_step answer meth cfg m) st evs))
        + length (hs_candidates (foldl (hedge_step answer meth cfg m) st evs)) \<le> n" for answer cfg m st n
  proof (induction evs arbitrary: st)
    case (Cons ev evs)
    have pop: "length (hs_attempts (pop_candidate st')) + length (hs_candidates (pop_candidate st')) \<le> n"
      if "length (hs_attempts st') + length (hs_candidates st') \<le> n" for st'
      using that pop_candidate_simps(3)[of st'] by simp
    have drop: "length (drop_nth i xs) \<le> length xs" for i and xs :: "nar_candidate list" by (simp add: drop_nth_def)
    have "length (hs_attempts (hedge_event answer meth cfg m ev st))
        + length (hs_candidates (hedge_event answer meth cfg m ev st)) \<le> n"
      using Cons.prems drop[of _ "hs_attempts st"]
      by (cases ev) (auto simp: Let_def intro!: pop split: option.split intro: le_trans[OF add_le_mono1[OF drop]])
    then show ?case using Cons by (simp add: hedge_step_def)
  qed simp
  have "length (hs_attempts ?st) \<le> Suc (length cs)"
    unfolding hedged_nar_def Let_def
    by (rule add_leD1[OF len]) (simp add: hedge_start_fields(2))
  with hedged_nar_inv[of E S meth hs initial cs evs] show ?thesis by (auto simp: hedge_inv_def)
qed

text \<open>
  The outcome of a NAR download is right: a response is one of the planned upstreams' own
  answers, and the loop gives up only when every planned upstream was asked and answered without a
  response (or was lost to a panic of its task).
\<close>

theorem hedging_outcome:
  "case hs_outcome (hedged_nar E S meth hs initial cs evs) of
     Won resp \<Rightarrow> Some resp \<in> nar_attempt E S meth hs ` set (initial # cs)
   | NoResponse \<Rightarrow> {c \<in> set (initial # cs). nar_attempt E S meth hs c \<noteq> None} \<subseteq>
       crashed_by (nar_attempt E S meth hs) meth (as_nar_hedging S) (hedge_inflight (as_nar_hedging S))
         (hedge_head meth (as_nar_hedging S) (hedge_inflight (as_nar_hedging S)) (hedge_start meth (as_nar_hedging S) initial cs)) evs
   | _ \<Rightarrow> True"
  by (rule hedge_inv_outcome[OF hedged_nar_inv])

text \<open>
  C13: A NAR download ends, in whatever order its attempts do: when no task panics, the loop never reaches
  a \<open>select!\<close> with nothing to wait for; while it runs, at least one attempt is in flight, and the attempts
  that have ended, those in flight and those not started add up to the plan, so a download
  whose planned attempts have all ended has a winner or has given up on all of them.
\<close>

theorem hedging_terminates:
  fixes cs :: "nar_candidate list"
  assumes "\<And>i. Crashed i \<notin> set evs"
    and "cfg = as_nar_hedging S" "m = hedge_inflight cfg" "st = hedged_nar E S meth hs initial cs evs"
    and "ended = attempts_ended (nar_attempt E S meth hs) meth cfg m (hedge_head meth cfg m (hedge_start meth cfg initial cs)) evs"
  shows "hs_outcome st \<noteq> Panicked \<and> ended \<le> Suc (length cs) \<and>
    (hs_outcome st = Running \<longrightarrow>
       hs_attempts st \<noteq> [] \<and> ended + length (hs_attempts st) + length (hs_candidates st) = Suc (length cs)) \<and>
    (ended = Suc (length cs) \<longrightarrow> hs_outcome st \<noteq> Running)"
proof -
  let ?st = "hedge_head meth cfg m (hedge_start meth cfg initial cs)"
  have start: "hedge_alive ?st" "hedge_tasks ?st = Suc (length cs)"
    using hedge_start_fields[of meth cfg initial cs]
    by (auto simp: hedge_alive_def hedge_head_def hedge_tasks_def)
  have st: "st = foldl (hedge_step (nar_attempt E S meth hs) meth cfg m) ?st evs"
    using assms(2-4) by (simp add: hedged_nar_def Let_def)
  note r = hedge_run_alive[OF start(1) assms(1), of "nar_attempt E S meth hs" meth cfg m,
      unfolded start(2) st[symmetric] assms(5)[symmetric]]
  have "ended \<le> Suc (length cs)"
    using attempts_ended_bound[OF start(1) assms(1)] by (simp add: assms(5) start(2))
  moreover have "hs_outcome st = Running \<Longrightarrow> hs_attempts st \<noteq> [] \<and>
      ended + length (hs_attempts st) + length (hs_candidates st) = Suc (length cs)"
    using r by (simp add: hedge_alive_def hedge_tasks_def)
  ultimately show ?thesis using r by (auto simp: hedge_alive_def)
qed

section \<open>Headers\<close>

lemma set_pick_headers: "(n, v) \<in> set (pick_headers names hs) \<longleftrightarrow> n \<in> set names \<and> map_of hs n = Some v"
  by (induction names) (auto simp: pick_headers_def List.map_filter_def)

lemma map_of_pick_headers:
  "map_of (pick_headers names hs) n = (if n \<in> set names then map_of hs n else None)"
  by (induction names) (auto simp: pick_headers_def List.map_filter_def)

lemma set_header_names: "fst ` set (set_header n v hs) = insert n (fst ` set hs)"
  by (auto simp: set_header_def remove_key_def image_iff)

lemma map_of_set_header: "map_of (set_header n v hs) m = (if m = n then Some v else map_of hs m)"
  by (induction hs) (auto simp: set_header_def remove_key_def)

lemma with_provenance_fields [simp]:
  "hr_status (with_provenance E resp u k) = hr_status resp"
  "hr_chunks (with_provenance E resp u k) = hr_chunks resp"
  "map_of (hr_headers (with_provenance E resp u k)) ''x-ncro-route'' = Some (route_header_value k)"
  "fst ` set (hr_headers (with_provenance E resp u k)) =
     fst ` set (hr_headers resp) \<union> {''x-ncro-upstream'', ''x-ncro-route''}"
  by (auto simp: with_provenance_def Let_def set_header_names map_of_set_header)

lemma response_builder_names:
  "response_builder resp = Some b \<Longrightarrow> fst ` set (hr_headers b) \<subseteq> set passed_headers"
  by (auto simp: response_builder_def set_pick_headers split: if_splits)

lemma proxy_names: "fst ` set (hr_headers (proxy E S u m p hs)) \<subseteq> set passed_headers"
  by (auto simp: proxy_def status_response_def bad_gateway_def text_response_def split: sum.split option.split
      dest!: response_builder_names) (auto simp: passed_headers_def)

section \<open>A race behind the narinfo handler\<close>

lemma resolve_cached_hit: "resolve_cached C J ev r h hp = (Ok (Some rr), r') \<Longrightarrow> rr_cache_hit rr"
  by (auto simp: resolve_cached_def valid_cached_route_def memory_route_def serve_route_def Let_def
      split: prod.splits sum.splits option.splits if_splits cached_filter_check.splits bool.splits)

lemma resolve_Ok_cases:
  assumes "resolve C J ev1 ev2 ev3 others r h cands hp = (Ok rr, r')"
  shows "rr_cache_hit rr \<or> (\<exists>r3. race C J ev3 r3 h cands hp = (Ok rr, r'))"
  using assms by (auto simp: resolve_def Let_def split: prod.splits sum.splits option.splits if_splits
      dest!: resolve_cached_hit)

lemma race_admissible:
  assumes "race C J ev r h cands hp = (Ok rr, r')"
  shows "rr_url rr \<in> set cands \<and> (\<exists>body ni. admissible C ev r' h hp (rr_url rr) body ni \<and>
     rr_narinfo rr = response_narinfo_bytes r' (rr_url rr) h (Some body))"
proof -
  from race_cases[OF assms] have "same_config r r'" "rr_url rr \<in> set cands" "serves C ev r h hp rr" by auto
  then show ?thesis by (auto simp: serves_def admissible_def config_cong)
qed

lemma Min_top:
  fixes t :: "'a :: linorder"
  shows "finite A \<Longrightarrow> A \<noteq> {} \<Longrightarrow> (\<And>a. a \<in> A \<Longrightarrow> a \<le> t) \<Longrightarrow> Min A = t \<longleftrightarrow> (\<forall>a \<in> A. a = t)"
  by (metis Min_in Min_le antisym)

lemma Max_bot:
  fixes t :: "'a :: linorder"
  shows "finite A \<Longrightarrow> A \<noteq> {} \<Longrightarrow> (\<And>a. a \<in> A \<Longrightarrow> t \<le> a) \<Longrightarrow> Max A = t \<longleftrightarrow> (\<forall>a \<in> A. a = t)"
  by (metis Max_in Max_ge antisym)

lemma route_header_inject [simp]: "route_header_value k = route_header_value k' \<longleftrightarrow> k = k'"
  by (cases k; cases k') (simp_all add: route_header_value_def)

text \<open>
  C12: What a client receives over a race was checked: a response labelled \<open>race\<close> answers a
  well-formed request, comes from one of the upstreams in use, and its body is a narinfo that this
  upstream returned for the hash, verified by one of its registered keys if it has keys, admitted
  by its filters, and changed in its URL line at most.
\<close>

theorem narinfo_race_response:
  assumes "narinfo_handler C J E S name req = (resp, S')"
    and "map_of (hr_headers resp) ''x-ncro-route'' = Some ''race''"
  shows "\<exists>hash u body ni. name = hash @ ''.narinfo'' \<and> is_store_hash hash \<and> u \<in> set (upstream_urls S) \<and>
    e_get (se_race E) u (narinfo_path hash) (hop_headers (hop_from_headers (hq_headers req)))
      (narinfo_timeout (as_router S') u) = Ok (Some body) \<and>
    narinfo_parse body = Ok ni \<and>
    (\<forall>keys. rt_keys (as_router S') u = Some keys \<longrightarrow> (\<exists>k \<in> set keys. narinfo_verify C ni k = Ok True)) \<and>
    rules_allow (rt_filters (as_router S') u) ni \<and>
    hr_status resp = 200 \<and> hr_chunks resp = [Ok (if nar_url_mode (as_router S') u = Keep then body
      else rewrite_narinfo_url body u hash (nar_url_mode (as_router S') u))]"
proof -
  have no_route: "map_of (hr_headers (status_response 404)) ''x-ncro-route'' = None"
    "map_of (hr_headers (bad_gateway b)) ''x-ncro-route'' = None" for b
    by (simp_all add: status_response_def bad_gateway_def text_response_def)
  have race_kind: "''race'' = route_header_value Race" by (simp add: route_header_value_def)
  note route = assms(2)[unfolded race_kind]
  from assms(1) route obtain hash where hash: "name = hash @ ''.narinfo''" "is_store_hash hash"
    by (auto simp: narinfo_handler_def no_route strip_suffix_Some split: option.splits if_splits)
  define hp where "hp = hop_from_headers (hq_headers req)"
  obtain res r where rr: "resolve C J (se_first E) (se_locked E) (se_race E) (se_others E) (as_router S) hash
      (upstream_urls S) hp = (res, r)" by fastforce
  note h = assms(1)[unfolded narinfo_handler_def hash strip_suffix_append option.case Let_def hp_def[symmetric] rr prod.case]
  from h hash(2) route obtain result where ok: "res = Ok result" "\<not> rr_cache_hit result"
    "resp = narinfo_response E (S\<lparr>as_router := r\<rparr>) req hp result Race" "as_router S' = r"
    by (auto simp: no_route narinfo_response_def try_fallback_narinfo_def Let_def server_log_def
        split: sum.splits router_error.splits option.splits if_splits)
  from resolve_Ok_cases[OF rr[unfolded ok(1)]] ok(2) obtain r3 where
    "race C J (se_race E) r3 hash (upstream_urls S) hp = (Ok result, r)" by blast
  from race_admissible[OF this] obtain body ni where b: "rr_url result \<in> set (upstream_urls S)"
    "admissible C (se_race E) r hash hp (rr_url result) body ni"
    "rr_narinfo result = response_narinfo_bytes r (rr_url result) hash (Some body)" by blast
  have "hr_status resp = 200 \<and> hr_chunks resp = [Ok (if nar_url_mode r (rr_url result) = Keep then body
      else rewrite_narinfo_url body (rr_url result) hash (nar_url_mode r (rr_url result)))]"
    by (simp add: ok(3) narinfo_response_def b(3) response_narinfo_bytes_def Let_def text_response_def)
  with hash b(1,2) ok(4) show ?thesis by (auto simp: admissible_def hp_def)
qed

text \<open>
  Only the headers a cache needs cross the proxy. Towards an upstream go \<open>Accept\<close>,
  \<open>Accept-Encoding\<close> and \<open>Range\<close> with the client's values and, for a narinfo, the hop that counts
  this instance; a client's own hop header, cookies and credentials never do. Back come only the
  listed response headers and the two provenance headers.
\<close>

theorem proxied_headers:
  "set (forwarded_headers hs None) \<subseteq> {(n, v). n \<in> {''accept'', ''accept-encoding'', ''range''} \<and> map_of hs n = Some v} \<and>
   set (forwarded_headers hs (Some hp)) = set (forwarded_headers hs None) \<union> {(hop_header, hop_outgoing hp)} \<and>
   hop_from_headers (forwarded_headers hs (Some hp)) = hop_from_headers (hop_headers hp) \<and>
   fst ` set (hr_headers (narinfo_response E S req hp result k))
     \<subseteq> set passed_headers \<union> {''x-ncro-upstream'', ''x-ncro-route''} \<and>
   (case try_nar_upstream E meth hs u path k of
      None \<Rightarrow> True
    | Some resp \<Rightarrow> fst ` set (hr_headers resp) \<subseteq> set passed_headers \<union> {''x-ncro-upstream'', ''x-ncro-route''})"
proof -
  have hop: "hop_header \<notin> {''accept'', ''accept-encoding'', ''range''}" by (simp add: hop_header_def)
  then have "map_of (pick_headers [''accept'', ''accept-encoding'', ''range''] hs) hop_header = None"
    by (simp add: map_of_pick_headers)
  then have hp: "hop_from_headers (forwarded_headers hs (Some hp)) = hop_from_headers (hop_headers hp)"
    by (simp add: hop_from_headers_def forwarded_headers_def hop_headers_def map_add_def)
  have bytes_ok: "fst ` set (hr_headers (text_response st ''text/x-nix-narinfo'' b)) \<subseteq> set passed_headers" for st b
    by (simp add: text_response_def passed_headers_def)
  have "fst ` set (hr_headers (narinfo_response E S req hp result k))
     \<subseteq> set passed_headers \<union> {''x-ncro-upstream'', ''x-ncro-route''}"
    unfolding narinfo_response_def with_provenance_fields(4)
    by (cases "rr_narinfo result"; simp only: option.case; intro Un_mono proxy_names bytes_ok subset_refl)
  moreover have "case try_nar_upstream E meth hs u path k of
      None \<Rightarrow> True
    | Some resp \<Rightarrow> fst ` set (hr_headers resp) \<subseteq> set passed_headers \<union> {''x-ncro-upstream'', ''x-ncro-route''}"
    using response_builder_names
    by (fastforce simp: try_nar_upstream_def split: sum.split option.split list.split if_splits)
  ultimately show ?thesis using hp by (auto simp: forwarded_headers_def set_pick_headers)
qed

text \<open>
  The verdict of \<open>/health\<close> follows the worst and the best upstream: it is \<open>down\<close>, with
  status 503, exactly when even the best upstream is down, \<open>ok\<close> exactly when the worst is active,
  and \<open>degraded\<close> in between.
\<close>

theorem overall_status_extremes:
  "overall_status (h # hs) =
     (if Min (h_status ` set (h # hs)) = Down then ''down''
      else if Max (h_status ` set (h # hs)) = Active then ''ok'' else ''degraded'') \<and>
   overall_status [] = ''ok'' \<and>
   (hr_status (health_endpoint S) = 503 \<longleftrightarrow>
      sorted_by_latency (rt_prober (as_router S)) \<noteq> [] \<and>
      Min (h_status ` set (sorted_by_latency (rt_prober (as_router S)))) = Down)"
proof -
  have len: "length (filter P xs) = length xs \<longleftrightarrow> list_all P xs" for P and xs :: "upstream_health list"
    by (induction xs) (auto simp: list_all_iff dest: length_filter_less)
  have mn: "Min (h_status ` set xs) = Down \<longleftrightarrow> list_all (\<lambda>h. h_status h = Down) xs"
    if "xs \<noteq> []" for xs :: "upstream_health list"
    using Min_top[of "h_status ` set xs" Down] that by (simp add: health_status_bounds list_all_iff)
  have mx: "Max (h_status ` set xs) = Active \<longleftrightarrow> list_all (\<lambda>h. h_status h = Active) xs"
    if "xs \<noteq> []" for xs :: "upstream_health list"
    using Max_bot[of "h_status ` set xs" Active] that by (simp add: health_status_bounds list_all_iff)
  have act: "list_all (\<lambda>h. h_status h = Active) xs \<longleftrightarrow>
      filter (\<lambda>h. h_status h = Down) xs = [] \<and> \<not> list_ex (\<lambda>h. h_status h = Degraded) xs" for xs :: "upstream_health list"
  proof -
    have "h_status h = Active \<longleftrightarrow> h_status h \<noteq> Down \<and> h_status h \<noteq> Degraded" for h :: upstream_health
      by (cases "h_status h") simp_all
    then show ?thesis unfolding list_all_iff list_ex_iff filter_empty_conv by blast
  qed
  have spec: "overall_status xs = (if Min (h_status ` set xs) = Down then ''down''
      else if Max (h_status ` set xs) = Active then ''ok'' else ''degraded'')" if "xs \<noteq> []" for xs
    using that by (simp add: overall_status_def Let_def len mn mx act)
  show ?thesis
    using spec[of "h # hs"] spec[of "sorted_by_latency (rt_prober (as_router S))"]
    by (auto simp: health_endpoint_def text_response_def Let_def overall_status_def split: if_splits)
qed

section \<open>Realisations\<close>

lemma join_order_mset: "mset (join_order sched tasks) = mset tasks"
proof -
  let ?named = "filter (\<lambda>i. i < length tasks) (remdups sched)"
  have d: "distinct (?named @ filter (\<lambda>i. i \<notin> set ?named) [0..<length tasks])" by auto
  have "set (?named @ filter (\<lambda>i. i \<notin> set ?named) [0..<length tasks]) = {0..<length tasks}" by auto
  with d have "mset (?named @ filter (\<lambda>i. i \<notin> set ?named) [0..<length tasks]) = mset [0..<length tasks]"
    by (metis atLeastLessThan_upt distinct_upt set_eq_iff_mset_eq_distinct)
  then have "mset (map ((!) tasks) (?named @ filter (\<lambda>i. i \<notin> set ?named) [0..<length tasks])) = mset (map ((!) tasks) [0..<length tasks])"
    by (metis mset_map)
  then show ?thesis by (simp add: join_order_def Let_def map_nth del: map_append)
qed

lemma realisation_trusted_iff:
  "realisation_trusted C E S u ident body \<longleftrightarrow>
     (case public_keys (as_router S) u of None \<Rightarrow> True
      | Some keys \<Rightarrow> (\<exists>re k. realisation_parse (se_json E) body ident = Ok re \<and> k \<in> set keys \<and> realisation_verify C re k = Ok True))"
proof -
  have "(case x of Ok b \<Rightarrow> b | Err _ \<Rightarrow> False) \<longleftrightarrow> x = Ok True" for x :: "(narinfo_error, bool) result"
    by (cases x) auto
  then show ?thesis by (auto simp: realisation_trusted_def list_ex_iff split: option.split sum.split)
qed

lemma realisation_loop_cases:
  "realisation_loop C E S path ident hp us m = (res, n) \<Longrightarrow>
     case res of
       Some resp \<Rightarrow> (\<exists>u \<in> set us. \<exists>found. resp = realisation_response E found u Race \<and>
         realisation_attempt E S path hp u = Some (Some found) \<and> realisation_trusted C E S u ident (snd found))
     | None \<Rightarrow> n \<le> m + length us \<and> (n = m + length us \<longrightarrow>
         (\<forall>u \<in> set us. \<not> se_panics E u \<and> realisation_attempt E S path hp u = Some None))"
proof (induction us arbitrary: m)
  case (Cons u us)
  show ?case
  proof (cases "se_panics E u \<or> realisation_attempt E S path hp u = None \<or>
      (\<exists>found. realisation_attempt E S path hp u = Some (Some found) \<and> \<not> realisation_trusted C E S u ident (snd found))")
    case True
    with Cons.prems have "realisation_loop C E S path ident hp us m = (res, n)" by (auto split: if_splits)
    from Cons.IH[OF this] show ?thesis by (auto split: option.splits)
  next
    case False
    show ?thesis
    proof (cases "realisation_attempt E S path hp u = Some None")
      case True
      with False Cons.prems have "realisation_loop C E S path ident hp us (m + 1) = (res, n)" by simp
      from Cons.IH[OF this] True False show ?thesis by (auto split: option.splits)
    next
      case miss: False
      with False Cons.prems show ?thesis by (cases "realisation_attempt E S path hp u") auto
    qed
  qed
qed simp

text \<open>
  C10: A realisation is served only as some upstream, or the enabled fallback, sent it, and only if
  that source has no registered keys or one of them signed the fingerprint that the document yields: for
  a build trace that of the very derivation output asked for, for a legacy document that of the document
  itself, which need not be about the output asked for. The path is remembered as absent only for a client and only
  when every source that serves realisations answered that it has none; an error, a time-out, a
  panic or an untrusted answer is never remembered as absence.
\<close>

theorem realisation_served_or_absent:
  assumes "realisation_handler C J E S path ident hp = (resp, S')"
  shows "(\<exists>u k found. resp = realisation_response E found u k \<and> S' = S \<and>
       realisation_attempt E S path hp u = Some (Some found) \<and>
       (k = Race \<and> u \<in> set (upstream_urls S) \<or> k = Fallback \<and> (\<exists>f. as_fallback S = Some f \<and> u = uc_url f \<and> uc_realisations f)) \<and>
       (\<forall>keys. public_keys (as_router S) u = Some keys \<longrightarrow>
          (\<exists>re k. realisation_parse (se_json E) (snd found) ident = Ok re \<and> k \<in> set keys \<and> realisation_verify C re k = Ok True))) \<or>
    resp = status_response 404 \<and> (S' = S \<or> hp = Client \<and>
       (\<forall>u \<in> set (upstream_urls S). serves_realisations S u \<longrightarrow>
          \<not> se_panics E u \<and> realisation_attempt E S path hp u = Some None) \<and>
       (\<forall>f. as_fallback S = Some f \<longrightarrow> uc_realisations f \<longrightarrow> realisation_attempt E S path hp (uc_url f) = Some None))"
proof -
  let ?tasks = "filter (serves_realisations S) (upstream_urls S)"
  let ?order = "join_order (se_schedule E) ?tasks"
  have order: "set ?order = set ?tasks" "length ?order = length ?tasks"
    using join_order_mset by (metis set_mset_mset, metis size_mset)
  obtain res n where l: "realisation_loop C E S path ident hp ?order 0 = (res, n)" by fastforce
  obtain fres asked missed where f: "realisation_fallback C E S path ident hp = (fres, asked, missed)"
    using prod_cases3 by blast
  have fc: "case fres of
      Some resp \<Rightarrow> (\<exists>f found. as_fallback S = Some f \<and> uc_realisations f \<and> resp = realisation_response E found (uc_url f) Fallback \<and>
        realisation_attempt E S path hp (uc_url f) = Some (Some found) \<and> realisation_trusted C E S (uc_url f) ident (snd found))
    | None \<Rightarrow> missed \<le> asked \<and> (missed = asked \<longrightarrow>
        (\<forall>f. as_fallback S = Some f \<longrightarrow> uc_realisations f \<longrightarrow> realisation_attempt E S path hp (uc_url f) = Some None))"
    using f by (auto simp: realisation_fallback_def split: option.splits if_splits)
  note lc = realisation_loop_cases[OF l] and h = assms[unfolded realisation_handler_def Let_def l f prod.case]
  show ?thesis
  proof (cases res)
    case (Some r)
    with lc h order(1) show ?thesis
      by (fastforce simp: realisation_trusted_iff split: if_splits option.splits)
  next
    case None
    show ?thesis
    proof (cases fres)
      case (Some r)
      with None fc h show ?thesis
        by (fastforce simp: realisation_trusted_iff split: if_splits option.splits)
    next
      case fnone: None
      have "n + missed = length ?tasks + asked \<Longrightarrow> n = length ?tasks \<and> missed = asked"
        using lc fc None fnone order(2) by auto
      with None fnone lc fc h order show ?thesis by (auto split: if_splits)
    qed
  qed
qed

section \<open>The fallback cache\<close>

lemma nar_plan_none:
  assumes "list_all (\<lambda>h. h_status h = Down) (sorted_by_latency (rt_prober (as_router S)))"
    and "get_route_by_nar_url J (e_fault (se_first E) CallGetRoute) (e_ts (se_first E)) (rt_db (as_router S))
           (trim_start_matches slash (hq_path req)) = Ok None"
  shows "nar_plan C J E S req = None"
proof -
  have "filter (\<lambda>h. \<not> (h_status h = Down \<or> h_url h = []) \<and> (True \<or> hedge_allowed S (h_url h)))
      (sorted_by_latency (rt_prober (as_router S))) = []"
    using assms(1) by (auto simp: filter_empty_conv list_all_iff)
  then have "hedge_candidates C E S sh p [] True None = []" for sh p
    by (simp add: hedge_candidates_def by_priority_def Let_def List.map_filter_def)
  with assms(2) show ?thesis by (simp add: nar_plan_def Let_def)
qed

text \<open>
  C34: With every upstream down, the fallback cache serves narinfos but not their files under the
  default URL mode. The narinfo handed out names the canonical path of this proxy, no route is
  stored for it, and the request for that path can only go on to the fallback under the very same
  path, which the fallback's own narinfo does not name: unless it happens to serve it, the client
  gets 404.
\<close>

theorem fallback_nar_path:
  assumes "as_fallback S = Some f" and "nar_url_mode (as_router S) (uc_url f) = ToSelf"
    and "fetch_narinfo C (se_race E) (as_router S) (uc_url f) h (hop_from_headers (hq_headers req)) = Ok (Some body, ni)"
    and "ni_url ni \<noteq> []" "is_store_hash h" "\<forall>c \<in> set body. code c < 128 \<and> c \<noteq> cr" "ascii_line (uc_url f)"
    and "list_all (\<lambda>h. h_status h = Down) (sorted_by_latency (rt_prober (as_router S)))"
    and "get_route_by_nar_url J (e_fault (se_first E') CallGetRoute) (e_ts (se_first E')) (rt_db (as_router S))
           (canonical_nar_url (ni_url ni) h) = Ok None"
    and "hq_path req' = ''/'' @ canonical_nar_url (ni_url ni) h" "hq_query req' = None"
  shows "\<exists>resp S2 body'. try_fallback_narinfo C E S h req = (Some resp, S2) \<and> hr_status resp = 200 \<and>
    hr_chunks resp = [Ok body'] \<and> narinfo_parse body' = Ok (ni\<lparr>ni_url := canonical_nar_url (ni_url ni) h\<rparr>) \<and>
    fst (nar_handler C J E' S2 req') = Responded
      (case nar_attempt E' S2 (hq_method req') (hq_headers req')
         \<lparr>nc_upstream = uc_url f, nc_path = ''/'' @ canonical_nar_url (ni_url ni) h, nc_route = Fallback\<rparr> of
         Some r \<Rightarrow> r | None \<Rightarrow> status_response 404)"
proof -
  let ?rr = "\<lparr>rr_url = uc_url f, rr_latency_ms = e_elapsed (se_race E), rr_cache_hit = False,
      rr_narinfo = Some (rewrite_narinfo_url body (uc_url f) h ToSelf)\<rparr>"
  let ?S2 = "server_log [NarinfoRequests ''200''] S"
  let ?resp = "narinfo_response E S req (hop_from_headers (hq_headers req)) ?rr Fallback"
  have fb: "try_fallback_narinfo C E S h req = (Some ?resp, ?S2)"
    by (simp add: try_fallback_narinfo_def assms(1) resolve_fallback_def assms(3) response_narinfo_bytes_def assms(2) Let_def)
  have parsed: "narinfo_parse body = Ok ni"
    using fetch_narinfo_Ok[OF assms(3)] by auto
  have body: "narinfo_parse (rewrite_narinfo_url body (uc_url f) h ToSelf) = Ok (ni\<lparr>ni_url := canonical_nar_url (ni_url ni) h\<rparr>)"
    using narinfo_parse_rewritten[OF parsed assms(4,6,7,5), of ToSelf] by (simp add: rewrite_nar_url_value_def)
  have "trim_start_matches slash (hq_path req') = canonical_nar_url (ni_url ni) h"
    by (simp add: assms(10) trim_start_matches_def canonical_nar_url_def)
  with assms(8,9) have "nar_plan C J E' ?S2 req' = None"
    by (intro nar_plan_none) (simp_all add: server_log_def)
  then have "fst (nar_handler C J E' ?S2 req') = Responded (nar_fallback E' ?S2 req' (''/'' @ canonical_nar_url (ni_url ni) h))"
    by (simp add: nar_handler_def Let_def request_path_and_query_def assms(10,11) nar_fallback_def server_log_def assms(1)
        nar_attempt_def state_nar_timeout_def)
  moreover have "hr_status ?resp = 200" "hr_chunks ?resp = [Ok (rewrite_narinfo_url body (uc_url f) h ToSelf)]"
    by (simp_all add: narinfo_response_def text_response_def)
  ultimately show ?thesis
    using fb body by (intro exI[of _ ?resp] exI[of _ ?S2] exI conjI) (auto simp: nar_fallback_def server_log_def assms(1))
qed

section \<open>Concrete requests\<close>

definition response_demo :: response where
  "response_demo = \<lparr>resp_url = ''u'', resp_status = 200, resp_headers = [], resp_chunks = [Ok ''data'']\<rparr>"

text \<open>Backends that have files at the paths their narinfos name, and realisations.\<close>

definition send_demo :: "string \<Rightarrow> http_method \<Rightarrow> string \<Rightarrow> headers \<Rightarrow> duration option \<Rightarrow> (backend_error, response option) result" where
  "send_demo u m p hs t = (if p = ''/nar/x.nar'' \<or> p = ''/realisations/r.doi'' then Ok (Some response_demo) else Ok None)"

definition senv_demo :: "unit server_env" where
  "senv_demo = \<lparr>se_first = env_demo True, se_locked = env_demo True, se_race = env_demo True, se_others = id,
     se_send = send_demo, se_late = (\<lambda>_ _ _. False), se_panics = (\<lambda>_. False), se_schedule = [], se_events = [],
     se_url = url_demo, se_header_ok = (\<lambda>_. True), se_json = json_demo\<rparr>"

definition state_demo :: app_state where
  "state_demo = app router_demo Map.empty [upstream_config_default\<lparr>uc_url := ''u''\<rparr>]
     (Some (upstream_config_default\<lparr>uc_url := ''http://c''\<rparr>)) nar_hedging_default 30 True (secs 30) 0"

definition get_demo :: "string \<Rightarrow> headers \<Rightarrow> http_request" where
  "get_demo path hs = \<lparr>hq_method = GET, hq_path = path, hq_query = None, hq_headers = hs\<rparr>"

definition hash_demo :: string where
  "hash_demo = ''p4pclmv1gyja5kzc26npqpia1qqxrf0l''"

lemmas server_demo_defs = senv_demo_def state_demo_def app_def get_demo_def send_demo_def response_demo_def
  upstream_config_default_def nar_hedging_default_def

lemma hash_demo_ok: "is_store_hash hash_demo"
  by (simp add: hash_demo_def is_store_hash_def nix_base32_alphabet_def)

lemma render_demo_ascii: "\<forall>c \<in> set (narinfo_render ni_demo). code c < 128 \<and> c \<noteq> cr"
proof -
  have "show_nat 0 = ''0''" by code_simp
  then show ?thesis by (simp add: narinfo_render_def narinfo_fields_def narinfo_default_def line_def ni_demo_def)
qed

text \<open>Two attempts in flight end in the order opposite to that of their start.\<close>

theorem hedging_terminates_witness:
  "hs_outcome (hedged_nar senv_demo state_demo GET [] \<lparr>nc_upstream = ''u'', nc_path = ''/gone'', nc_route = CacheHit\<rparr>
     [\<lparr>nc_upstream = ''v'', nc_path = ''/gone'', nc_route = Hedge\<rparr>] [HedgeTimer, Finished 1, Finished 0]) \<notin> {Panicked, Running}"
proof -
  let ?u = "\<lparr>nc_upstream = ''u'', nc_path = ''/gone'', nc_route = CacheHit\<rparr>"
  let ?v = "\<lparr>nc_upstream = ''v'', nc_path = ''/gone'', nc_route = Hedge\<rparr>"
  let ?evs = "[HedgeTimer, Finished 1, Finished 0]" and ?cfg = "as_nar_hedging state_demo"
  let ?answer = "nar_attempt senv_demo state_demo GET []"
  have none: "?answer ?u = None" "?answer ?v = None"
    by (simp_all add: nar_attempt_def try_nar_upstream_def server_demo_defs demo_defs Let_def)
  have "attempts_ended ?answer GET ?cfg (hedge_inflight ?cfg)
      (hedge_head GET ?cfg (hedge_inflight ?cfg) (hedge_start GET ?cfg ?u [?v])) ?evs = Suc (length [?v])"
    using none by (simp add: hedge_inflight_def hedge_start_def hedge_head_def hedge_step_def hedge_guard_def
        attempt_ends_def pop_candidate_def drop_nth_def Let_def server_demo_defs)
  from hedging_terminates[OF _ refl refl refl this[symmetric]] show ?thesis by simp
qed

lemma up_demo: "upstream_urls state_demo = [''u'']"
  by (simp add: upstream_urls_def server_demo_defs demo_defs sorted_by_latency_def)

lemma resolve_cached_demo:
  "resolve_cached C jiff_demo (env_demo True) (metrics_add ms router_demo) h hp = (Ok None, metrics_add ms router_demo)"
  by (simp add: resolve_cached_def valid_cached_route_def cache_get_def cache_new_def is_negative_def get_route_def
      optional_route_def metrics_add_def demo_defs Let_def)

lemma resolve_demo:
  "\<exists>rr r'. resolve C jiff_demo (env_demo True) (env_demo True) (env_demo True) id router_demo h [''u''] Client = (Ok rr, r')
     \<and> \<not> rr_cache_hit rr"
proof -
  obtain rr r' where r: "race C jiff_demo (env_demo True) (metrics_add [NarinfoCacheMisses] router_demo) h [''u''] Client = (Ok rr, r')"
    using demo_race_logged by blast
  have "\<not> rr_cache_hit rr" using race_cases[OF r] by (simp add: serves_def)
  moreover have "resolve_cached C jiff_demo (env_demo True) router_demo h Client = (Ok None, router_demo)"
    using resolve_cached_demo[of C "[]"] by simp
  moreover have "e_contended (env_demo True) = False" by (simp add: env_demo_def)
  ultimately show ?thesis by (simp add: resolve_def count_miss_def resolve_cached_demo r Let_def)
qed

theorem narinfo_race_response_witness:
  "\<exists>resp S' b. narinfo_handler crypto_demo jiff_demo senv_demo state_demo (hash_demo @ ''.narinfo'')
       (get_demo (''/'' @ hash_demo @ ''.narinfo'') []) = (resp, S') \<and> hr_status resp = 200 \<and> hr_chunks resp = [Ok b]"
proof -
  let ?req = "get_demo (''/'' @ hash_demo @ ''.narinfo'') []"
  have hp: "hop_from_headers (hq_headers ?req) = Client" by (simp add: hop_from_headers_def get_demo_def)
  have r0: "as_router state_demo = router_demo" "se_first senv_demo = env_demo True" "se_locked senv_demo = env_demo True"
    "se_race senv_demo = env_demo True" "se_others senv_demo = id"
    by (simp_all add: state_demo_def app_def senv_demo_def)
  obtain rr r' where r: "resolve crypto_demo jiff_demo (env_demo True) (env_demo True) (env_demo True) id router_demo
      hash_demo [''u''] Client = (Ok rr, r')" "\<not> rr_cache_hit rr"
    using resolve_demo by blast
  then obtain S' where h: "narinfo_handler crypto_demo jiff_demo senv_demo state_demo (hash_demo @ ''.narinfo'') ?req
      = (narinfo_response senv_demo (state_demo\<lparr>as_router := r'\<rparr>) ?req Client rr Race, S')"
    by (simp add: narinfo_handler_def strip_suffix_append hash_demo_ok Let_def r0 up_demo hp del: append.simps)
  from narinfo_race_response[OF h] h show ?thesis by (auto simp: narinfo_response_def route_header_value_def)
qed

theorem fallback_nar_path_witness:
  "\<exists>resp S2. try_fallback_narinfo crypto_demo senv_demo state_demo hash_demo (get_demo ''/x'' []) = (Some resp, S2) \<and>
     hr_status resp = 200 \<and>
     fst (nar_handler crypto_demo jiff_demo senv_demo S2 (get_demo (''/'' @ canonical_nar_url ''nar/x.nar'' hash_demo) []))
       = Responded (status_response 404) \<and>
     se_send senv_demo ''http://c'' GET (''/'' @ relative_nar_url ''nar/x.nar'') [] None = Ok (Some response_demo)"
proof -
  let ?f = "upstream_config_default\<lparr>uc_url := ''http://c''\<rparr>" and ?req = "get_demo ''/x'' []"
  let ?req' = "get_demo (''/'' @ canonical_nar_url ''nar/x.nar'' hash_demo) []"
  have url: "ni_url ni_demo = ''nar/x.nar''" "uc_url ?f = ''http://c''" by (simp_all add: ni_demo_def)
  have f: "as_fallback state_demo = Some ?f" by (simp add: state_demo_def app_def)
  have mode: "nar_url_mode (as_router state_demo) (uc_url ?f) = ToSelf"
    by (simp add: nar_url_mode_def server_demo_defs demo_defs nar_url_mode_default_def)
  have fetch: "fetch_narinfo crypto_demo (se_race senv_demo) (as_router state_demo) (uc_url ?f) hash_demo
      (hop_from_headers (hq_headers ?req)) = Ok (Some (narinfo_render ni_demo), ni_demo)"
    by (simp add: fetch_narinfo_def ni_demo_parse server_demo_defs demo_defs)
  have line: "ascii_line (uc_url ?f)" by (simp add: ascii_line_def)
  have down: "list_all (\<lambda>h. h_status h = Down) (sorted_by_latency (rt_prober (as_router state_demo)))"
    by (simp add: server_demo_defs demo_defs sorted_by_latency_def)
  have route: "get_route_by_nar_url jiff_demo (e_fault (se_first senv_demo) CallGetRoute) (e_ts (se_first senv_demo))
      (rt_db (as_router state_demo)) (canonical_nar_url (ni_url ni_demo) hash_demo) = Ok None"
    by (simp add: get_route_by_nar_url_def optional_route_def server_demo_defs demo_defs)
  have path: "hq_path ?req' = ''/'' @ canonical_nar_url (ni_url ni_demo) hash_demo" "hq_query ?req' = None"
    by (simp_all add: get_demo_def url)
  have canon: "canonical_nar_url ''nar/x.nar'' hash_demo = ''nar/'' @ hash_demo @ ''.nar''"
    by code_simp
  have send: "se_send senv_demo u m (''/'' @ canonical_nar_url (ni_url ni_demo) hash_demo) hs t = Ok None" for u m hs t
    unfolding url canon by (simp add: senv_demo_def send_demo_def hash_demo_def)
  have miss: "nar_attempt senv_demo S m hs \<lparr>nc_upstream = u, nc_path = ''/'' @ canonical_nar_url (ni_url ni_demo) hash_demo,
      nc_route = k\<rparr> = None" for S m hs u k
    unfolding nar_attempt_def try_nar_upstream_def nar_candidate.simps send by simp
  have own: "se_send senv_demo ''http://c'' GET (''/'' @ relative_nar_url ''nar/x.nar'') [] None = Ok (Some response_demo)"
    by (simp add: senv_demo_def send_demo_def relative_nar_url_def split_once_def)
  have ne: "ni_url ni_demo \<noteq> []" by (simp add: url)
  from fallback_nar_path[OF f mode fetch ne hash_demo_ok render_demo_ascii line down route path, unfolded miss option.case, unfolded url(1)]
  show ?thesis using own by blast
qed

theorem realisation_served_or_absent_witness:
  "\<exists>resp S'. realisation_handler crypto_demo jiff_demo senv_demo state_demo ''/realisations/r.doi'' Legacy Client = (resp, S') \<and>
     S' = state_demo \<and> (\<exists>u k found. resp = realisation_response senv_demo found u k)"
proof -
  have n: "is_negative jiff_demo None 0 (rt_db router_demo) p = Ok False" for p
    by (simp add: is_negative_def demo_defs)
  have a: "realisation_attempt senv_demo state_demo ''/realisations/r.doi'' Client ''u'' = Some (Some (None, ''data''))"
    by (simp add: realisation_attempt_def fetch_realisation_def server_demo_defs resp_body_def)
  have t: "realisation_trusted crypto_demo senv_demo state_demo ''u'' Legacy ''data''"
    by (simp add: realisation_trusted_def public_keys_def server_demo_defs demo_defs)
  obtain resp S' where h: "realisation_handler crypto_demo jiff_demo senv_demo state_demo ''/realisations/r.doi'' Legacy Client = (resp, S')"
    by fastforce
  have p: "se_panics senv_demo ''u'' = False" "se_schedule senv_demo = []" "se_first senv_demo = env_demo True"
    "as_router state_demo = router_demo" "e_fault (env_demo True) CallIsNegative = None" "e_ts (env_demo True) = 0"
    by (simp_all add: senv_demo_def state_demo_def app_def env_demo_def)
  have tasks: "filter (serves_realisations state_demo) (upstream_urls state_demo) = [''u'']"
    unfolding up_demo by (simp add: serves_realisations_def configured_upstream_def server_demo_defs)
  have "join_order [] [''u''] = [''u'']" by (simp add: join_order_def)
  then have "hr_status resp = 200"
    using h unfolding realisation_handler_def Let_def tasks
    by (auto simp: a t n p realisation_response_def)
  with realisation_served_or_absent[OF h] h show ?thesis by (auto simp: status_response_def)
qed

end
