(* ===== verification/Mesh.thy ===== *)
theory Mesh
  imports Db
begin

text \<open>
  crates/mesh/src/lib.rs: the node key, signed announcements over UDP, and the merge of announced
  routes into the database.

  Ed25519, MessagePack and hexadecimal are the record \<open>mesh_lib\<close>. The directory of the key is a map
  from paths to contents; which file operations fail is an input. A failing database call of the
  merge is an input of the route it concerns.
\<close>

section \<open>Messages and keys\<close>

type_synonym octets = "u8 list"

definition max_packet_size :: nat where "max_packet_size = 1400"
definition header_size :: nat where "header_size = 96"
definition max_gossip_routes :: int where "max_gossip_routes = 25"

datatype mesh_error =
    ReadKey string string
  | WriteKey string string
  | MeshBind string string
  | MeshSend string string
  | EncodeError string
  | DecodeError string
  | PacketTooShort nat
  | InvalidSignature
  | InvalidKeyFileSize string nat
  | InvalidKeySeed string string
  | Derive string
  | Entropy string

datatype msg_type = Announce

record message =
  m_type :: msg_type
  m_node_id :: string
  m_timestamp :: int
  m_routes :: "route_entry list"

record 'k mesh_lib =
  ml_from_seed :: "octets \<Rightarrow> (string, 'k) result"
  ml_seed :: "'k \<Rightarrow> octets"
  ml_public :: "'k \<Rightarrow> octets"
  ml_sign :: "'k \<Rightarrow> octets \<Rightarrow> octets"
  ml_public_ok :: "octets \<Rightarrow> bool"
  ml_signature_ok :: "octets \<Rightarrow> bool"
  ml_verify :: "octets \<Rightarrow> octets \<Rightarrow> octets \<Rightarrow> bool"
  ml_encode :: "message \<Rightarrow> (string, octets) result"
  ml_decode :: "octets \<Rightarrow> (string, message) result"
  ml_hex :: "octets \<Rightarrow> string"

definition node_id :: "'k mesh_lib \<Rightarrow> 'k \<Rightarrow> string" where
  "node_id L kp = ml_hex L (take 8 (ml_public L kp))"

definition node_sign :: "'k mesh_lib \<Rightarrow> 'k \<Rightarrow> message \<Rightarrow> (mesh_error, octets \<times> octets) result" where
  "node_sign L kp msg =
     (case ml_encode L msg of Err e \<Rightarrow> Err (EncodeError e) | Ok body \<Rightarrow> Ok (body, ml_sign L kp body))"

definition verify_packet :: "'k mesh_lib \<Rightarrow> octets \<Rightarrow> octets \<Rightarrow> octets \<Rightarrow> (mesh_error, unit) result" where
  "verify_packet L pubkey body sg =
     (if \<not> ml_public_ok L pubkey then Err InvalidSignature
      else if \<not> ml_signature_ok L sg then Err InvalidSignature
      else if \<not> ml_verify L pubkey body sg then Err InvalidSignature
      else Ok ())"

definition encode_packet :: "'k mesh_lib \<Rightarrow> 'k \<Rightarrow> message \<Rightarrow> (mesh_error, octets) result" where
  "encode_packet L kp msg =
     (case node_sign L kp msg of
        Err e \<Rightarrow> Err e
      | Ok (body, sg) \<Rightarrow> Ok (ml_public L kp @ sg @ body))"

definition decode_packet :: "'k mesh_lib \<Rightarrow> octets \<Rightarrow> (mesh_error, octets \<times> octets \<times> octets \<times> message) result" where
  "decode_packet L packet =
     (if length packet < header_size then Err (PacketTooShort (length packet))
      else
        let pubkey = take 32 packet; sg = take (header_size - 32) (drop 32 packet); body = drop header_size packet
        in (case ml_decode L body of Err e \<Rightarrow> Err (DecodeError e) | Ok msg \<Rightarrow> Ok (pubkey, sg, body, msg)))"

section \<open>The key file\<close>

datatype disk_op = ReadFile | MakeDirs | OpenTemp | WriteTemp | LinkKey | RemoveTemp

type_synonym disk = "string \<rightharpoonup> octets"

text \<open>The parent of a path is empty when no slash separates it from the last component.\<close>

definition has_parent :: "string \<Rightarrow> bool" where
  "has_parent path \<longleftrightarrow> CHR ''/'' \<in> set (trim_end_matches CHR ''/'' path)"

definition temporary_key_path :: "'k mesh_lib \<Rightarrow> (string, octets) result \<Rightarrow> string \<Rightarrow> (mesh_error, string) result" where
  "temporary_key_path L random path =
     (case random of
        Err e \<Rightarrow> Err (Entropy e)
      | Ok bs \<Rightarrow> Ok (path @ ''.'' @ ml_hex L bs @ ''.tmp''))"

text \<open>
  Creating the temporary file fails when it exists, and linking fails when the key exists. After
  the link, or whatever failed before it, the temporary file is removed; a failed write leaves
  nothing of the contents that matters, since the file goes away under its own name.
\<close>

definition write_new_key ::
  "'k mesh_lib \<Rightarrow> (disk_op \<Rightarrow> string option) \<Rightarrow> (string, octets) result \<Rightarrow> string \<Rightarrow> octets \<Rightarrow> disk \<Rightarrow> (mesh_error, unit) result \<times> disk" where
  "write_new_key L fault random path key d =
     (case (if has_parent path then fault MakeDirs else None) of
        Some e \<Rightarrow> (Err (WriteKey path e), d)
      | None \<Rightarrow>
          (case temporary_key_path L random path of
             Err e \<Rightarrow> (Err e, d)
           | Ok temp \<Rightarrow>
               (case (case fault OpenTemp of Some e \<Rightarrow> Some e | None \<Rightarrow> if d temp = None then None else Some ''File exists'') of
                  Some e \<Rightarrow> (Err (WriteKey path e), d)
                | None \<Rightarrow>
                    let write_result =
                          (case fault WriteTemp of
                             Some e \<Rightarrow> Some e
                           | None \<Rightarrow>
                               (case fault LinkKey of
                                  Some e \<Rightarrow> Some e
                                | None \<Rightarrow> if d path = None then None else Some ''File exists''));
                        d1 = (if fault WriteTemp = None then d(temp \<mapsto> key) else d(temp \<mapsto> []));
                        d2 = (if write_result = None then d1(path \<mapsto> key) else d1);
                        d3 = (if fault RemoveTemp = None then d2(temp := None) else d2)
                    in ((case write_result of
                           Some e \<Rightarrow> Err (WriteKey path e)
                         | None \<Rightarrow> (case fault RemoveTemp of Some e \<Rightarrow> Err (WriteKey path e) | None \<Rightarrow> Ok ())), d3))))"

text \<open>\<open>Node::new\<close> with the entropy of the seed and of the temporary name.\<close>

definition node_new ::
  "'k mesh_lib \<Rightarrow> (disk_op \<Rightarrow> string option) \<Rightarrow> (string, octets) result \<Rightarrow> (string, octets) result \<Rightarrow> string \<Rightarrow> disk
     \<Rightarrow> (mesh_error, 'k) result \<times> disk" where
  "node_new L fault seed_random temp_random path d =
     (let fresh = (case seed_random of
            Err e \<Rightarrow> Err (Entropy e)
          | Ok seed \<Rightarrow> (case ml_from_seed L seed of Err e \<Rightarrow> Err (Derive e) | Ok kp \<Rightarrow> Ok kp))
      in if path = [] then (fresh, d)
         else case fault ReadFile of
           Some e \<Rightarrow> (Err (ReadKey path e), d)
         | None \<Rightarrow>
             (case d path of
                Some data \<Rightarrow>
                  (if length data \<noteq> 32 \<and> length data \<noteq> 64 then Err (InvalidKeyFileSize path (length data))
                   else (case ml_from_seed L (take 32 data) of
                           Err e \<Rightarrow> Err (InvalidKeySeed path e)
                         | Ok kp \<Rightarrow> Ok kp), d)
              | None \<Rightarrow>
                  (case fresh of
                     Err e \<Rightarrow> (Err e, d)
                   | Ok kp \<Rightarrow>
                       (case write_new_key L fault temp_random path (ml_seed L kp) d of
                          (Err e, d') \<Rightarrow> (Err e, d')
                        | (Ok _, d') \<Rightarrow> (Ok kp, d')))))"

section \<open>Merging announced routes\<close>

record merge_fault =
  mf_get :: "sqlx_error option"
  mf_set :: "sqlx_error option"
  mf_evict :: "sqlx_error option"

definition no_fault :: merge_fault where
  "no_fault = \<lparr>mf_get = None, mf_set = None, mf_evict = None\<rparr>"

definition usable_route :: "timestamp \<Rightarrow> route_entry \<Rightarrow> bool" where
  "usable_route now route \<longleftrightarrow>
     now < r_ttl route \<and> f_is_finite (r_latency_ema route) \<and> f_ge (r_latency_ema route) (Fin 0)"

text \<open>Whether an incoming route loses against the one on record.\<close>

definition loses :: "route_entry \<Rightarrow> route_entry \<Rightarrow> bool" where
  "loses route existing \<longleftrightarrow>
     f_lt (r_latency_ema existing) (r_latency_ema route) \<or>
     f_total_eq (r_latency_ema route) (r_latency_ema existing) \<and> r_last_verified route \<le> r_last_verified existing"

definition should_set :: "jiff \<Rightarrow> sqlx_error option \<Rightarrow> db \<Rightarrow> route_entry \<Rightarrow> bool" where
  "should_set J fault d route =
     (case get_route J fault d (r_store_path route) of
        Ok (Some existing) \<Rightarrow> \<not> loses route existing
      | Ok None \<Rightarrow> True
      | Err _ \<Rightarrow> False)"

fun merge_loop :: "jiff \<Rightarrow> (nat \<Rightarrow> merge_fault) \<Rightarrow> nat \<Rightarrow> route_entry list \<Rightarrow> db \<Rightarrow> db" where
  "merge_loop J F i [] d = d"
| "merge_loop J F i (r # rs) d =
     merge_loop J F (i + 1) rs
       (if should_set J (mf_get (F i)) d r then put_route J (mf_set (F i)) (mf_evict (F i)) d r else d)"

definition merge_routes :: "jiff \<Rightarrow> (nat \<Rightarrow> merge_fault) \<Rightarrow> timestamp \<Rightarrow> db \<Rightarrow> route_entry list \<Rightarrow> db" where
  "merge_routes J F now d incoming = merge_loop J F 0 (filter (usable_route now) incoming) d"

section \<open>Receiving and announcing\<close>

datatype receipt = Malformed mesh_error | UnknownSender | BadSignature | EmptyMessage | Merged

text \<open>One datagram in the loop of \<open>listen_and_serve\<close>: the buffer holds its first 1400 bytes.\<close>

definition receive ::
  "jiff \<Rightarrow> 'k mesh_lib \<Rightarrow> octets list \<Rightarrow> (nat \<Rightarrow> merge_fault) \<Rightarrow> timestamp \<Rightarrow> db \<Rightarrow> octets \<Rightarrow> receipt \<times> db" where
  "receive J L allowed F now d datagram =
     (case decode_packet L (take max_packet_size datagram) of
        Err e \<Rightarrow> (Malformed e, d)
      | Ok (pubkey, sg, body, msg) \<Rightarrow>
          if pubkey \<notin> set allowed then (UnknownSender, d)
          else if verify_packet L pubkey body sg \<noteq> Ok () then (BadSignature, d)
          else if m_type msg = Announce \<and> m_routes msg \<noteq> [] then (Merged, merge_routes J F now d (m_routes msg))
          else (EmptyMessage, d))"

definition announcement :: "'k mesh_lib \<Rightarrow> 'k \<Rightarrow> timestamp \<Rightarrow> route_entry list \<Rightarrow> message" where
  "announcement L kp now routes =
     \<lparr>m_type = Announce, m_node_id = node_id L kp,
      m_timestamp = (if - (2 ^ 63) \<le> now \<and> now \<le> i64_max then now else 0), m_routes = routes\<rparr>"

definition announce ::
  "'k mesh_lib \<Rightarrow> 'k \<Rightarrow> timestamp \<Rightarrow> string option \<Rightarrow> string \<Rightarrow> route_entry list \<Rightarrow> (mesh_error, octets) result" where
  "announce L kp now fault peer routes =
     (case encode_packet L kp (announcement L kp now routes) of
        Err e \<Rightarrow> Err e
      | Ok packet \<Rightarrow> (case fault of Some e \<Rightarrow> Err (MeshSend peer e) | None \<Rightarrow> Ok packet))"

text \<open>One tick of the gossip loop: the announcements it sends, by peer.\<close>

definition gossip_tick ::
  "jiff \<Rightarrow> 'k mesh_lib \<Rightarrow> 'k \<Rightarrow> sqlx_error option \<Rightarrow> timestamp \<Rightarrow> (string \<Rightarrow> string option) \<Rightarrow> string list \<Rightarrow> db
     \<Rightarrow> (string \<times> (mesh_error, octets) result) list" where
  "gossip_tick J L kp fault now send_fault peers d =
     (case list_recent_routes J fault now d max_gossip_routes of
        Err _ \<Rightarrow> []
      | Ok [] \<Rightarrow> []
      | Ok routes \<Rightarrow> map (\<lambda>peer. (peer, announce L kp now (send_fault peer) peer routes)) peers)"


section \<open>Batches of ranked writes\<close>

text \<open>
  A store that a batch updates entry by entry, each entry unless it loses against the one on record.
  \<open>room s n\<close> is a state that takes \<open>n\<close> more writes.
\<close>

locale ranked_store = route_store fetch put key norm accepted
  for fetch :: "'s \<Rightarrow> string \<Rightarrow> 'v option"
    and put :: "'s \<Rightarrow> 'v \<Rightarrow> 's"
    and key :: "'v \<Rightarrow> string"
    and norm :: "'v \<Rightarrow> 'v"
    and accepted :: "'s \<Rightarrow> 'v \<Rightarrow> bool" +
  fixes wanted :: "'s \<Rightarrow> 'v \<Rightarrow> bool"
    and skip :: "'v \<Rightarrow> 'v \<Rightarrow> bool"
    and worse :: "'v \<Rightarrow> 'v \<Rightarrow> bool"
    and good :: "'v \<Rightarrow> bool"
    and room :: "'s \<Rightarrow> nat \<Rightarrow> bool"
  assumes room_accepted: "room s (Suc n) \<Longrightarrow> good v \<Longrightarrow> accepted s v"
    and room_put: "room s (Suc n) \<Longrightarrow> good v \<Longrightarrow> room (put s v) n"
    and room_less: "room s (Suc n) \<Longrightarrow> room s n"
    and room_good: "room s n \<Longrightarrow> fetch s k = Some w \<Longrightarrow> good w"
    and norm_good: "good v \<Longrightarrow> good (norm v)"
    and wanted_iff: "room s n \<Longrightarrow> wanted s v \<longleftrightarrow> (case fetch s (key v) of None \<Rightarrow> True | Some w \<Rightarrow> \<not> skip v w)"
    and skip_worse: "good v \<Longrightarrow> good w \<Longrightarrow> skip v w \<Longrightarrow> \<not> worse w (norm v)"
    and win_worse: "good v \<Longrightarrow> good w \<Longrightarrow> \<not> skip v w \<Longrightarrow> \<not> worse (norm v) w"
    and not_worse_trans: "good a \<Longrightarrow> good b \<Longrightarrow> good c \<Longrightarrow> \<not> worse a b \<Longrightarrow> \<not> worse b c \<Longrightarrow> \<not> worse a c"
    and not_worse_refl: "\<not> worse a a"
begin

definition candidates :: "'s \<Rightarrow> 'v list \<Rightarrow> string \<Rightarrow> 'v set" where
  "candidates s vs k = {w. fetch s k = Some w} \<union> norm ` {v \<in> set vs. key v = k}"

definition best_at :: "'s \<Rightarrow> 'v set \<Rightarrow> string \<Rightarrow> bool" where
  "best_at s cands k \<longleftrightarrow>
     (case fetch s k of None \<Rightarrow> cands = {} | Some w \<Rightarrow> w \<in> cands \<and> (\<forall>x \<in> cands. \<not> worse w x))"

lemma best_at_more:
  assumes "best_at s C k" "C' \<subseteq> insert x C" "C \<subseteq> C'" "y \<in> C" "\<not> worse y x" "\<forall>c \<in> insert x C. good c"
  shows "best_at s C' k"
proof (cases "fetch s k")
  case None
  with assms(1,4) show ?thesis by (simp add: best_at_def)
next
  case (Some w)
  with assms(1) have w: "w \<in> C" "\<forall>c \<in> C. \<not> worse w c" by (simp_all add: best_at_def)
  with assms(4-6) have "\<not> worse w x" using not_worse_trans[of w y x] by blast
  with Some w assms(2,3) show ?thesis by (auto simp: best_at_def)
qed

lemma put_all_best:
  "room s (length vs) \<Longrightarrow> \<forall>v \<in> set vs. good v \<Longrightarrow> best_at (put_all wanted vs s) (candidates s vs k) k"
proof (induction vs arbitrary: s)
  case Nil
  then show ?case by (simp add: best_at_def candidates_def not_worse_refl split: option.split)
next
  case (Cons v vs)
  let ?s = "if wanted s v then put s v else s"
  have room: "room s (Suc (length vs))" and v: "good v" "\<forall>v \<in> set vs. good v" using Cons.prems by simp_all
  have "room ?s (length vs)" using room room_put room_less v(1) by simp
  from Cons.IH[OF this v(2)] have IH: "best_at (put_all wanted vs ?s) (candidates ?s vs k) k" .
  have good: "\<forall>c \<in> candidates ?s vs k. good c"
    using room_good[OF \<open>room ?s (length vs)\<close>] v(2) norm_good by (auto simp: candidates_def)
  have put: "fetch (put s v) k = (if k = key v then Some (norm v) else fetch s k)"
    using fetch_put room_accepted room v(1) by blast
  show ?case
  proof (cases "k = key v")
    case False
    then have "candidates s (v # vs) k = candidates ?s vs k" using put by (auto simp: candidates_def)
    with IH show ?thesis by simp
  next
    case key: True
    show ?thesis
    proof (cases "fetch s k")
      case None
      then have "wanted s v" using wanted_iff[OF room, of v] key by simp
      with put key None have "candidates s (v # vs) k = candidates ?s vs k" by (auto simp: candidates_def)
      with IH show ?thesis by simp
    next
      case (Some w)
      have w: "good w" using room_good[OF room Some] .
      show ?thesis
      proof (cases "skip v w")
        case True
        then have s: "?s = s" using wanted_iff[OF room, of v] key Some by simp
        have "best_at (put_all wanted vs ?s) (candidates s (v # vs) k) k"
          by (rule best_at_more[OF IH, where x = "norm v" and y = w])
            (use s good Some key True v(1) w skip_worse norm_good in \<open>auto simp: candidates_def\<close>)
        then show ?thesis by simp
      next
        case False
        then have s: "?s = put s v" using wanted_iff[OF room, of v] key Some by simp
        have "best_at (put_all wanted vs ?s) (candidates s (v # vs) k) k"
          by (rule best_at_more[OF IH, where x = w and y = "norm v"])
            (use s put good Some key False v(1) w win_worse in \<open>auto simp: candidates_def\<close>)
        then show ?thesis by simp
      qed
    qed
  qed
qed

end


text \<open>The database as such a store: an entry is worse when its latency average is higher.\<close>

definition slower :: "route_entry \<Rightarrow> route_entry \<Rightarrow> bool" where
  "slower a b \<longleftrightarrow> f_lt (r_latency_ema b) (r_latency_ema a)"

definition merge_room :: "jiff \<Rightarrow> db \<Rightarrow> nat \<Rightarrow> bool" where
  "merge_room J d n \<longleftrightarrow> jiff_ok J \<and> db_inv J d \<and> (\<forall>r \<in> set (d_routes d). c_latency_ms (snd r) \<noteq> NaN \<and> c_latency_ema (snd r) \<noteq> NaN) \<and>
     unat (d_write_count d) mod 100 + n < 100"

lemma route_to_row_numbers:
  "route_to_row J e = Some row \<Longrightarrow> c_latency_ms row \<noteq> NaN \<and> c_latency_ema row \<noteq> NaN"
  by (auto simp: route_to_row_def sql_real_def split: option.splits f64.splits)

lemma put_route_numbers:
  assumes "\<forall>r \<in> set (d_routes d). c_latency_ms (snd r) \<noteq> NaN \<and> c_latency_ema (snd r) \<noteq> NaN"
  shows "\<forall>r \<in> set (d_routes (put_route J f ef d e)). c_latency_ms (snd r) \<noteq> NaN \<and> c_latency_ema (snd r) \<noteq> NaN"
  using set_route_rows[of J f ef d e] assms route_to_row_numbers[of J e]
    set_upsert[of "r_store_path e" _ "d_routes d"] by fastforce

lemma reachable_numbers:
  "db_reachable J d \<Longrightarrow> \<forall>r \<in> set (d_routes d). c_latency_ms (snd r) \<noteq> NaN \<and> c_latency_ema (snd r) \<noteq> NaN"
proof (induction rule: db_reachable.induct)
  case (db_next d d')
  from db_next.hyps(2) db_next.IH show ?case
    by cases (auto simp: expire_old_routes_def set_negative_def expire_negatives_def db_open_def save_health_def
        split: option.split sum.split dest: put_route_numbers)
qed (simp add: db_open_def)

lemma write_count_next:
  fixes c :: "64 word"
  shows "unat c mod 100 + Suc n < 100 \<Longrightarrow> unat (c + 1) mod 100 + n < 100"
proof -
  assume room: "unat c mod 100 + Suc n < 100"
  show ?thesis
  proof (cases "unat c < 2 ^ 64 - 1")
    case True
    then have "unat (c + 1) = Suc (unat c)" by (simp add: unat_word_ariths)
    with room show ?thesis by (simp add: mod_Suc)
  next
    case False
    have "unat c < 2 ^ 64" using unsigned_less[of c, where ?'a = nat] by simp
    with False have "unat c = 2 ^ 64 - 1" by simp
    then have "unat (c + 1) = 0" by (simp add: unat_word_ariths)
    with room show ?thesis by simp
  qed
qed

lemma stored_good:
  assumes "jiff_ok J" "storable J e"
  shows "storable J (stored_entry J e)"
proof -
  from assms(2) obtain a b where "sql_real (r_latency_ms e) = Some a" "sql_real (r_latency_ema e) = Some b"
    unfolding storable_def by (blast dest: sql_real_Some)
  moreover from this have "a \<noteq> NaN" "b \<noteq> NaN" by (auto simp: sql_real_def split: f64.splits)
  moreover have "ts_ok J (second_of J t)" if "ts_ok J t" for t
    using that assms(1) by (auto simp: ts_ok_def second_of_def jiff_ok_def)
  ultimately show ?thesis using assms(2) by (simp add: stored_entry_fields storable_def)
qed

lemma stored_slower:
  assumes "storable J e"
  shows "slower (stored_entry J e) w = slower e w" "slower w (stored_entry J e) = slower w e"
proof -
  have "f_key b = f_key a" if "sql_real a = Some b" for a b
    using that by (auto simp: sql_real_def split: f64.splits)
  moreover from assms obtain b where b: "sql_real (r_latency_ema e) = Some b"
    unfolding storable_def by (blast dest: sql_real_Some)
  moreover from this have "b \<noteq> NaN" by (auto simp: sql_real_def split: f64.splits)
  ultimately show "slower (stored_entry J e) w = slower e w" "slower w (stored_entry J e) = slower w e"
    using assms by (auto simp: slower_def stored_entry_fields f_lt_def storable_def)
qed

lemma fetched_good:
  assumes "merge_room J d n" "fetch_route J d k = Some w"
  shows "storable J w"
proof -
  from assms(2) obtain row where row: "map_of (d_routes d) k = Some row" "row_to_route J (k, row) = Ok w"
    by (auto simp: fetch_route_Some)
  with assms(1) have "c_latency_ms row \<noteq> NaN" "c_latency_ema row \<noteq> NaN" "jiff_ok J"
    by (force simp: merge_room_def dest: map_of_SomeD)+
  with row(2) show ?thesis
    by (auto simp: row_to_route_def Let_def ts_of_row_def storable_def ts_ok_def jiff_ok_def split: option.splits)
qed

interpretation mesh_store:
  ranked_store "fetch_route J" "put_route J None None" r_store_path "stored_entry J" "plain_write J None"
    "should_set J None" loses slower "\<lambda>e. jiff_ok J \<and> storable J e" "merge_room J"
  for J
proof (unfold_locales, goal_cases)
  case (1 d n v)
  then have "d_write_count d mod 100 \<noteq> 99"
    by (auto simp: merge_room_def word_unat_eq_iff unat_mod)
  with 1 show ?case by (simp add: plain_write_def)
next
  case (2 d n v)
  have "d_write_count (put_route J None None d v) \<in> {d_write_count d, d_write_count d + 1}"
    by (simp add: put_route_def set_route_def evict_if_needed_def Let_def split: option.split)
  then have "unat (d_write_count (put_route J None None d v)) mod 100 + n < 100"
    using 2 write_count_next[of "d_write_count d" n] by (auto simp: merge_room_def)
  moreover have room: "jiff_ok J" "db_inv J d"
    "\<forall>r \<in> set (d_routes d). c_latency_ms (snd r) \<noteq> NaN \<and> c_latency_ema (snd r) \<noteq> NaN"
    using 2(1) unfolding merge_room_def by blast+
  moreover have "db_inv J (put_route J None None d v)"
    using 2(2) by (intro put_route_inv room(2)) (simp_all add: storable_def)
  ultimately show ?case
    unfolding merge_room_def using put_route_numbers[OF room(3), of J None None v] by blast
next
  case (3 d n)
  then show ?case by (simp add: merge_room_def)
next
  case (4 d n k w)
  then show ?case using fetched_good by (simp add: merge_room_def)
next
  case (5 v)
  then show ?case by (simp add: stored_good)
next
  case (6 d n v)
  then have inv: "db_inv J d" by (simp add: merge_room_def)
  have "\<exists>e. optional_route J (map_option (Pair (r_store_path v)) (map_of (d_routes d) (r_store_path v))) = Ok e"
    by (rule optional_route_ok) (use inv in \<open>auto simp: db_inv_def dest!: map_of_SomeD\<close>)
  then show ?case
    by (auto simp: should_set_def fetch_route_def get_route_def split: option.splits)
next
  case (7 v w)
  then show ?case
    by (simp add: stored_slower(2)) (auto simp: loses_def slower_def dest: f_lt_trans)
next
  case (8 v w)
  then show ?case
    by (simp add: stored_slower(1)) (simp add: loses_def slower_def)
next
  case (9 a b c)
  then show ?case by (auto simp: slower_def storable_def f_lt_def)
next
  case (10 a)
  then show ?case by (simp add: slower_def)
qed

lemma merge_loop_put_all:
  "merge_loop J (\<lambda>_. no_fault) i rs d = route_store.put_all (put_route J None None) (should_set J None) rs d"
  by (induction rs arbitrary: i d) (simp_all add: no_fault_def)


section \<open>What the libraries are relied on for\<close>

definition mesh_lib_ok :: "'k mesh_lib \<Rightarrow> bool" where
  "mesh_lib_ok L \<longleftrightarrow>
     (\<forall>kp. length (ml_public L kp) = 32 \<and> ml_public_ok L (ml_public L kp) \<and>
        length (ml_seed L kp) = 32 \<and> ml_from_seed L (ml_seed L kp) = Ok kp) \<and>
     (\<forall>kp body. length (ml_sign L kp body) = 64 \<and> ml_signature_ok L (ml_sign L kp body) \<and>
        ml_verify L (ml_public L kp) body (ml_sign L kp body)) \<and>
     (\<forall>msg body. ml_encode L msg = Ok body \<longrightarrow> ml_decode L body = Ok msg)"

text \<open>A MessagePack value is self-delimiting: a proper prefix of one does not decode.\<close>

definition self_delimiting :: "'k mesh_lib \<Rightarrow> bool" where
  "self_delimiting L \<longleftrightarrow>
     (\<forall>msg body n. ml_encode L msg = Ok body \<longrightarrow> n < length body \<longrightarrow> (\<exists>e. ml_decode L (take n body) = Err e))"

lemma encode_packet_parts:
  assumes "mesh_lib_ok L" "encode_packet L kp msg = Ok packet"
  obtains body where "ml_encode L msg = Ok body" "ml_decode L body = Ok msg"
    "packet = ml_public L kp @ ml_sign L kp body @ body"
    "length (ml_public L kp) = 32" "length (ml_sign L kp body) = 64"
    "verify_packet L (ml_public L kp) body (ml_sign L kp body) = Ok ()"
  using assms by (auto simp: encode_packet_def node_sign_def mesh_lib_ok_def verify_packet_def split: sum.splits)

lemma decode_packet_parts:
  assumes "length pk = 32" "length sg = 64"
  shows "decode_packet L (pk @ sg @ body) =
    (case ml_decode L body of Err e \<Rightarrow> Err (DecodeError e) | Ok msg \<Rightarrow> Ok (pk, sg, body, msg))"
  using assms by (simp add: decode_packet_def header_size_def Let_def)

lemma announce_packet:
  assumes "announce L kp now fault peer routes = Ok packet"
  shows "encode_packet L kp (announcement L kp now routes) = Ok packet"
  using assms by (auto simp: announce_def split: sum.splits option.splits)

text \<open>A concrete instance for one message: a key is an octet, and the body has \<open>n\<close> octets.\<close>

definition mesh_demo :: "nat \<Rightarrow> u8 mesh_lib" where
  "mesh_demo n =
     \<lparr>ml_from_seed = (\<lambda>s. case s of [] \<Rightarrow> Err ''short'' | k # _ \<Rightarrow> Ok k), ml_seed = replicate 32,
      ml_public = (\<lambda>k. replicate 32 7), ml_sign = (\<lambda>k body. replicate 64 9),
      ml_public_ok = (\<lambda>p. length p = 32), ml_signature_ok = (\<lambda>s. length s = 64),
      ml_verify = (\<lambda>p body s. s = replicate 64 9),
      ml_encode = (\<lambda>msg. if m_routes msg = [route_demo ''h'' 5 9] \<and> m_node_id msg = ''id'' \<and> m_timestamp msg = 1
         then Ok (replicate n 1) else Err ''other message''),
      ml_decode = (\<lambda>body. if body = replicate n 1
         then Ok \<lparr>m_type = Announce, m_node_id = ''id'', m_timestamp = 1, m_routes = [route_demo ''h'' 5 9]\<rparr>
         else Err ''truncated''),
      ml_hex = (\<lambda>_. ''id'')\<rparr>"


lemma mesh_demo_ok: "mesh_lib_ok (mesh_demo n)" "self_delimiting (mesh_demo n)"
proof -
  have "\<lparr>m_type = Announce, m_node_id = ''id'', m_timestamp = 1, m_routes = [route_demo ''h'' 5 9]\<rparr> = msg"
    if "m_routes msg = [route_demo ''h'' 5 9]" "m_node_id msg = ''id''" "m_timestamp msg = 1" for msg :: message
    using that by (cases msg; cases "m_type msg") simp
  then show "mesh_lib_ok (mesh_demo n)"
    by (simp add: mesh_lib_ok_def mesh_demo_def eval_nat_numeral split: if_splits)
  show "self_delimiting (mesh_demo n)"
    by (auto simp: self_delimiting_def mesh_demo_def split: if_splits dest: arg_cong[where f = length])
qed

section \<open>Properties\<close>

text \<open>
  C35: An announcement arrives: a datagram that a node announces and that fits the receive buffer is
  accepted by every peer that lists the node's key, its signature verifies, and exactly the announced
  routes are merged.
\<close>

theorem announcement_received:
  assumes "mesh_lib_ok L" "announce L kp now fault peer routes = Ok datagram"
    and "length datagram \<le> max_packet_size" "ml_public L kp \<in> set allowed" "routes \<noteq> []"
  shows "receive J L allowed F now' d datagram = (Merged, merge_routes J F now' d routes)"
proof -
  from encode_packet_parts[OF assms(1) announce_packet[OF assms(2)]] obtain body where
    "ml_decode L body = Ok (announcement L kp now routes)"
    "datagram = ml_public L kp @ ml_sign L kp body @ body"
    "length (ml_public L kp) = 32" "length (ml_sign L kp body) = 64"
    "verify_packet L (ml_public L kp) body (ml_sign L kp body) = Ok ()" by blast
  with assms(3-5) show ?thesis
    using decode_packet_parts[of "ml_public L kp" "ml_sign L kp body" L body]
    by (simp add: receive_def announcement_def)
qed

theorem announcement_received_witness:
  "\<exists>datagram. announce (mesh_demo 3) 5 1 None ''peer'' [route_demo ''h'' 5 9] = Ok datagram \<and>
     fst (receive jiff_demo (mesh_demo 3) [replicate 32 7] (\<lambda>_. no_fault) 6 (db_open 10 [] [] []) datagram) = Merged"
proof -
  have a: "announce (mesh_demo 3) 5 1 None ''peer'' [route_demo ''h'' 5 9]
      = Ok (replicate 32 7 @ replicate 64 9 @ replicate 3 1)"
    by (simp add: announce_def encode_packet_def node_sign_def announcement_def node_id_def mesh_demo_def i64_max_def)
  from announcement_received[OF mesh_demo_ok(1) a, of "[replicate 32 7]"] a show ?thesis
    by (simp add: max_packet_size_def mesh_demo_def)
qed

text \<open>
  C36: An announcement of more than 1400 octets is never merged: the receiver reads only the first
  1400, which do not decode, so the datagram is reported as malformed and the database is unchanged.
  Nothing bounds the size of the up to 25 routes that are announced.
\<close>

theorem large_announcement_lost:
  assumes "mesh_lib_ok L" "self_delimiting L" "announce L kp now fault peer routes = Ok datagram"
    and "max_packet_size < length datagram"
  shows "\<exists>e. receive J L allowed F now' d datagram = (Malformed (DecodeError e), d)"
proof -
  from encode_packet_parts[OF assms(1) announce_packet[OF assms(3)]] obtain body where body:
    "ml_encode L (announcement L kp now routes) = Ok body"
    "datagram = ml_public L kp @ ml_sign L kp body @ body"
    "length (ml_public L kp) = 32" "length (ml_sign L kp body) = 64" by blast
  then have "take max_packet_size datagram = ml_public L kp @ ml_sign L kp body @ take 1304 body"
    by (simp add: max_packet_size_def)
  moreover have "1304 < length body" using body assms(4) by (simp add: max_packet_size_def)
  with body(1) assms(2) obtain e where "ml_decode L (take 1304 body) = Err e"
    unfolding self_delimiting_def by blast
  ultimately show ?thesis
    using decode_packet_parts[OF body(3,4), of L "take 1304 body"] by (simp add: receive_def)
qed

theorem large_announcement_lost_witness:
  "\<exists>datagram e. announce (mesh_demo 1400) 5 1 None ''peer'' [route_demo ''h'' 5 9] = Ok datagram \<and>
     receive jiff_demo (mesh_demo 1400) [replicate 32 7] (\<lambda>_. no_fault) 6 (db_open 10 [] [] []) datagram
       = (Malformed (DecodeError e), db_open 10 [] [] [])"
proof -
  have a: "announce (mesh_demo 1400) 5 1 None ''peer'' [route_demo ''h'' 5 9]
      = Ok (replicate 32 7 @ replicate 64 9 @ replicate 1400 1)"
    by (simp add: announce_def encode_packet_def node_sign_def announcement_def node_id_def mesh_demo_def i64_max_def)
  have "max_packet_size < length (replicate 32 7 @ replicate 64 9 @ replicate 1400 (1 :: u8))"
    by (simp add: max_packet_size_def)
  from large_announcement_lost[OF mesh_demo_ok a this] a show ?thesis by blast
qed

lemma merge_loop_sound:
  "fetch_route J (merge_loop J F i rs d) k = Some w \<Longrightarrow>
     fetch_route J d k = Some w \<or> (\<exists>r \<in> set rs. r_store_path r = k \<and> w = stored_entry J r)"
proof (induction J F i rs d rule: merge_loop.induct)
  case (2 J F i r rs d)
  then show ?case
    by (cases "should_set J (mf_get (F i)) d r") (auto dest: db_store.fetch_put_sound)
qed simp

text \<open>
  C4: Only trusted routes enter the database: whatever a datagram holds and whichever database calls
  fail, a route that is on record afterwards and was not before is one of a message whose sender's key
  is allowed and whose signature verifies, it is unexpired with a finite non-negative latency, and it is
  stored under its own path.
\<close>

theorem mesh_stores_trusted_routes:
  assumes "fetch_route J (snd (receive J L allowed F now d datagram)) k = Some w" "fetch_route J d k \<noteq> Some w"
  shows "\<exists>pubkey sg body msg r.
    decode_packet L (take max_packet_size datagram) = Ok (pubkey, sg, body, msg) \<and>
    pubkey \<in> set allowed \<and> ml_verify L pubkey body sg \<and>
    r \<in> set (m_routes msg) \<and> usable_route now r \<and> r_store_path r = k \<and> w = stored_entry J r"
proof (cases "decode_packet L (take max_packet_size datagram)")
  case (Inl e)
  with assms show ?thesis by (simp add: receive_def)
next
  case (Inr p)
  obtain pubkey sg body msg where p: "p = (pubkey, sg, body, msg)" by (cases p)
  have ok: "pubkey \<in> set allowed" "verify_packet L pubkey body sg = Ok ()"
    and merged: "fetch_route J (merge_routes J F now d (m_routes msg)) k = Some w"
    using assms Inr p by (auto simp: receive_def split: if_splits)
  from merge_loop_sound[OF merged[unfolded merge_routes_def]] assms(2)
  obtain r where "r \<in> set (m_routes msg)" "usable_route now r" "r_store_path r = k" "w = stored_entry J r" by auto
  moreover have "ml_verify L pubkey body sg" using ok(2) by (simp add: verify_packet_def split: if_splits)
  ultimately show ?thesis using Inr p ok(1) by blast
qed


lemma mesh_demo_merge:
  "fetch_route jiff_demo (merge_routes jiff_demo (\<lambda>_. no_fault) 6 (db_open 10 [] [] []) [route_demo ''h'' 5 9]) ''h''
     = Some (stored_entry jiff_demo (route_demo ''h'' 5 9))"
proof -
  have "should_set jiff_demo None (db_open 10 [] [] []) (route_demo ''h'' 5 9)"
    by (simp add: should_set_def get_route_def optional_route_def db_open_def)
  moreover have "usable_route 6 (route_demo ''h'' 5 9)" by (simp add: usable_route_def route_demo_def)
  ultimately show ?thesis
    using db_store.fetch_put[of jiff_demo None "db_open 10 [] [] []" "route_demo ''h'' 5 9" None "''h''"]
    by (simp add: merge_routes_def no_fault_def plain_write_def route_demo_storable db_open_def)
      (simp add: route_demo_def)
qed

lemma mesh_demo_receive:
  "receive jiff_demo (mesh_demo 3) [replicate 32 7] F now d (replicate 32 7 @ replicate 64 9 @ replicate 3 1)
     = (Merged, merge_routes jiff_demo F now d [route_demo ''h'' 5 9])"
  using decode_packet_parts[of "replicate 32 7" "replicate 64 9" "mesh_demo 3" "replicate 3 1"]
  by (simp add: receive_def max_packet_size_def verify_packet_def mesh_demo_def)

theorem mesh_stores_trusted_routes_witness:
  "\<exists>pubkey sg body msg r.
    decode_packet (mesh_demo 3) (take max_packet_size (replicate 32 7 @ replicate 64 9 @ replicate 3 1))
      = Ok (pubkey, sg, body, msg) \<and> r \<in> set (m_routes msg) \<and> r_store_path r = ''h''"
proof -
  have "fetch_route jiff_demo (snd (receive jiff_demo (mesh_demo 3) [replicate 32 7] (\<lambda>_. no_fault) 6
      (db_open 10 [] [] []) (replicate 32 7 @ replicate 64 9 @ replicate 3 1))) ''h''
    = Some (stored_entry jiff_demo (route_demo ''h'' 5 9))"
    by (simp only: mesh_demo_receive snd_conv mesh_demo_merge)
  from mesh_stores_trusted_routes[OF this] show ?thesis
    by (auto simp: fetch_route_def get_route_def optional_route_def db_open_def)
qed

text \<open>
  C15: A merge keeps the best route of every path: with the database answering and no eviction due, what
  is on record for a path after a merge is the old route or one of the usable announced routes of that
  path, in any order of arrival, and no other one of them has a lower latency average; a path without
  candidates stays absent.
\<close>

theorem merge_keeps_best:
  assumes "jiff_ok J" "db_reachable J d" "unat (d_write_count d) mod 100 + length incoming < 100"
    and "\<forall>r \<in> set incoming. usable_route now r \<longrightarrow> storable J r"
    and "cands = set_option (fetch_route J d k) \<union>
      stored_entry J ` {r \<in> set incoming. usable_route now r \<and> r_store_path r = k}"
  shows "case fetch_route J (merge_routes J (\<lambda>_. no_fault) now d incoming) k of
      None \<Rightarrow> cands = {}
    | Some w \<Rightarrow> w \<in> cands \<and> (\<forall>x \<in> cands. \<not> f_lt (r_latency_ema x) (r_latency_ema w))"
proof -
  let ?rs = "filter (usable_route now) incoming"
  have "unat (d_write_count d) mod 100 + length ?rs < 100"
    using assms(3) length_filter_le[of "usable_route now" incoming] by linarith
  with assms(1,2) have "merge_room J d (length ?rs)"
    using reachable_numbers db_reachable_inv by (auto simp: merge_room_def)
  moreover have "\<forall>r \<in> set ?rs. jiff_ok J \<and> storable J r" using assms(1,4) by auto
  ultimately have "ranked_store.best_at (fetch_route J) slower
      (merge_routes J (\<lambda>_. no_fault) now d incoming) (mesh_store.candidates J d ?rs k) k"
    unfolding merge_routes_def merge_loop_put_all by (rule mesh_store.put_all_best)
  moreover have "mesh_store.candidates J d ?rs k = cands"
    by (auto simp: mesh_store.candidates_def assms(5))
  ultimately show ?thesis by (simp add: mesh_store.best_at_def slower_def split: option.splits)
qed


theorem merge_keeps_best_witness:
  "\<not> f_lt (Fin 12) (r_latency_ema (the (fetch_route jiff_demo
     (merge_routes jiff_demo (\<lambda>_. no_fault) 6 (db_open 10 [] [] []) [route_demo ''h'' 5 9]) ''h'')))"
proof -
  have e: "r_latency_ema (stored_entry jiff_demo (route_demo ''h'' 5 9)) = Fin 12"
    using stored_entry_fields[OF route_demo_storable[of 5 9 "''h''"]] by (simp add: route_demo_def sql_real_def)
  have s: "\<forall>r \<in> set [route_demo ''h'' 5 9]. usable_route 6 r \<longrightarrow> storable jiff_demo r"
    by (simp add: route_demo_storable)
  have c: "route_demo ''h'' 5 9 \<in> {r \<in> set [route_demo ''h'' 5 9]. usable_route 6 r \<and> r_store_path r = ''h''}"
    by (simp add: usable_route_def route_demo_def)
  have n: "unat (d_write_count (db_open 10 [] [] [])) mod 100 + length [route_demo ''h'' 5 9] < 100"
    by (simp add: db_open_def)
  show ?thesis
    using merge_keeps_best[OF jiff_demo_ok db_start n s refl, of "''h''"] mesh_demo_merge c e by force
qed

text \<open>
  C37: The node's key survives restarts: starting a node never changes a key file that exists, whichever
  file operation fails, and a node that started with a key file starts the next time with the same key,
  without any randomness.
\<close>

theorem node_key_persists:
  assumes "mesh_lib_ok L" "path \<noteq> []" "(r, disk') = node_new L fault seed_random temp_random path disk"
  shows "(case disk path of Some key \<Rightarrow> disk' path = Some key | None \<Rightarrow> True) \<and>
    (case r of Err _ \<Rightarrow> True | Ok kp \<Rightarrow> node_new L (\<lambda>_. None) (Err e1) (Err e2) path disk' = (Ok kp, disk'))"
proof (cases "disk path")
  case (Some key)
  with assms show ?thesis by (auto simp: node_new_def split: option.splits sum.splits if_splits)
next
  case None
  have temp: "path @ ''.'' @ x @ ''.tmp'' \<noteq> path" for x by simp
  have "disk' path = Some (ml_seed L kp)" if "r = Ok kp" for kp
    using assms(2,3) None that temp
    by (auto simp: node_new_def write_new_key_def temporary_key_path_def Let_def
        split: option.splits sum.splits if_splits prod.splits)
  with assms(1,2) None show ?thesis
    by (auto simp: node_new_def mesh_lib_ok_def split: sum.split)
qed

theorem node_key_persists_witness:
  "\<exists>disk'. node_new (mesh_demo 3) (\<lambda>_. None) (Ok (replicate 32 4)) (Ok []) ''key'' Map.empty = (Ok 4, disk') \<and>
     node_new (mesh_demo 3) (\<lambda>_. None) (Err ''no entropy'') (Err ''no entropy'') ''key'' disk' = (Ok 4, disk')"
proof -
  let ?run = "node_new (mesh_demo 3) (\<lambda>_. None) (Ok (replicate 32 4)) (Ok []) ''key'' Map.empty"
  have run: "fst ?run = Ok 4"
    by (simp add: node_new_def write_new_key_def temporary_key_path_def has_parent_def trim_end_matches_def
        mesh_demo_def eval_nat_numeral Let_def)
  from node_key_persists[OF mesh_demo_ok(1) _ prod.collapse, of "''key''" 3 "\<lambda>_. None" "Ok (replicate 32 4)" "Ok []" Map.empty "''no entropy''" "''no entropy''"]
  have "node_new (mesh_demo 3) (\<lambda>_. None) (Err ''no entropy'') (Err ''no entropy'') ''key'' (snd ?run) = (Ok 4, snd ?run)"
    by (simp add: run)
  with run show ?thesis by (metis prod.collapse)
qed

end
