(* ===== verification/Served.thy ===== *)
theory Served
  imports RouterProps Mesh
begin

text \<open>
  What clients are ever served, across requests: with a database that holds only verified narinfos,
  every answer of \<open>resolve\<close>, raced or cached, goes back to a narinfo that a registered key of its
  upstream verifies; and the way around it, a route that another node announces.
\<close>

section \<open>Vouched narinfos\<close>

text \<open>
  A narinfo that an upstream may be quoted for: one of \<open>A\<close>, the narinfos that came from elsewhere with
  the upstream they were ascribed to, or one that parses and that a key verifies if there are keys.
\<close>

definition verified :: "crypto \<Rightarrow> router \<Rightarrow> string \<Rightarrow> bytes \<Rightarrow> bool" where
  "verified C r u body \<longleftrightarrow> (\<exists>ni. narinfo_parse body = Ok ni \<and>
     (case rt_keys r u of None \<Rightarrow> True | Some keys \<Rightarrow> \<exists>k \<in> set keys. narinfo_verify C ni k = Ok True))"

definition vouched :: "crypto \<Rightarrow> (string \<times> bytes) set \<Rightarrow> router \<Rightarrow> string \<Rightarrow> bytes \<Rightarrow> bool" where
  "vouched C A r u body \<longleftrightarrow> (u, body) \<in> A \<or> verified C r u body"

definition vouched_result :: "crypto \<Rightarrow> (string \<times> bytes) set \<Rightarrow> router \<Rightarrow> string \<Rightarrow> resolve_result \<Rightarrow> bool" where
  "vouched_result C A r h rr \<longleftrightarrow>
     (\<exists>body. vouched C A r (rr_url rr) body \<and> rr_narinfo rr = response_narinfo_bytes r (rr_url rr) h (Some body))"

definition vouched_routes :: "crypto \<Rightarrow> (string \<times> bytes) set \<Rightarrow> jiff \<Rightarrow> router \<Rightarrow> db \<Rightarrow> bool" where
  "vouched_routes C A J r d \<longleftrightarrow> (\<forall>row \<in> set (d_routes d). \<forall>e body.
     row_to_route J row = Ok e \<longrightarrow> r_narinfo_bytes e = Some body \<longrightarrow> vouched C A r (r_upstream_url e) body)"

definition vouched_memory :: "crypto \<Rightarrow> (string \<times> bytes) set \<Rightarrow> router \<Rightarrow> resolve_result ttl_cache \<Rightarrow> bool" where
  "vouched_memory C A r c \<longleftrightarrow> (\<forall>h t rr. (h, t, rr) \<in> set (t_entries c) \<longrightarrow> vouched_result C A r h rr)"

definition vouched_store :: "crypto \<Rightarrow> (string \<times> bytes) set \<Rightarrow> jiff \<Rightarrow> router \<Rightarrow> bool" where
  "vouched_store C A J r \<longleftrightarrow> vouched_routes C A J r (rt_db r) \<and> vouched_memory C A r (rt_lru r)"

lemma vouched_cong:
  assumes "same_config r r'"
  shows "vouched C A r' u body = vouched C A r u body" "vouched_result C A r' h rr = vouched_result C A r h rr"
    "vouched_routes C A J r' d = vouched_routes C A J r d" "vouched_memory C A r' c = vouched_memory C A r c"
proof -
  show v: "vouched C A r' u body = vouched C A r u body" for u body by (simp add: vouched_def verified_def config_cong[OF assms])
  show w: "vouched_result C A r' h rr = vouched_result C A r h rr" for h rr
    by (simp add: vouched_result_def v config_cong[OF assms])
  show "vouched_routes C A J r' d = vouched_routes C A J r d" by (simp add: vouched_routes_def v)
  show "vouched_memory C A r' c = vouched_memory C A r c" by (simp add: vouched_memory_def w)
qed

lemma vouched_store_iff:
  "same_config r r' \<Longrightarrow>
     vouched_store C A J r' \<longleftrightarrow> vouched_routes C A J r (rt_db r') \<and> vouched_memory C A r (rt_lru r')"
  by (simp add: vouched_store_def vouched_cong)

lemma fetch_narinfo_vouched:
  "fetch_narinfo C ev r u h hp = Ok (b, ni) \<Longrightarrow> \<exists>body. b = Some body \<and> narinfo_parse body = Ok ni \<and> vouched C A r u body"
  by (drule fetch_narinfo_Ok) (auto simp: vouched_def verified_def split: option.split)

lemma serves_vouched: "serves C ev r h hp rr \<Longrightarrow> vouched_result C A r h rr"
  by (fastforce simp: serves_def admissible_def vouched_result_def vouched_def verified_def split: option.split)

section \<open>Caches and tables\<close>

lemma in_remove_key: "x \<in> set (remove_key k t) \<Longrightarrow> x \<in> set t"
  by (auto simp: remove_key_def)

lemma cache_get_member: "cache_get now k c = (Some v, c') \<Longrightarrow> \<exists>t. (k, t, v) \<in> set (t_entries c)"
  by (auto simp: cache_get_def Let_def dest!: map_of_SomeD split: option.splits if_splits)

lemma cache_get_entries_subset: "cache_get now k c = (x, c') \<Longrightarrow> set (t_entries c') \<subseteq> set (t_entries c)"
  by (auto simp: cache_get_def Let_def dest!: map_of_SomeD in_remove_key split: option.splits if_splits)

lemma cache_insert_entries_subset:
  "set (t_entries (cache_insert now k v c)) \<subseteq> insert (k, now, v) (set (t_entries c))"
  by (auto simp: cache_insert_def pop_lru_def Let_def dest!: in_set_butlastD in_remove_key simp del: butlast.simps)

lemma vouched_memory_get:
  assumes "vouched_memory C A r c" "cache_get now k c = (x, c')"
  shows "vouched_memory C A r c'" "x = Some rr \<Longrightarrow> vouched_result C A r k rr"
  using assms cache_get_entries_subset[OF assms(2)] cache_get_member[of now k c rr c']
  by (auto simp: vouched_memory_def)

lemma vouched_memory_insert:
  "vouched_memory C A r c \<Longrightarrow> vouched_result C A r k rr \<Longrightarrow> vouched_memory C A r (cache_insert now k rr c)"
  using cache_insert_entries_subset[of now k rr c] by (auto simp: vouched_memory_def)

lemma vouched_memory_invalidate: "vouched_memory C A r c \<Longrightarrow> vouched_memory C A r (cache_invalidate k c)"
  by (auto simp: vouched_memory_def cache_invalidate_def dest: in_remove_key)

lemma stored_entry_narinfo [simp]:
  "r_narinfo_bytes (stored_entry J e) = r_narinfo_bytes e" "r_upstream_url (stored_entry J e) = r_upstream_url e"
  by (auto simp: stored_entry_def route_to_row_def row_to_route_def Let_def split: option.splits sum.splits if_splits)

lemma vouched_routes_fetch:
  "vouched_routes C A J r d \<Longrightarrow> fetch_route J d h = Some e \<Longrightarrow> r_narinfo_bytes e = Some body \<Longrightarrow>
     vouched C A r (r_upstream_url e) body"
  by (fastforce simp: vouched_routes_def fetch_route_Some dest: map_of_SomeD)

lemma vouched_routes_put:
  assumes "vouched_routes C A J r d" "\<And>body. r_narinfo_bytes e = Some body \<Longrightarrow> vouched C A r (r_upstream_url e) body"
  shows "vouched_routes C A J r (put_route J fault evict_fault d e)"
proof -
  have row: "vouched C A r (r_upstream_url e') body"
    if "route_to_row J e = Some row" "row_to_route J (r_store_path e, row) = Ok e'" "r_narinfo_bytes e' = Some body"
    for row e' body
    using assms(2)[of body] stored_entry_narinfo[of J e] that by (simp add: stored_entry_def)
  from set_route_rows[of J fault evict_fault d e] show ?thesis
    using assms(1) row by (fastforce simp: vouched_routes_def dest: subsetD[OF set_upsert])
qed

lemma vouched_db_set_route:
  assumes "vouched_store C A J r" "\<And>body. r_narinfo_bytes e = Some body \<Longrightarrow> vouched C A r (r_upstream_url e) body"
    and "db_set_route J ev r e = (res, r')"
  shows "vouched_store C A J r'" "same_config r r'"
proof -
  show s: "same_config r r'" by (rule same_config_db_set_route[OF assms(3)])
  have "rt_db r' = put_route J (e_fault ev CallSetRoute) (e_fault ev CallEvict) (rt_db r) e" "rt_lru r' = rt_lru r"
    using assms(3) by (auto simp: db_set_route_def put_route_def split: prod.splits)
  then show "vouched_store C A J r'"
    using assms(1,2) vouched_routes_put[of C A J r "rt_db r" e] by (simp add: vouched_store_iff[OF s] vouched_store_def[of C A J r])
qed

section \<open>Answers from the caches\<close>

lemma route_check_vouched:
  "cached_route_filter_check C ev r u h bs hp = Fetched body \<Longrightarrow> vouched C A r u body"
  by (auto simp: cached_route_filter_check_def dest: fetch_narinfo_vouched
      split: if_splits sum.splits option.splits)

lemma vouched_memory_route:
  assumes "vouched_store C A J r" "vouched_result C A r h cached" "memory_route C ev r h hp cached = (res, r')"
  shows "vouched_store C A J r' \<and> same_config r r' \<and> (case res of Some rr \<Rightarrow> vouched_result C A r h rr | None \<Rightarrow> True)"
proof -
  have s: "same_config r r'" using memory_route_fields[OF assms(3)] by simp
  show ?thesis
  proof (cases "cached_route_filter_check C ev r (rr_url cached) h (rr_narinfo cached) hp")
    case (Fetched body)
    let ?rr = "cached\<lparr>rr_cache_hit := True, rr_narinfo := response_narinfo_bytes r (rr_url cached) h (Some body)\<rparr>"
    have rr: "vouched_result C A r h ?rr"
      using route_check_vouched[OF Fetched] by (auto simp: vouched_result_def)
    have "rt_lru r' = cache_insert (e_now ev) h ?rr (rt_lru r)" "rt_db r' = rt_db r" "res = Some ?rr"
      using assms(3) Fetched by (auto simp: memory_route_def Let_def metrics_add_def)
    with assms(1) rr s show ?thesis
      by (simp add: vouched_store_iff[OF s] vouched_store_def[of C A J r] vouched_memory_insert)
  next
    case Cached
    then have "rt_lru r' = rt_lru r" "rt_db r' = rt_db r" "res = Some (cached\<lparr>rr_cache_hit := True\<rparr>)"
      using assms(3) by (auto simp: memory_route_def metrics_add_def)
    with assms(1,2) s show ?thesis
      by (simp add: vouched_store_iff[OF s] vouched_store_def[of C A J r]) (auto simp: vouched_result_def)
  next
    case RejectedByFilter
    then have "rt_lru r' = cache_invalidate h (rt_lru r)" "rt_db r' = rt_db r" "res = None"
      using assms(3) by (auto simp: memory_route_def)
    with assms(1) s show ?thesis
      by (simp add: vouched_store_iff[OF s] vouched_store_def[of C A J r] vouched_memory_invalidate)
  qed
qed

lemma vouched_refresh_route:
  assumes "vouched_store C A J r" "fetch_route J (rt_db r) h = Some e"
    and "refresh_route C J ev r h hp e = (res, r')"
  shows "vouched_store C A J r' \<and> same_config r r' \<and>
    (case res of Ok (Some e') \<Rightarrow> r_upstream_url e' = r_upstream_url e \<and>
        (\<exists>body. r_narinfo_bytes e' = Some body \<and> vouched C A r (r_upstream_url e) body) | _ \<Rightarrow> True)"
proof -
  have written: ?thesis if w: "db_set_route J ev r (e\<lparr>r_narinfo_bytes := Some body\<rparr>) = (wres, r1)"
      and v: "vouched C A r (r_upstream_url e) body"
      and eq: "(res, r') = (case wres of Err x \<Rightarrow> Err (RDb x) | Ok _ \<Rightarrow> Ok (Some (e\<lparr>r_narinfo_bytes := Some body\<rparr>)), r1)"
    for body wres r1
    using vouched_db_set_route[OF assms(1) _ w] v eq by (cases wres) auto
  show ?thesis
  proof (cases "cached_route_filter_check C ev r (r_upstream_url e) h (r_narinfo_bytes e) hp")
    case Cached
    show ?thesis
    proof (cases "r_narinfo_bytes e")
      case (Some body)
      with assms(1,2) have "vouched C A r (r_upstream_url e) body" by (auto simp: vouched_store_def dest: vouched_routes_fetch)
      with Some Cached assms(1,3) show ?thesis by (auto simp: refresh_route_def same_config_refl)
    next
      case None
      show ?thesis
      proof (cases "fetch_narinfo C ev r (r_upstream_url e) h hp")
        case (Inl x)
        with None Cached assms(1,3) show ?thesis by (auto simp: refresh_route_def same_config_refl)
      next
        case (Inr p)
        obtain b ni where p: "p = (b, ni)" by (cases p)
        from fetch_narinfo_vouched[OF Inr[unfolded p]] obtain body where
          body: "b = Some body" "vouched C A r (r_upstream_url e) body" by blast
        obtain wres r1 where w: "db_set_route J ev r (e\<lparr>r_narinfo_bytes := Some body\<rparr>) = (wres, r1)" by fastforce
        from written[OF w body(2)] show ?thesis
          using None Cached Inr p body(1) w assms(3) by (cases wres) (auto simp: refresh_route_def)
      qed
    qed
  next
    case (Fetched body)
    obtain wres r1 where w: "db_set_route J ev r (e\<lparr>r_narinfo_bytes := Some body\<rparr>) = (wres, r1)" by fastforce
    from written[OF w route_check_vouched[OF Fetched]] show ?thesis
      using Fetched w assms(3) by (cases wres) (auto simp: refresh_route_def)
  next
    case RejectedByFilter
    with assms(1,3) show ?thesis by (auto simp: refresh_route_def same_config_refl)
  qed
qed

lemma get_route_fetch: "get_route J fault d h = Ok (Some e) \<Longrightarrow> fetch_route J d h = Some e"
  by (cases fault) (auto simp: fetch_route_def get_route_def)

lemma vouched_valid_cached_route:
  assumes "vouched_store C A J r" "valid_cached_route C J ev r h hp = (res, r')"
  shows "vouched_store C A J r' \<and> same_config r r' \<and>
    (case res of Ok (Some rr) \<Rightarrow> vouched_result C A r h rr | _ \<Rightarrow> True)"
proof -
  obtain hit lru where g: "cache_get (e_now ev) h (rt_lru r) = (hit, lru)" by fastforce
  let ?r1 = "r\<lparr>rt_lru := lru\<rparr>"
  have s1: "same_config r ?r1" by (simp add: config_simps)
  have v1: "vouched_store C A J ?r1"
    using assms(1) vouched_memory_get(1)[OF _ g] by (simp add: vouched_store_iff[OF s1] vouched_store_def[of C A J r])
  show ?thesis
  proof (cases hit)
    case (Some cached)
    have "vouched_result C A ?r1 h cached"
      using assms(1) vouched_memory_get(2)[OF _ g Some] by (simp add: vouched_cong[OF s1] vouched_store_def)
    note v = vouched_memory_route[OF v1 this]
    obtain mres where m: "memory_route C ev ?r1 h hp cached = (mres, r')" "res = Ok mres"
      using assms(2) g Some by (auto simp: valid_cached_route_def split: prod.splits)
    from v[OF m(1)] same_config_trans[OF s1] show ?thesis by (simp add: m(2) vouched_cong[OF s1] split: option.splits)
  next
    case miss: None
    let ?g = "get_route J (e_fault ev CallGetRoute) (rt_db r) h"
    note run = assms(2)[unfolded valid_cached_route_def g miss Let_def prod.case option.case, simplified]
    consider "r' = ?r1" "\<forall>rr. res \<noteq> Ok (Some rr)"
      | e where "fetch_route J (rt_db r) h = Some e" "?g = Ok (Some e)" "is_valid (e_ts ev) e"
          "\<not> upstream_down ?r1 (r_upstream_url e)"
    proof (cases "\<exists>e. ?g = Ok (Some e) \<and> is_valid (e_ts ev) e \<and> \<not> upstream_down ?r1 (r_upstream_url e)")
      case True
      then obtain e where e: "?g = Ok (Some e)" "is_valid (e_ts ev) e" "\<not> upstream_down ?r1 (r_upstream_url e)" by blast
      show ?thesis by (rule that(2)[OF get_route_fetch[OF e(1)] e])
    next
      case False
      with run show ?thesis by (intro that(1)) (auto split: sum.splits option.splits if_splits)
    qed
    then show ?thesis
    proof cases
      case 1
      with v1 s1 show ?thesis by (auto split: sum.split option.split)
    next
      case 2
      obtain fres r2 where f: "refresh_route C J ev ?r1 h hp e = (fres, r2)" by fastforce
      have w: "vouched_store C A J r2" "same_config r r2"
        using vouched_refresh_route[OF v1 _ f] 2(1) same_config_trans[OF s1] by simp_all
      show ?thesis
      proof (cases "\<exists>e'. fres = Ok (Some e')")
        case False
        with assms(2) g miss 2 f w show ?thesis
          by (auto simp: valid_cached_route_def split: sum.splits option.splits)
      next
        case True
        then obtain e' where e': "fres = Ok (Some e')" by blast
        then obtain body where body: "r_upstream_url e' = r_upstream_url e" "r_narinfo_bytes e' = Some body"
          "vouched C A r (r_upstream_url e) body"
          using vouched_refresh_route[OF v1 _ f] 2(1) by (auto simp: vouched_cong[OF s1])
        let ?rr = "fst (serve_route ev r2 h e')"
        have rr: "vouched_result C A r h ?rr"
          using body config_cong(4)[OF w(2)] by (auto simp: serve_route_def vouched_result_def Let_def)
        have "res = Ok (Some ?rr)" "rt_db r' = rt_db r2" "rt_lru r' = cache_insert (e_now ev) h ?rr (rt_lru r2)"
          "same_config r2 r'"
          using assms(2) g miss 2 f e'
          by (auto simp: valid_cached_route_def serve_route_def Let_def metrics_add_def same_config_def)
        with rr w show ?thesis
          using same_config_trans[OF w(2)]
          by (simp add: vouched_store_iff[of r2 r'] vouched_store_def[of C A J r2] vouched_cong[OF w(2)] vouched_memory_insert)
      qed
    qed
  qed
qed

lemma vouched_resolve_cached:
  assumes "vouched_store C A J r" "resolve_cached C J ev r h hp = (res, r')"
  shows "vouched_store C A J r' \<and> same_config r r' \<and>
    (case res of Ok (Some rr) \<Rightarrow> vouched_result C A r h rr | _ \<Rightarrow> True)"
proof -
  obtain x miss where m: "cache_get (e_now ev) h (rt_miss r) = (x, miss)" by fastforce
  let ?r1 = "r\<lparr>rt_miss := miss\<rparr>"
  have s1: "same_config r ?r1" by (simp add: config_simps)
  have v1: "vouched_store C A J ?r1"
    using assms(1) by (simp add: vouched_store_iff[OF s1] vouched_store_def[of C A J r])
  consider "rt_db r' = rt_db r" "rt_lru r' = rt_lru r" "same_config r r'" "\<exists>e. res = Err e"
    | "valid_cached_route C J ev ?r1 h hp = (res, r')"
  proof (cases "x = None \<and> is_negative J (e_fault ev CallIsNegative) (e_ts ev) (rt_db r) h = Ok False")
    case True
    with assms(2) m that(2) show ?thesis by (simp add: resolve_cached_def)
  next
    case False
    with assms(2) m s1 show ?thesis
      by (intro that(1))
        (auto simp: resolve_cached_def Let_def metrics_add_def same_config_def split: option.splits sum.splits if_splits)
  qed
  then show ?thesis
  proof cases
    case 1
    with assms(1) show ?thesis by (auto simp: vouched_store_iff[of r r'] vouched_store_def[of C A J r])
  next
    case 2
    with vouched_valid_cached_route[OF v1 2] same_config_trans[OF s1] show ?thesis
      by (simp add: vouched_cong[OF s1] split: sum.splits option.splits)
  qed
qed

section \<open>Answers of a race\<close>

lemma vouched_same_tables:
  "same_config r r' \<Longrightarrow> same_tables r r' \<Longrightarrow> vouched_store C A J r' = vouched_store C A J r"
  by (simp add: vouched_store_iff vouched_store_def[of C A J r] same_tables_def)

lemma vouched_commit:
  assumes "vouched_store C A J r" "commit_winner C J ev r (u, ms) h hp = (res, r')"
  shows "vouched_store C A J r'"
proof (cases "\<exists>b ni. fetch_narinfo C ev r u h hp = Ok (b, ni) \<and> upstream_allows_narinfo r u ni")
  case False
  with assms show ?thesis by (auto simp: commit_winner_def split: sum.splits if_splits)
next
  case True
  then obtain b ni where f: "fetch_narinfo C ev r u h hp = Ok (b, ni)" "upstream_allows_narinfo r u ni" by blast
  then obtain body where body: "b = Some body" "vouched C A r u body" using fetch_narinfo_vouched by blast
  define r2 where "r2 = (metrics_add [UpstreamRaceWins u, UpstreamLatency u (f_div ms (Fin 1000))] r)
      \<lparr>rt_prober := record_latency (rt_prober r) (e_now ev) u ms\<rparr>"
  have s2: "same_config r r2" by (simp add: r2_def config_simps)
  have v2: "vouched_store C A J r2"
    using assms(1) vouched_same_tables[OF s2] by (simp add: r2_def same_tables_def metrics_add_def)
  let ?e = "winner_entry J ev r h u ms b ni"
  obtain w r3 where w: "db_set_route J ev r2 ?e = (w, r3)" by fastforce
  have v3: "vouched_store C A J r3" "same_config r2 r3"
    using vouched_db_set_route[OF v2 _ w] body by (simp_all add: winner_entry_def Let_def vouched_cong[OF s2])
  have s3: "same_config r r3" by (rule same_config_trans[OF s2 v3(2)])
  have r2: "r2 = (metrics_add [UpstreamRaceWins u, UpstreamLatency u (f_div ms (Fin 1000))] r)
      \<lparr>rt_prober := record_latency (rt_prober (metrics_add [UpstreamRaceWins u, UpstreamLatency u (f_div ms (Fin 1000))] r))
         (e_now ev) u ms\<rparr>" by (simp add: r2_def metrics_add_def)
  show ?thesis
  proof (cases w)
    case (Inl e)
    with assms(2) f w v3 show ?thesis
      by (simp add: commit_winner_def Let_def r2 winner_entry_def metrics_add_def nar_url_mode_def)
  next
    case (Inr x)
    let ?rr = "\<lparr>rr_url = u, rr_latency_ms = ms, rr_cache_hit = False, rr_narinfo = response_narinfo_bytes r3 u h b\<rparr>"
    have "r' = r3\<lparr>rt_lru := cache_insert (e_now ev) h ?rr (rt_lru r3)\<rparr>"
      using assms(2) f w Inr
      by (simp add: commit_winner_def Let_def r2 winner_entry_def metrics_add_def nar_url_mode_def)
    then have r': "rt_lru r' = cache_insert (e_now ev) h ?rr (rt_lru r3)" "rt_db r' = rt_db r3" "same_config r3 r'"
      by (simp_all add: config_simps)
    moreover have "vouched_result C A r3 h ?rr"
      using body by (auto simp: vouched_result_def vouched_cong[OF s3])
    ultimately show ?thesis
      using v3 by (simp add: vouched_store_iff[of r3 r'] vouched_store_def[of C A J r3] vouched_memory_insert)
  qed
qed

definition kept_vouched :: "crypto \<Rightarrow> (string \<times> bytes) set \<Rightarrow> jiff \<Rightarrow> router \<Rightarrow> router \<Rightarrow> bool" where
  "kept_vouched C A J r r' \<longleftrightarrow> (vouched_store C A J r \<longrightarrow> same_config r r' \<and> vouched_store C A J r')"

lemma kept_vouched_tables: "same_config r r' \<Longrightarrow> same_tables r r' \<Longrightarrow> kept_vouched C A J r r'"
  by (simp add: kept_vouched_def vouched_same_tables)

interpretation vouching: race_relation "kept_vouched C A J" "\<lambda>C' J'. C' = C \<and> J' = J" for C A J
proof unfold_locales
  fix r r' r'' :: router
  assume "kept_vouched C A J r r'" "kept_vouched C A J r' r''"
  then show "kept_vouched C A J r r''" using same_config_trans by (auto simp: kept_vouched_def)
next
  fix C' J' ev h hp cres and r r' :: router and w :: "string \<times> f64"
  assume "C' = C \<and> J' = J" and c: "commit_winner C' J' ev r w h hp = (cres, r')"
  with vouched_commit[of C A J r ev "fst w" "snd w" h hp cres r'] same_config_commit[OF c]
  show "kept_vouched C A J r r'" by (simp add: kept_vouched_def)
qed (auto simp: config_simps intro!: kept_vouched_tables intro: same_config_race_group same_tables_race_group
    same_config_cooldown same_tables_cooldown)

section \<open>Requests one after the other\<close>

lemma set_negative_routes: "d_routes (snd (set_negative J fault now d k ttl)) = d_routes d"
  by (auto simp: set_negative_def Let_def split: option.split)

lemma vouched_routes_same: "d_routes d' = d_routes d \<Longrightarrow> vouched_routes C A J r d' = vouched_routes C A J r d"
  by (simp add: vouched_routes_def)

lemma remember_miss_kept: "kept_vouched C A J r (remember_miss J' ev r h)"
proof -
  have s: "same_config r (remember_miss J' ev r h)" by (simp add: remember_miss_def Let_def config_simps)
  then show ?thesis
    by (simp add: kept_vouched_def vouched_store_iff[OF s] vouched_store_def[of C A J r])
      (simp add: remember_miss_def Let_def vouched_routes_same[OF set_negative_routes])
qed

lemma vouched_resolve:
  assumes "\<And>x. kept_vouched C A J x (others x)" "vouched_store C A J r"
    and "resolve C J ev1 ev2 ev3 others r h cands hp = (res, r')"
  shows "vouched_store C A J r' \<and> same_config r r' \<and> (case res of Ok rr \<Rightarrow> vouched_result C A r h rr | Err _ \<Rightarrow> True)"
proof -
  obtain c1 r1 where c1: "resolve_cached C J ev1 r h hp = (c1, r1)" by fastforce
  note v1 = vouched_resolve_cached[OF assms(2) c1]
  show ?thesis
  proof (cases "c1 = Ok None \<and> hp \<noteq> PeerOfPeer")
    case False
    with assms(3) c1 v1 show ?thesis
      by (auto simp: resolve_def split: sum.splits option.splits if_splits)
  next
    case True
    define r2 where "r2 = count_miss ev2 r1 hp"
    obtain c2 r3 where c2: "(if hp = Client then resolve_cached C J ev2 (others r2) h hp else (Ok None, r2)) = (c2, r3)"
      by fastforce
    have s2: "same_config r r2" "vouched_store C A J r2" "kept_vouched C A J r2 (others r2)"
      using v1 vouched_same_tables[of r1 r2 C A J] assms(1) by (simp_all add: r2_def count_miss_def config_simps)
    have v3: "vouched_store C A J r3" "same_config r r3" "\<And>rr. c2 = Ok (Some rr) \<Longrightarrow> vouched_result C A r h rr"
    proof -
      have o: "vouched_store C A J (others r2)" "same_config r (others r2)"
        using s2 same_config_trans by (auto simp: kept_vouched_def)
      have "vouched_store C A J r3 \<and> same_config r r3 \<and> (case c2 of Ok (Some rr) \<Rightarrow> vouched_result C A r h rr | _ \<Rightarrow> True)"
        using c2 s2 vouched_resolve_cached[OF o(1), of ev2 h hp c2 r3] same_config_trans[OF o(2)]
        by (auto simp: vouched_cong[OF o(2)] split: if_splits sum.splits option.splits)
      then show "vouched_store C A J r3" "same_config r r3" "\<And>rr. c2 = Ok (Some rr) \<Longrightarrow> vouched_result C A r h rr" by auto
    qed
    obtain result r4 where race: "race C J ev3 r3 h cands hp = (result, r4)" by fastforce
    have "kept_vouched C A J r3 r4" by (rule vouching.rel_race[OF _ race]) simp
    with v3 have v4: "vouched_store C A J r4" "same_config r r4"
      using same_config_trans by (auto simp: kept_vouched_def)
    have served: "vouched_result C A r h rr" if "result = Ok rr" for rr
      using race_cases[OF race] that serves_vouched[of C ev3 r3 h hp rr] by (simp add: vouched_cong[OF v3(2)])
    have run: "(res, r') = (case c2 of Err e \<Rightarrow> (Err e, r3) | Ok (Some rr) \<Rightarrow> (Ok rr, r3)
        | Ok None \<Rightarrow> (result, if hp = Client \<and> result = Err NotFound then remember_miss J ev3 r4 h else r4))"
      using assms(3) True c1 c2 race
      by (auto simp: resolve_def r2_def[symmetric] split: if_splits sum.splits option.splits)
    have m: "vouched_store C A J (remember_miss J ev3 r4 h)" "same_config r (remember_miss J ev3 r4 h)"
      using remember_miss_kept[of C A J r4 J ev3 h] v4 same_config_trans by (auto simp: kept_vouched_def)
    from run v3 v4 served m show ?thesis by (cases c2) (auto split: option.splits if_splits sum.split)
  qed
qed

section \<open>A run of the program\<close>

text \<open>
  What happens to the router while it serves: requests, with any such run of other tasks between the two
  looks of a lookup; measurements; the expiry of routes; writes to the other tables; and routes merged
  from the mesh, whatever they hold. \<open>A\<close> are the narinfos of the merged routes, each with its upstream.
\<close>

inductive serving :: "crypto \<Rightarrow> jiff \<Rightarrow> (string \<times> bytes) set \<Rightarrow> router \<Rightarrow> router \<Rightarrow> bool" for C J A where
  serving_start: "serving C J A r r"
| serving_request: "serving C J A r0 r \<Longrightarrow> (\<And>x. serving C J A x (others x)) \<Longrightarrow>
    serving C J A r0 (snd (resolve C J ev1 ev2 ev3 others r h cands hp))"
| serving_health: "serving C J A r0 r \<Longrightarrow> serving C J A r0 (r\<lparr>rt_prober := p\<rparr>)"
| serving_expiry: "serving C J A r0 r \<Longrightarrow>
    serving C J A r0 (r\<lparr>rt_db := snd (expire_old_routes J fault now (rt_db r))\<rparr>)"
| serving_tables: "serving C J A r0 r \<Longrightarrow> d_routes d = d_routes (rt_db r) \<Longrightarrow> serving C J A r0 (r\<lparr>rt_db := d\<rparr>)"
| serving_merge: "serving C J A r0 r \<Longrightarrow>
    (\<And>e body. e \<in> set rs \<Longrightarrow> r_narinfo_bytes e = Some body \<Longrightarrow> (r_upstream_url e, body) \<in> A) \<Longrightarrow>
    serving C J A r0 (r\<lparr>rt_db := merge_routes J F now (rt_db r) rs\<rparr>)"

lemma vouched_merge_loop:
  assumes "vouched_routes C A J r d"
    and "\<And>e body. e \<in> set rs \<Longrightarrow> r_narinfo_bytes e = Some body \<Longrightarrow> vouched C A r (r_upstream_url e) body"
  shows "vouched_routes C A J r (merge_loop J F i rs d)"
  using assms
proof (induction J F i rs d rule: merge_loop.induct)
  case (2 J F i e rs d)
  have "vouched_routes C A J r (put_route J (mf_set (F i)) (mf_evict (F i)) d e)"
    by (rule vouched_routes_put) (use "2.prems" in auto)
  with 2 show ?case by simp
qed simp

lemma kept_vouched_db:
  "(vouched_routes C A J r (rt_db r) \<Longrightarrow> vouched_routes C A J r d) \<Longrightarrow> kept_vouched C A J r (r\<lparr>rt_db := d\<rparr>)"
  by (simp add: kept_vouched_def config_simps vouched_store_iff[of r "r\<lparr>rt_db := d\<rparr>"] vouched_store_def[of C A J r])

lemma serving_kept: "serving C J A r0 r \<Longrightarrow> kept_vouched C A J r0 r"
proof (induction rule: serving.induct)
  case (serving_start r)
  show ?case by (rule vouching.rel_refl)
next
  case (serving_request r0 r others ev1 ev2 ev3 h cands hp)
  obtain res r' where run: "resolve C J ev1 ev2 ev3 others r h cands hp = (res, r')" by fastforce
  with vouched_resolve[OF serving_request.IH(2) _ run] serving_request.IH(1) show ?case
    using same_config_trans by (auto simp: kept_vouched_def run)
next
  case (serving_health r0 r p)
  have "kept_vouched C A J r (r\<lparr>rt_prober := p\<rparr>)"
    by (rule kept_vouched_tables) (simp_all add: config_simps same_tables_def)
  with serving_health.IH show ?case by (rule vouching.rel_trans)
next
  case (serving_expiry r0 r fault now)
  have "kept_vouched C A J r (r\<lparr>rt_db := snd (expire_old_routes J fault now (rt_db r))\<rparr>)"
    by (rule kept_vouched_db) (auto simp: vouched_routes_def expire_old_routes_def split: option.split)
  with serving_expiry.IH show ?case by (rule vouching.rel_trans)
next
  case (serving_tables r0 r d)
  have "kept_vouched C A J r (r\<lparr>rt_db := d\<rparr>)"
    by (rule kept_vouched_db) (simp add: vouched_routes_same[OF serving_tables.hyps(2)])
  with serving_tables.IH show ?case by (rule vouching.rel_trans)
next
  case (serving_merge r0 r rs F now)
  have "kept_vouched C A J r (r\<lparr>rt_db := merge_routes J F now (rt_db r) rs\<rparr>)"
    by (rule kept_vouched_db) (auto simp: merge_routes_def vouched_def intro!: vouched_merge_loop dest: serving_merge.hyps(2))
  with serving_merge.IH show ?case by (rule vouching.rel_trans)
qed

section \<open>Properties\<close>

lemma is_negative_same: "d_negative d' = d_negative d \<Longrightarrow> is_negative J fault now d' h = is_negative J fault now d h"
  by (simp add: is_negative_def split: option.split)

text \<open>A route on record answers a lookup that the memory does not, with the bytes stored in it.\<close>

lemma cached_db_route:
  assumes "fst (cache_get (e_now ev) h (rt_miss r)) = None" "fst (cache_get (e_now ev) h (rt_lru r)) = None"
    and "is_negative J (e_fault ev CallIsNegative) (e_ts ev) (rt_db r) h = Ok False" "e_fault ev CallGetRoute = None"
    and "fetch_route J (rt_db r) h = Some e" "is_valid (e_ts ev) e" "\<not> upstream_down r (r_upstream_url e)"
    and "rt_filters r (r_upstream_url e) = None" "r_narinfo_bytes e = Some body"
  shows "fst (resolve_cached C J ev r h hp) =
    Ok (Some \<lparr>rr_url = r_upstream_url e, rr_latency_ms = r_latency_ema e, rr_cache_hit = True,
      rr_narinfo = response_narinfo_bytes r (r_upstream_url e) h (Some body)\<rparr>)"
proof -
  obtain m where m: "cache_get (e_now ev) h (rt_miss r) = (None, m)"
    using assms(1) by (cases "cache_get (e_now ev) h (rt_miss r)") auto
  obtain l where l: "cache_get (e_now ev) h (rt_lru r) = (None, l)"
    using assms(2) by (cases "cache_get (e_now ev) h (rt_lru r)") auto
  have "get_route J None (rt_db r) h = Ok (Some e)"
    using assms(5) by (auto simp: fetch_route_def split: sum.splits option.splits)
  with m l assms(3,4,6-9) show ?thesis
    by (simp add: resolve_cached_def valid_cached_route_def refresh_route_def serve_route_def
        cached_route_filter_check_def upstream_down_def response_narinfo_bytes_def nar_url_mode_def Let_def)
qed

lemma resolve_db_route:
  assumes "fst (cache_get (e_now ev) h (rt_miss r)) = None" "fst (cache_get (e_now ev) h (rt_lru r)) = None"
    and "is_negative J (e_fault ev CallIsNegative) (e_ts ev) (rt_db r) h = Ok False" "e_fault ev CallGetRoute = None"
    and "fetch_route J (rt_db r) h = Some e" "is_valid (e_ts ev) e" "\<not> upstream_down r (r_upstream_url e)"
    and "rt_filters r (r_upstream_url e) = None" "r_narinfo_bytes e = Some body"
  shows "fst (resolve C J ev ev2 ev3 others r h cands hp) =
    Ok \<lparr>rr_url = r_upstream_url e, rr_latency_ms = r_latency_ema e, rr_cache_hit = True,
      rr_narinfo = response_narinfo_bytes r (r_upstream_url e) h (Some body)\<rparr>"
  using cached_db_route[OF assms, of C hp] by (cases "resolve_cached C J ev r h hp") (auto simp: resolve_def)

lemma serving_mono: "serving C J A r0 r \<Longrightarrow> A \<subseteq> B \<Longrightarrow> serving C J B r0 r"
proof (induction rule: serving.induct)
  case (serving_merge r0 r rs F now)
  then show ?case by (intro serving.serving_merge) auto
qed (auto intro: serving.intros)

text \<open>The narinfos in the route table, with their upstreams.\<close>

definition stored_narinfos :: "jiff \<Rightarrow> db \<Rightarrow> (string \<times> bytes) set" where
  "stored_narinfos J d = {(u, body). \<exists>row \<in> set (d_routes d). \<exists>e.
     row_to_route J row = Ok e \<and> r_upstream_url e = u \<and> r_narinfo_bytes e = Some body}"

lemma vouched_start:
  "t_entries (rt_lru r) = [] \<Longrightarrow> vouched_store C (A \<union> stored_narinfos J (rt_db r)) J r"
  by (auto simp: vouched_store_def vouched_memory_def vouched_routes_def vouched_def stored_narinfos_def)

lemma vouched_answer:
  assumes "vouched_result C A r h rr"
  shows "\<exists>body. ((rr_url rr, body) \<in> A \<or>
      (\<exists>ni. narinfo_parse body = Ok ni \<and>
        (case rt_keys r (rr_url rr) of None \<Rightarrow> True | Some keys \<Rightarrow> \<exists>k \<in> set keys. narinfo_verify C ni k = Ok True))) \<and>
    rr_narinfo rr = Some (if nar_url_mode r (rr_url rr) = Keep then body
      else rewrite_narinfo_url body (rr_url rr) h (nar_url_mode r (rr_url rr)))"
  using assms unfolding vouched_result_def vouched_def verified_def
  by (elim exE conjE, intro exI conjI) (assumption, simp add: response_narinfo_bytes_def Let_def)

text \<open>
  C1: Where every served narinfo comes from: from a start with an empty memory, through any run of
  requests, interleaved with others, of measurements, expiry and merges from the mesh, every answer, raced
  or cached, is a narinfo that some key registered at the start for its upstream verifies, if it has
  keys, with at most the URL rewritten, unless these bytes were stored for that upstream at the start or
  were merged for it from the mesh (\<open>A\<close>). Without a mesh and with an empty table, only verified narinfos
  are served; \<open>mesh_narinfo_unverified\<close> shows that a merged one may not be.
\<close>

theorem served_always_vouched:
  assumes "serving C J A r0 r" "t_entries (rt_lru r0) = []"
    and "\<And>x. serving C J A x (others x)" "resolve C J ev1 ev2 ev3 others r h cands hp = (Ok rr, r')"
  shows "\<exists>body. ((rr_url rr, body) \<in> A \<union> stored_narinfos J (rt_db r0) \<or>
      (\<exists>ni. narinfo_parse body = Ok ni \<and>
        (case rt_keys r0 (rr_url rr) of None \<Rightarrow> True | Some keys \<Rightarrow> \<exists>k \<in> set keys. narinfo_verify C ni k = Ok True))) \<and>
    rr_narinfo rr = Some (if nar_url_mode r0 (rr_url rr) = Keep then body
      else rewrite_narinfo_url body (rr_url rr) h (nar_url_mode r0 (rr_url rr)))"
proof -
  let ?B = "A \<union> stored_narinfos J (rt_db r0)"
  have mono: "serving C J A x y \<Longrightarrow> kept_vouched C ?B J x y" for x y
    by (rule serving_kept[OF serving_mono]) auto
  from mono[OF assms(1)] vouched_start[OF assms(2)] have r: "same_config r0 r" "vouched_store C ?B J r"
    by (simp_all add: kept_vouched_def)
  from vouched_resolve[OF mono[OF assms(3)] r(2) assms(4)] have "vouched_result C ?B r0 h rr"
    by (simp add: vouched_cong[OF r(1)])
  then show ?thesis by (rule vouched_answer)
qed

definition cached_demo :: "bytes \<Rightarrow> route_entry" where
  "cached_demo body = (route_demo ''h'' 5 2000000000)\<lparr>r_narinfo_bytes := Some body\<rparr>"

definition keyed_demo :: router where
  "keyed_demo = router_demo\<lparr>rt_keys := [''https://cache'' \<mapsto> [''k:1'']], rt_modes := [''https://cache'' \<mapsto> Keep]\<rparr>"

definition stocked_demo :: "router \<Rightarrow> bytes \<Rightarrow> router" where
  "stocked_demo r body = r\<lparr>rt_db := put_route jiff_demo None None (rt_db r) (cached_demo body)\<rparr>"

lemma cached_demo_path: "r_store_path (cached_demo body) = ''h''"
  "r_upstream_url (cached_demo body) = ''https://cache''" "r_narinfo_bytes (cached_demo body) = Some body"
  by (simp_all add: cached_demo_def route_demo_def)

lemma cached_demo_storable: "plain_write jiff_demo None (db_open 10 [] [] []) (cached_demo body)"
  using route_demo_storable[of 5 2000000000 "''h''"]
  by (simp add: plain_write_def cached_demo_def storable_def db_open_def route_demo_def)

lemma cached_demo_stored:
  "r_upstream_url (stored_entry jiff_demo (cached_demo body)) = ''https://cache''"
  "is_valid 6 (stored_entry jiff_demo (cached_demo body))" "is_valid 0 (stored_entry jiff_demo (cached_demo body))"
  "r_latency_ema (stored_entry jiff_demo (cached_demo body)) = Fin 12"
  using stored_entry_fields[of jiff_demo "cached_demo body"] cached_demo_storable[of body]
  by (simp_all add: plain_write_def is_valid_def cached_demo_def route_demo_def second_of_def jiff_demo_def sql_real_def)

lemma stocked_demo_look:
  assumes "rt_db r = db_open 10 [] [] []" "rt_lru r = cache_new 1024 (secs 3600)" "rt_miss r = cache_new 32768 (secs 5)"
    and "rt_filters r = Map.empty" "rt_prober r = prober_new (Fin (3/10))"
  shows "fst (resolve_cached C jiff_demo (env_demo True) (stocked_demo r body) ''h'' hp) =
    Ok (Some \<lparr>rr_url = ''https://cache'', rr_latency_ms = Fin 12, rr_cache_hit = True,
      rr_narinfo = response_narinfo_bytes r ''https://cache'' ''h'' (Some body)\<rparr>)"
proof -
  let ?e = "stored_entry jiff_demo (cached_demo body)" and ?r = "stocked_demo r body"
  have f: "fetch_route jiff_demo (rt_db ?r) ''h'' = Some ?e"
    using db_store.fetch_put[OF cached_demo_storable, of None body "''h''"] assms(1)
    by (simp add: stocked_demo_def cached_demo_path)
  have n: "d_negative (rt_db ?r) = []"
    using assms(1) by (simp add: stocked_demo_def put_route_def set_route_negative[OF prod.collapse[symmetric]] db_open_def)
  have "fst (resolve_cached C jiff_demo (env_demo True) ?r ''h'' hp) =
      Ok (Some \<lparr>rr_url = r_upstream_url ?e, rr_latency_ms = r_latency_ema ?e, rr_cache_hit = True,
        rr_narinfo = response_narinfo_bytes ?r (r_upstream_url ?e) ''h'' (Some body)\<rparr>)"
    by (rule cached_db_route[OF _ _ _ _ f])
      (use assms n in \<open>simp_all add: env_demo_def stocked_demo_def cache_get_def cache_new_def is_negative_def
        cached_demo_stored upstream_down_def get_health_def prober_new_def cached_demo_path\<close>)
  then show ?thesis by (simp add: cached_demo_stored cached_demo_path stocked_demo_def response_narinfo_bytes_def nar_url_mode_def)
qed

lemma stocked_demo_resolves:
  assumes "rt_db r = db_open 10 [] [] []" "rt_lru r = cache_new 1024 (secs 3600)" "rt_miss r = cache_new 32768 (secs 5)"
    and "rt_filters r = Map.empty" "rt_prober r = prober_new (Fin (3/10))"
  shows "fst (resolve C jiff_demo (env_demo True) ev2 ev3 others (stocked_demo r body) ''h'' cands hp) =
    Ok \<lparr>rr_url = ''https://cache'', rr_latency_ms = Fin 12, rr_cache_hit = True,
      rr_narinfo = response_narinfo_bytes r ''https://cache'' ''h'' (Some body)\<rparr>"
  using stocked_demo_look[OF assms, of C body hp]
  by (cases "resolve_cached C jiff_demo (env_demo True) (stocked_demo r body) ''h'' hp") (auto simp: resolve_def)

lemma demo_look: "resolve_cached C jiff_demo (env_demo present) (metrics_add ms router_demo) h hp =
    (Ok None, metrics_add ms router_demo)"
  by (simp add: demo_defs metrics_add_def resolve_cached_def valid_cached_route_def cache_get_def cache_new_def
      is_negative_def get_route_def optional_route_def Let_def)

lemma demo_nothing_stored: "stored_narinfos J (rt_db router_demo) = {}"
  by (simp add: stored_narinfos_def demo_defs)

theorem served_always_vouched_witness:
  "\<exists>rr body ni. fst (resolve crypto_demo jiff_demo (env_demo True) (env_demo True) (env_demo True) id
      router_demo ''h'' [''u''] Client) = Ok rr \<and> narinfo_parse body = Ok ni \<and>
    rr_narinfo rr = Some (if nar_url_mode router_demo (rr_url rr) = Keep then body
      else rewrite_narinfo_url body (rr_url rr) ''h'' (nar_url_mode router_demo (rr_url rr)))"
proof -
  let ?run = "resolve crypto_demo jiff_demo (env_demo True) (env_demo True) (env_demo True) id router_demo ''h'' [''u''] Client"
  obtain rr r' where race: "race crypto_demo jiff_demo (env_demo True) (metrics_add [NarinfoCacheMisses] router_demo)
      ''h'' [''u''] Client = (Ok rr, r')" using demo_race_logged by blast
  have "e_contended (env_demo True) = False" by (simp add: env_demo_def)
  then have run: "?run = (Ok rr, r')"
    using race demo_look[of crypto_demo True "[]"] by (simp add: resolve_def count_miss_def demo_look)
  have s: "serving crypto_demo jiff_demo {} x (id x)" for x by (simp add: serving_start)
  have "t_entries (rt_lru router_demo) = []" by (simp add: demo_defs cache_new_def)
  from served_always_vouched[OF serving_start this s run] run show ?thesis by (auto simp: demo_nothing_stored)
qed

text \<open>
  C11: What a peer announces is served unverified: a route that an allowed node announces carries the
  bytes of a narinfo, and once the datagram is merged, lookups of its path are answered with these
  bytes, whatever keys the upstream has and whatever verification would say (for an upstream without
  filters that is not down, and a path not answered otherwise).
\<close>

theorem mesh_narinfo_unverified:
  assumes "mesh_lib_ok L" "announce L kp sent None peer [e] = Ok datagram" "length datagram \<le> max_packet_size"
    and "ml_public L kp \<in> set allowed" "usable_route now e" "r_store_path e = h" "r_narinfo_bytes e = Some body"
    and "should_set J None (rt_db r) e" "plain_write J None (rt_db r) e" "rt_filters r (r_upstream_url e) = None"
    and "\<not> upstream_down r (r_upstream_url e)" "is_valid (e_ts ev) (stored_entry J e)"
    and "e_fault ev CallGetRoute = None" "is_negative J (e_fault ev CallIsNegative) (e_ts ev) (rt_db r) h = Ok False"
    and "fst (cache_get (e_now ev) h (rt_miss r)) = None" "fst (cache_get (e_now ev) h (rt_lru r)) = None"
  shows "map_sum id rr_narinfo (fst (resolve C J ev ev2 ev3 others
      (r\<lparr>rt_db := snd (receive J L allowed (\<lambda>_. no_fault) now (rt_db r) datagram)\<rparr>) h cands hp)) =
    Ok (response_narinfo_bytes r (r_upstream_url e) h (Some body))"
proof -
  let ?d = "merge_routes J (\<lambda>_. no_fault) now (rt_db r) [e]"
  from encode_packet_parts[OF assms(1) announce_packet[OF assms(2)]] obtain packet where
    "ml_decode L packet = Ok (announcement L kp sent [e])" "datagram = ml_public L kp @ ml_sign L kp packet @ packet"
    "length (ml_public L kp) = 32" "length (ml_sign L kp packet) = 64"
    "verify_packet L (ml_public L kp) packet (ml_sign L kp packet) = Ok ()" by blast
  with assms(3,4) have merged: "snd (receive J L allowed (\<lambda>_. no_fault) now (rt_db r) datagram) = ?d"
    using decode_packet_parts[of "ml_public L kp" "ml_sign L kp packet" L packet]
    by (simp add: receive_def announcement_def)
  have d: "?d = put_route J None None (rt_db r) e"
    using assms(5,8) by (simp add: merge_routes_def no_fault_def)
  let ?r = "r\<lparr>rt_db := ?d\<rparr>" and ?e = "stored_entry J e"
  have f: "fetch_route J (rt_db ?r) h = Some ?e"
    using db_store.fetch_put[OF assms(9), of None h] assms(6) by (simp add: d)
  have "d_negative ?d = d_negative (rt_db r)"
    unfolding d put_route_def by (rule set_route_negative[OF prod.collapse[symmetric]])
  from is_negative_same[OF this] have
    n: "is_negative J (e_fault ev CallIsNegative) (e_ts ev) (rt_db ?r) h = Ok False" using assms(14) by simp
  have "fst (resolve C J ev ev2 ev3 others ?r h cands hp) =
      Ok \<lparr>rr_url = r_upstream_url ?e, rr_latency_ms = r_latency_ema ?e, rr_cache_hit = True,
        rr_narinfo = response_narinfo_bytes ?r (r_upstream_url ?e) h (Some body)\<rparr>"
    by (rule resolve_db_route[OF _ _ n _ f]) (use assms in \<open>simp_all add: upstream_down_def\<close>)
  then show ?thesis by (simp add: merged response_narinfo_bytes_def nar_url_mode_def)
qed

text \<open>A node whose one announcement carries a forged narinfo.\<close>

definition mesh_forging :: "u8 mesh_lib" where
  "mesh_forging = (mesh_demo 3)
     \<lparr>ml_encode := (\<lambda>msg. if m_routes msg = [cached_demo ''forged''] \<and> m_node_id msg = ''id'' \<and> m_timestamp msg = 1
        then Ok [1] else Err ''other message''),
      ml_decode := (\<lambda>body. if body = [1]
        then Ok \<lparr>m_type = Announce, m_node_id = ''id'', m_timestamp = 1, m_routes = [cached_demo ''forged'']\<rparr>
        else Err ''truncated'')\<rparr>"

lemma mesh_forging_ok: "mesh_lib_ok mesh_forging"
proof -
  have "\<lparr>m_type = Announce, m_node_id = ''id'', m_timestamp = 1, m_routes = [cached_demo ''forged'']\<rparr> = msg"
    if "m_routes msg = [cached_demo ''forged'']" "m_node_id msg = ''id''" "m_timestamp msg = 1" for msg :: message
    using that by (cases msg; cases "m_type msg") simp
  then show ?thesis
    using mesh_demo_ok(1)[of 3] by (simp add: mesh_lib_ok_def mesh_forging_def split: if_splits)
qed

theorem mesh_narinfo_unverified_witness:
  "rt_keys keyed_demo ''https://cache'' = Some [''k:1''] \<and> (\<exists>e. narinfo_parse ''forged'' = Err e) \<and>
   (\<exists>datagram. announce mesh_forging 5 1 None ''peer'' [cached_demo ''forged''] = Ok datagram \<and>
      map_sum id rr_narinfo (fst (resolve crypto_demo jiff_demo (env_demo True) (env_demo True) (env_demo True) id
        (keyed_demo\<lparr>rt_db := snd (receive jiff_demo mesh_forging [replicate 32 7] (\<lambda>_. no_fault) 6
           (rt_db keyed_demo) datagram)\<rparr>) ''h'' [''u''] Client)) = Ok (Some ''forged''))"
proof (intro conjI)
  show "rt_keys keyed_demo ''https://cache'' = Some [''k:1'']" by (simp add: keyed_demo_def)
  show "\<exists>e. narinfo_parse ''forged'' = Err e" by (rule exI, code_simp)
  have a: "announce mesh_forging 5 1 None ''peer'' [cached_demo ''forged''] = Ok (replicate 32 7 @ replicate 64 9 @ [1])"
    by (simp add: announce_def encode_packet_def node_sign_def announcement_def node_id_def mesh_forging_def
        mesh_demo_def i64_max_def)
  have db: "rt_db keyed_demo = db_open 10 [] [] []" by (simp add: keyed_demo_def demo_defs)
  have "map_sum id rr_narinfo (fst (resolve crypto_demo jiff_demo (env_demo True) (env_demo True) (env_demo True) id
        (keyed_demo\<lparr>rt_db := snd (receive jiff_demo mesh_forging [replicate 32 7] (\<lambda>_. no_fault) 6
           (rt_db keyed_demo) (replicate 32 7 @ replicate 64 9 @ [1]))\<rparr>) ''h'' [''u''] Client)) =
      Ok (response_narinfo_bytes keyed_demo (r_upstream_url (cached_demo ''forged'')) ''h'' (Some ''forged''))"
  proof (rule mesh_narinfo_unverified[OF mesh_forging_ok a])
    show "should_set jiff_demo None (rt_db keyed_demo) (cached_demo ''forged'')"
      by (simp add: should_set_def get_route_def optional_route_def db db_open_def)
    show "plain_write jiff_demo None (rt_db keyed_demo) (cached_demo ''forged'')"
      by (simp only: db cached_demo_storable)
    show "usable_route 6 (cached_demo ''forged'')" by (simp add: usable_route_def cached_demo_def route_demo_def)
  qed (simp_all add: cached_demo_path cached_demo_stored max_packet_size_def mesh_forging_def mesh_demo_def keyed_demo_def
      demo_defs upstream_down_def get_health_def is_negative_def cache_get_def cache_new_def)
  then show "\<exists>datagram. announce mesh_forging 5 1 None ''peer'' [cached_demo ''forged''] = Ok datagram \<and>
      map_sum id rr_narinfo (fst (resolve crypto_demo jiff_demo (env_demo True) (env_demo True) (env_demo True) id
        (keyed_demo\<lparr>rt_db := snd (receive jiff_demo mesh_forging [replicate 32 7] (\<lambda>_. no_fault) 6
           (rt_db keyed_demo) datagram)\<rparr>) ''h'' [''u''] Client)) = Ok (Some ''forged'')"
    using a by (simp add: cached_demo_path response_narinfo_bytes_def nar_url_mode_def keyed_demo_def Let_def)
qed

end
