(* ===== verification/Singleflight.thy ===== *)
theory Singleflight
  imports Prelude
begin

text \<open>
  The single flight of \<open>Router::resolve\<close>: client lookups of one store hash share a mutex found in a
  concurrent map, and whoever holds it removes it from the map when done. Tasks interleave between
  the await points, so the protocol is a step relation over the tasks in flight; the caches are the set
  of hashes they answer. The map's and the mutex's operations are atomic, as their libraries promise.
\<close>

section \<open>State and operations\<close>

text \<open>Where a task stands: past the first look into the caches, queued on a mutex, holding it, racing.\<close>

datatype phase = Entering string | Waiting string nat | Holding string nat | Racing string nat

record singleflight =
  sf_inflight :: "string \<rightharpoonup> nat"
  sf_next :: nat
  sf_tasks :: "nat \<rightharpoonup> phase"
  sf_answered :: "string set"

definition sf_init :: singleflight where
  "sf_init = \<lparr>sf_inflight = Map.empty, sf_next = 0, sf_tasks = Map.empty, sf_answered = {}\<rparr>"

text \<open>The entry of the map: the mutex on record, or a new one put there.\<close>

definition sf_entry :: "string \<Rightarrow> singleflight \<Rightarrow> nat \<times> singleflight" where
  "sf_entry k s =
     (case sf_inflight s k of
        Some l \<Rightarrow> (l, s)
      | None \<Rightarrow> (sf_next s, s\<lparr>sf_inflight := (sf_inflight s)(k \<mapsto> sf_next s), sf_next := sf_next s + 1\<rparr>))"

text \<open>Dropping the guard: the entry goes only while it is still this mutex.\<close>

definition inflight_guard_drop :: "string \<Rightarrow> nat \<Rightarrow> singleflight \<Rightarrow> singleflight" where
  "inflight_guard_drop k l s =
     (if sf_inflight s k = Some l then s\<lparr>sf_inflight := (sf_inflight s)(k := None)\<rparr> else s)"

definition set_task :: "nat \<Rightarrow> phase option \<Rightarrow> singleflight \<Rightarrow> singleflight" where
  "set_task t p s = s\<lparr>sf_tasks := (sf_tasks s)(t := p)\<rparr>"

fun holds :: "phase \<Rightarrow> nat option" where
  "holds (Holding k l) = Some l"
| "holds (Racing k l) = Some l"
| "holds _ = None"

fun uses :: "phase \<Rightarrow> (string \<times> nat) option" where
  "uses (Entering k) = None"
| "uses (Waiting k l) = Some (k, l)"
| "uses (Holding k l) = Some (k, l)"
| "uses (Racing k l) = Some (k, l)"

text \<open>
  The events: a lookup that the caches do not answer, its entry into the map, the mutex, the second
  look and its failure, the end of the race with (\<open>True\<close>) or without an answer that is remembered, the
  request of a waiting or of a holding task going away, and answers that expire or are learnt elsewhere.
  A waiting task abandons the entry of the map if the mutex on record is its own and no other lookup's;
  any other departure from the queue is a \<open>DropWaiter\<close>.
\<close>

datatype event =
    Arrive | Enter | Acquire | Recheck | Fail | Finish bool | DropWaiter | Abandon | DropHolder | Expire | Learn

definition abandons :: "(string \<rightharpoonup> nat) \<Rightarrow> (nat \<rightharpoonup> phase) \<Rightarrow> nat \<Rightarrow> bool" where
  "abandons inflight tasks t \<longleftrightarrow> (\<exists>p k l. tasks t = Some p \<and> uses p = Some (k, l) \<and> inflight k = Some l \<and>
     (\<forall>u q. tasks u = Some q \<longrightarrow> uses q = Some (k, l) \<longrightarrow> u = t))"

inductive sf_step :: "event \<Rightarrow> singleflight \<Rightarrow> singleflight \<Rightarrow> bool" where
  arrive: "sf_tasks s t = None \<Longrightarrow> k \<notin> sf_answered s \<Longrightarrow>
    sf_step Arrive s (set_task t (Some (Entering k)) s)"
| enter: "sf_tasks s t = Some (Entering k) \<Longrightarrow> sf_entry k s = (l, s') \<Longrightarrow>
    sf_step Enter s (set_task t (Some (Waiting k l)) s')"
| acquire: "sf_tasks s t = Some (Waiting k l) \<Longrightarrow> \<forall>p \<in> ran (sf_tasks s). holds p \<noteq> Some l \<Longrightarrow>
    sf_step Acquire s (set_task t (Some (Holding k l)) s)"
| recheck: "sf_tasks s t = Some (Holding k l) \<Longrightarrow>
    sf_step Recheck s
      (if k \<in> sf_answered s then set_task t None (inflight_guard_drop k l s) else set_task t (Some (Racing k l)) s)"
| fail: "sf_tasks s t = Some (Holding k l) \<Longrightarrow> sf_step Fail s (set_task t None (inflight_guard_drop k l s))"
| finish: "sf_tasks s t = Some (Racing k l) \<Longrightarrow>
    sf_step (Finish answer) s
      (set_task t None (inflight_guard_drop k l (if answer then s\<lparr>sf_answered := insert k (sf_answered s)\<rparr> else s)))"
| drop_waiter: "sf_tasks s t = Some p \<Longrightarrow> holds p = None \<Longrightarrow>
    sf_step (if abandons (sf_inflight s) (sf_tasks s) t then Abandon else DropWaiter) s (set_task t None s)"
| drop_holder: "sf_tasks s t = Some p \<Longrightarrow> holds p = Some l \<Longrightarrow> uses p = Some (k, l) \<Longrightarrow>
    sf_step DropHolder s (set_task t None (inflight_guard_drop k l s))"
| expire: "sf_step Expire s (s\<lparr>sf_answered := sf_answered s - A\<rparr>)"
| learn: "sf_step Learn s (s\<lparr>sf_answered := sf_answered s \<union> A\<rparr>)"

inductive sf_reach :: "event set \<Rightarrow> singleflight \<Rightarrow> bool" for E where
  sf_start: "sf_reach E sf_init"
| sf_next_step: "sf_reach E s \<Longrightarrow> e \<in> E \<Longrightarrow> sf_step e s s' \<Longrightarrow> sf_reach E s'"

inductive_cases sf_stepE: "sf_step e s s'"

section \<open>Invariants\<close>

lemma sf_simps [simp]:
  "sf_tasks (set_task t p s) = (sf_tasks s)(t := p)" "sf_inflight (set_task t p s) = sf_inflight s"
  "sf_next (set_task t p s) = sf_next s" "sf_answered (set_task t p s) = sf_answered s"
  "sf_tasks (inflight_guard_drop k l s) = sf_tasks s" "sf_next (inflight_guard_drop k l s) = sf_next s"
  "sf_answered (inflight_guard_drop k l s) = sf_answered s"
  "sf_inflight (inflight_guard_drop k l s) = (if sf_inflight s k = Some l then (sf_inflight s)(k := None) else sf_inflight s)"
  by (simp_all add: set_task_def inflight_guard_drop_def)

lemma sf_entry_cases:
  assumes "sf_entry k s = (l, s')"
  obtains "sf_inflight s k = Some l" "s' = s"
  | "sf_inflight s k = None" "l = sf_next s"
    "s' = s\<lparr>sf_inflight := (sf_inflight s)(k \<mapsto> l), sf_next := sf_next s + 1\<rparr>"
  using assms by (auto simp: sf_entry_def split: option.splits)

lemma holds_uses: "holds p = Some l \<Longrightarrow> \<exists>k. uses p = Some (k, l)"
  by (cases p) auto

text \<open>One holder per mutex.\<close>

definition sf_exclusive :: "singleflight \<Rightarrow> bool" where
  "sf_exclusive s \<longleftrightarrow> (\<forall>t t' p p' l. sf_tasks s t = Some p \<longrightarrow> sf_tasks s t' = Some p' \<longrightarrow>
     holds p = Some l \<longrightarrow> holds p' = Some l \<longrightarrow> t = t')"

lemma exclusive_drop: "sf_exclusive s \<Longrightarrow> sf_tasks s' = (sf_tasks s)(t := None) \<Longrightarrow> sf_exclusive s'"
  unfolding sf_exclusive_def by (auto split: if_splits)

lemma exclusive_move:
  assumes "sf_exclusive s" "sf_tasks s' = (sf_tasks s)(t := Some p)"
    and free: "\<And>u q. u \<noteq> t \<Longrightarrow> sf_tasks s u = Some q \<Longrightarrow> holds p \<noteq> None \<Longrightarrow> holds q \<noteq> holds p"
  shows "sf_exclusive s'"
  unfolding sf_exclusive_def
proof (intro allI impI)
  fix u u' q q' l
  assume "sf_tasks s' u = Some q" "sf_tasks s' u' = Some q'" "holds q = Some l" "holds q' = Some l"
  with assms(1,2) free[of u q] free[of u' q'] show "u = u'"
    by (cases "u = t"; cases "u' = t") (auto simp: sf_exclusive_def)
qed

lemma step_exclusive: "sf_step e s s' \<Longrightarrow> sf_exclusive s \<Longrightarrow> sf_exclusive s'"
proof (induction rule: sf_step.induct)
  case (arrive s t k)
  show ?case by (rule exclusive_move[where t = t and p = "Entering k", OF arrive(3)]) simp_all
next
  case (enter s t k l s')
  from enter(2) have "sf_tasks s' = sf_tasks s" by (cases rule: sf_entry_cases) simp_all
  then show ?case by (intro exclusive_move[where t = t and p = "Waiting k l", OF enter(3)]) simp_all
next
  case (acquire s t k l)
  show ?case by (rule exclusive_move[where t = t and p = "Holding k l", OF acquire(3)]) (use acquire(2) in \<open>auto simp: ran_def\<close>)
next
  case (recheck s t k l)
  have "holds q \<noteq> Some l" if "u \<noteq> t" "sf_tasks s u = Some q" for u q
    using that recheck(1,2) unfolding sf_exclusive_def by fastforce
  then have "sf_exclusive (set_task t (Some (Racing k l)) s)"
    by (intro exclusive_move[where t = t and p = "Racing k l", OF recheck(2)]) simp_all
  moreover have "sf_exclusive (set_task t None (inflight_guard_drop k l s))"
    by (rule exclusive_drop[where t = t, OF recheck(2)]) simp
  ultimately show ?case by simp
next
  case (fail s t k l)
  show ?case by (rule exclusive_drop[where t = t, OF fail(2)]) simp
next
  case (finish s t k l answer)
  show ?case by (rule exclusive_drop[where t = t, OF finish(2)]) simp
next
  case (drop_waiter s t p)
  show ?case by (rule exclusive_drop[where t = t, OF drop_waiter(3)]) simp
next
  case (drop_holder s t p l k)
  show ?case by (rule exclusive_drop[where t = t, OF drop_holder(4)]) simp
qed (simp_all add: sf_exclusive_def)

text \<open>An entry of the map is in use.\<close>

definition sf_live :: "singleflight \<Rightarrow> bool" where
  "sf_live s \<longleftrightarrow> (\<forall>k l. sf_inflight s k = Some l \<longrightarrow> (\<exists>p \<in> ran (sf_tasks s). uses p = Some (k, l)))"

lemma step_live:
  assumes "sf_step e s s'" "e \<noteq> Abandon" "sf_live s"
  shows "sf_live s'"
  unfolding sf_live_def
proof (intro allI impI)
  fix k l
  assume map': "sf_inflight s' k = Some l"
  have old: "\<exists>u q. sf_tasks s u = Some q \<and> uses q = Some (k, l)" if "sf_inflight s k = Some l"
    using assms(3) that by (fastforce simp: sf_live_def ran_def)
  have keep: "\<exists>p \<in> ran (sf_tasks s'). uses p = Some (k, l)"
    if "sf_inflight s k = Some l" "sf_tasks s' = (sf_tasks s)(t := x)"
      "\<And>q. sf_tasks s t = Some q \<Longrightarrow> uses q = Some (k, l) \<Longrightarrow> \<exists>p. x = Some p \<and> uses p = Some (k, l)" for t x
  proof -
    from old[OF that(1)] obtain u q where q: "sf_tasks s u = Some q" "uses q = Some (k, l)" by blast
    then show ?thesis
      using that(2) that(3)[of q] by (cases "u = t") (auto simp: ran_def split: option.splits)
  qed
  from assms(1) show "\<exists>p \<in> ran (sf_tasks s'). uses p = Some (k, l)"
  proof (cases rule: sf_step.cases)
    case (enter t k1 l1 s1)
    have tasks: "sf_tasks s1 = sf_tasks s" using enter(4) by (cases rule: sf_entry_cases) simp_all
    show ?thesis
    proof (cases "k1 = k \<and> l1 = l")
      case True
      then show ?thesis using enter(2) by (auto simp: ran_def)
    next
      case False
      from enter(4) map' False have "sf_inflight s k = Some l"
        by (cases rule: sf_entry_cases) (auto simp: enter(2) split: if_splits)
      then show ?thesis using enter(2,3) tasks by (intro keep[of t "Some (Waiting k1 l1)"]) simp_all
    qed
  next
    case (recheck t k1 l1)
    show ?thesis
    proof (cases "k1 \<in> sf_answered s")
      case True
      with map' recheck show ?thesis by (intro keep[of t None]) (auto split: if_splits)
    next
      case False
      with map' recheck show ?thesis by (intro keep[of t "Some (Racing k1 l1)"]) auto
    qed
  next
    case (arrive t k1)
    with map' show ?thesis by (intro keep[of t "Some (Entering k1)"]) auto
  next
    case (acquire t k1 l1)
    with map' show ?thesis by (intro keep[of t "Some (Holding k1 l1)"]) auto
  next
    case (fail t k1 l1)
    with map' show ?thesis by (intro keep[of t None]) (auto split: if_splits)
  next
    case (finish t k1 l1 answer)
    with map' show ?thesis by (intro keep[of t None]) (auto split: if_splits)
  next
    case (drop_holder t p l1 k1)
    with map' show ?thesis by (intro keep[of t None]) (auto split: if_splits)
  next
    case (drop_waiter t p)
    obtain u q where u: "sf_tasks s u = Some q" "uses q = Some (k, l)" using old map' drop_waiter(2) by auto
    have "\<exists>v r. v \<noteq> t \<and> sf_tasks s v = Some r \<and> uses r = Some (k, l)"
    proof (cases "u = t")
      case True
      have "\<not> abandons (sf_inflight s) (sf_tasks s) t" using assms(2) drop_waiter(1) by (auto split: if_splits)
      with True u map' drop_waiter(2) show ?thesis by (fastforce simp: abandons_def)
    qed (use u in blast)
    then show ?thesis by (fastforce simp: drop_waiter(2) ran_def)
  next
    case (expire A)
    with map' old show ?thesis by (force simp: ran_def)
  next
    case (learn A)
    with map' old show ?thesis by (force simp: ran_def)
  qed
qed

text \<open>
  A hash without a remembered answer: the map knows the mutex of every task that is past it. Mutexes
  are not reused.
\<close>

definition sf_known :: "singleflight \<Rightarrow> bool" where
  "sf_known s \<longleftrightarrow> (\<forall>t p k l. sf_tasks s t = Some p \<longrightarrow> uses p = Some (k, l) \<longrightarrow>
     k \<in> sf_answered s \<or> sf_inflight s k = Some l)"

definition calm_events :: "event set" where
  "calm_events = {Arrive, Enter, Acquire, Recheck, Finish True, Learn}"

lemma step_known:
  assumes "sf_step e s s'" "e \<in> calm_events" "sf_known s" "sf_exclusive s"
  shows "sf_known s'"
  unfolding sf_known_def
proof (intro allI impI)
  fix u q k l
  assume q: "sf_tasks s' u = Some q" "uses q = Some (k, l)"
  have old: "k \<in> sf_answered s \<or> sf_inflight s k = Some l" if "sf_tasks s v = Some r" "uses r = Some (k, l)" for v r
    using assms(3) that unfolding sf_known_def by blast
  from assms(1) show "k \<in> sf_answered s' \<or> sf_inflight s' k = Some l"
  proof (cases rule: sf_step.cases)
    case (enter t k1 l1 s1)
    from enter(4) show ?thesis
      by (cases rule: sf_entry_cases) (use q old enter in \<open>auto split: if_splits\<close>)
  next
    case (recheck t k1 l1)
    then show ?thesis using q old[of u q] old[of t "Holding k1 l1"] by (auto split: if_splits)
  next
    case (arrive t k1)
    then show ?thesis using q old[of u q] by (auto split: if_splits)
  next
    case (acquire t k1 l1)
    then show ?thesis using q old[of u q] old[of t "Waiting k1 l1"] by (auto split: if_splits)
  next
    case (finish t k1 l1 answer)
    then show ?thesis using q old[of u q] assms(2) by (auto simp: calm_events_def split: if_splits)
  next
    case (learn A)
    then show ?thesis using q old[of u q] by auto
  qed (use assms(2) in \<open>auto simp: calm_events_def split: if_splits\<close>)
qed

text \<open>Who races owns the entry of the map.\<close>

definition sf_race_entered :: "singleflight \<Rightarrow> bool" where
  "sf_race_entered s \<longleftrightarrow> (\<forall>t k l. sf_tasks s t = Some (Racing k l) \<longrightarrow> sf_inflight s k = Some l)"

lemma entered_racing:
  assumes "sf_exclusive s" "sf_race_entered s"
    and "sf_tasks s t = Some (Racing k l)" "sf_tasks s t' = Some (Racing k l')"
  shows "t = t'"
proof -
  from assms(2-4) have "l = l'" unfolding sf_race_entered_def by (metis option.inject)
  with assms(1,3,4) show ?thesis unfolding sf_exclusive_def by (metis holds.simps(2))
qed

lemma step_race_entered:
  assumes "sf_step e s s'" "e \<in> calm_events" "sf_known s" "sf_exclusive s" "sf_race_entered s"
  shows "sf_race_entered s'"
  unfolding sf_race_entered_def
proof (intro allI impI)
  fix u k l
  assume u: "sf_tasks s' u = Some (Racing k l)"
  have old: "sf_inflight s k' = Some l'" if "sf_tasks s v = Some (Racing k' l')" for v k' l'
    using assms(5) that unfolding sf_race_entered_def by blast
  have drop: "sf_inflight (inflight_guard_drop k1 l1 s) k = Some l"
    if "sf_tasks s v = Some p" "holds p = Some l1" "u \<noteq> v" "sf_tasks s u = Some (Racing k l)" for v p k1 l1
    using old[OF that(4)] that assms(4) unfolding sf_exclusive_def by fastforce
  from assms(1) show "sf_inflight s' k = Some l"
  proof (cases rule: sf_step.cases)
    case (enter t k1 l1 s1)
    from enter(4) show ?thesis
      by (cases rule: sf_entry_cases) (use u old enter in \<open>auto split: if_splits\<close>)
  next
    case (recheck t k1 l1)
    have "k1 \<in> sf_answered s \<or> sf_inflight s k1 = Some l1"
      using assms(3) recheck(3) unfolding sf_known_def by (metis uses.simps(3))
    with recheck u old drop[of t "Holding k1 l1" l1 k1] show ?thesis by (auto simp del: sf_simps(8) split: if_splits)
  next
    case (arrive t k1)
    then show ?thesis using u old by (auto split: if_splits)
  next
    case (acquire t k1 l1)
    then show ?thesis using u old by (auto split: if_splits)
  next
    case (finish t k1 l1 answer)
    then show ?thesis using u drop[of t "Racing k1 l1" l1 k1]
      by (auto simp: inflight_guard_drop_def split: if_splits)
  next
    case (learn A)
    then show ?thesis using u old by simp
  qed (use assms(2) in \<open>auto simp: calm_events_def split: if_splits\<close>)
qed

lemma calm_reach:
  "sf_reach calm_events s \<Longrightarrow> sf_exclusive s \<and> sf_known s \<and> sf_race_entered s"
proof (induction rule: sf_reach.induct)
  case sf_start
  show ?case by (simp add: sf_init_def sf_exclusive_def sf_known_def sf_race_entered_def)
next
  case (sf_next_step s e s')
  then show ?case using step_exclusive step_known step_race_entered by blast
qed

section \<open>Properties\<close>

text \<open>
  Single flight: while every race ends with an answer that the caches remember, no answer expires, no
  second look fails and no request is dropped, two client lookups never race for one hash at the same
  time, however the lookups interleave, and the one that races owns the entry of the map.
\<close>

lemma single_flight_exclusive:
  assumes "sf_reach calm_events s"
    and "sf_tasks s t = Some (Racing k l)" "sf_tasks s t' = Some (Racing k l')"
  shows "t = t' \<and> sf_inflight s k = Some l"
  using calm_reach[OF assms(1)] entered_racing assms(2,3) unfolding sf_race_entered_def by blast

text \<open>Runs over states without remembered answers.\<close>

definition sf_state :: "(nat \<rightharpoonup> phase) \<Rightarrow> (string \<rightharpoonup> nat) \<Rightarrow> nat \<Rightarrow> singleflight" where
  "sf_state T m n = \<lparr>sf_inflight = m, sf_next = n, sf_tasks = T, sf_answered = {}\<rparr>"

lemma sf_state_start: "sf_reach E (sf_state Map.empty Map.empty 0)"
  using sf_reach.sf_start by (simp add: sf_state_def sf_init_def)

lemma sf_state_arrive:
  "sf_reach E (sf_state T m n) \<Longrightarrow> Arrive \<in> E \<Longrightarrow> T t = None \<Longrightarrow> sf_reach E (sf_state (T(t \<mapsto> Entering k)) m n)"
  using sf_step.arrive[of "sf_state T m n" t k] sf_reach.sf_next_step[of E _ Arrive]
  by (simp add: sf_state_def set_task_def)

lemma sf_state_enter:
  assumes "sf_reach E (sf_state T m n)" "Enter \<in> E" "T t = Some (Entering k)"
  shows "sf_reach E (case m k of Some l \<Rightarrow> sf_state (T(t \<mapsto> Waiting k l)) m n
    | None \<Rightarrow> sf_state (T(t \<mapsto> Waiting k n)) (m(k \<mapsto> n)) (n + 1))"
  using assms sf_step.enter[of "sf_state T m n" t k] sf_reach.sf_next_step[of E _ Enter]
  by (cases "m k") (simp_all add: sf_state_def set_task_def sf_entry_def)

lemma sf_state_race:
  assumes "sf_reach E (sf_state T m n)" "{Acquire, Recheck} \<subseteq> E" "T t = Some (Waiting k l)"
    and "\<forall>p \<in> ran T. holds p \<noteq> Some l"
  shows "sf_reach E (sf_state (T(t \<mapsto> Racing k l)) m n)"
proof -
  have "sf_reach E (sf_state (T(t \<mapsto> Holding k l)) m n)"
    using assms sf_step.acquire[of "sf_state T m n" t k l] sf_reach.sf_next_step[of E _ Acquire]
    by (simp add: sf_state_def set_task_def)
  then show ?thesis
    using assms(2) sf_step.recheck[of "sf_state (T(t \<mapsto> Holding k l)) m n" t k l] sf_reach.sf_next_step[of E _ Recheck]
    by (simp add: sf_state_def set_task_def)
qed

lemma sf_state_fail:
  "sf_reach E (sf_state T m n) \<Longrightarrow> Finish False \<in> E \<Longrightarrow> T t = Some (Racing k l) \<Longrightarrow> m k = Some l \<Longrightarrow>
     sf_reach E (sf_state (T(t := None)) (m(k := None)) n)"
  using sf_step.finish[of "sf_state T m n" t k l False] sf_reach.sf_next_step[of E _ "Finish False"]
  by (simp add: sf_state_def set_task_def inflight_guard_drop_def)

lemma sf_one_racing:
  assumes "{Arrive, Enter, Acquire, Recheck} \<subseteq> E"
  shows "sf_reach E (sf_state [1 \<mapsto> Waiting ''h'' 0] [''h'' \<mapsto> 0] 1)"
    and "sf_reach E (sf_state [1 \<mapsto> Racing ''h'' 0] [''h'' \<mapsto> 0] 1)"
proof -
  have "sf_reach E (sf_state [1 \<mapsto> Entering ''h''] Map.empty 0)"
    using sf_state_arrive[OF sf_state_start] assms by simp
  from sf_state_enter[OF this, of 1 "''h''"] assms
  show 1: "sf_reach E (sf_state [1 \<mapsto> Waiting ''h'' 0] [''h'' \<mapsto> 0] 1)" by simp
  from sf_state_race[OF 1, of 1 "''h''" 0] assms show "sf_reach E (sf_state [1 \<mapsto> Racing ''h'' 0] [''h'' \<mapsto> 0] 1)"
    by simp
qed

text \<open>
  C38: The map of mutexes leaks by one kind of departure only: in every run in which no request goes away
  that queues on a mutex no other lookup uses, every entry of the map belongs to a lookup in flight,
  whatever races fail, answers expire, and other waiting or racing requests are dropped; with no lookup
  in flight the map is then empty.
\<close>

theorem inflight_map_empties:
  assumes "sf_reach (- {Abandon}) s"
  shows "dom (sf_inflight s) \<subseteq> {k. \<exists>p l. p \<in> ran (sf_tasks s) \<and> uses p = Some (k, l)}"
proof -
  from assms have "sf_live s"
  proof (induction rule: sf_reach.induct)
    case sf_start
    show ?case by (simp add: sf_init_def sf_live_def)
  next
    case (sf_next_step s e s')
    then show ?case using step_live by simp
  qed
  then show ?thesis by (fastforce simp: sf_live_def)
qed

theorem inflight_map_empties_witness:
  "dom (sf_inflight (sf_state [1 \<mapsto> Racing ''h'' 0] [''h'' \<mapsto> 0] 1)) \<subseteq> {''h''}"
proof -
  have "sf_reach (- {Abandon}) (sf_state [1 \<mapsto> Racing ''h'' 0] [''h'' \<mapsto> 0] 1)" by (rule sf_one_racing) auto
  from inflight_map_empties[OF this] show ?thesis by (simp add: sf_state_def)
qed


text \<open>
  Single flight is not exclusive when a race fails: the lookup that ends removes the mutex from the
  map while others still queue on it, so the next arrival gets a new mutex and both race for the same
  hash at the same time.
\<close>

theorem single_flight_split:
  "\<exists>s. sf_reach {Arrive, Enter, Acquire, Recheck, Finish False} s \<and>
     sf_tasks s 2 = Some (Racing ''h'' 0) \<and> sf_tasks s 3 = Some (Racing ''h'' 1)"
proof -
  let ?E = "{Arrive, Enter, Acquire, Recheck, Finish False}"
  have "sf_reach ?E (sf_state [1 \<mapsto> Racing ''h'' 0] [''h'' \<mapsto> 0] 1)" by (rule sf_one_racing) simp
  from sf_state_arrive[OF this, of 2 "''h''"]
  have "sf_reach ?E (sf_state [1 \<mapsto> Racing ''h'' 0, 2 \<mapsto> Entering ''h''] [''h'' \<mapsto> 0] 1)" by simp
  from sf_state_enter[OF this, of 2 "''h''"]
  have "sf_reach ?E (sf_state [1 \<mapsto> Racing ''h'' 0, 2 \<mapsto> Waiting ''h'' 0] [''h'' \<mapsto> 0] 1)" by simp
  from sf_state_fail[OF this, of 1 "''h''" 0]
  have "sf_reach ?E (sf_state [2 \<mapsto> Waiting ''h'' 0] Map.empty 1)" by (simp add: fun_upd_twist)
  from sf_state_race[OF this, of 2 "''h''" 0]
  have "sf_reach ?E (sf_state [2 \<mapsto> Racing ''h'' 0] Map.empty 1)" by simp
  from sf_state_arrive[OF this, of 3 "''h''"]
  have "sf_reach ?E (sf_state [2 \<mapsto> Racing ''h'' 0, 3 \<mapsto> Entering ''h''] Map.empty 1)" by simp
  from sf_state_enter[OF this, of 3 "''h''"]
  have "sf_reach ?E (sf_state [2 \<mapsto> Racing ''h'' 0, 3 \<mapsto> Waiting ''h'' 1] [''h'' \<mapsto> 1] 2)"
    by (simp add: numeral_2_eq_2)
  moreover have "\<forall>p \<in> ran [2 :: nat \<mapsto> Racing ''h'' 0, 3 \<mapsto> Waiting ''h'' 1]. holds p \<noteq> Some 1"
    by (auto simp: ran_def split: if_splits)
  ultimately have "sf_reach ?E (sf_state [2 \<mapsto> Racing ''h'' 0, 3 \<mapsto> Racing ''h'' 1] [''h'' \<mapsto> 1] 2)"
    using sf_state_race[of ?E _ _ _ 3 "''h''" 1] by fastforce
  then show ?thesis by (intro exI conjI) (assumption, simp_all add: sf_state_def)
qed

text \<open>No lookup gets stuck: one of those in flight can always move on.\<close>

lemma no_deadlock:
  assumes "sf_tasks s t = Some p"
  shows "\<exists>e \<in> calm_events. \<exists>s'. sf_step e s s'"
proof -
  have holder: "\<exists>e \<in> calm_events. \<exists>s'. sf_step e s s'" if "sf_tasks s u = Some q" "holds q = Some l" for u q l
    using that sf_step.recheck[of s u _ l] sf_step.finish[of s u _ l True]
    by (cases q) (auto simp: calm_events_def)
  show ?thesis
  proof (cases p)
    case (Entering k)
    obtain l s1 where "sf_entry k s = (l, s1)" by fastforce
    from sf_step.enter[OF _ this] assms Entering show ?thesis by (auto simp: calm_events_def)
  next
    case (Waiting k l)
    show ?thesis
    proof (cases "\<exists>q \<in> ran (sf_tasks s). holds q = Some l")
      case True
      then show ?thesis using holder by (auto simp: ran_def)
    next
      case False
      with sf_step.acquire[of s t k l] assms Waiting show ?thesis by (auto simp: calm_events_def)
    qed
  qed (use holder[OF assms] in simp_all)
qed

text \<open>A queueing request that goes away while no other lookup uses its mutex leaves its entry behind.\<close>

lemma dropped_waiter_leaks: "\<exists>s. sf_reach UNIV s \<and> sf_tasks s = Map.empty \<and> sf_inflight s = [''h'' \<mapsto> 0]"
proof -
  have "sf_reach UNIV (sf_state [1 \<mapsto> Waiting ''h'' 0] [''h'' \<mapsto> 0] 1)" by (rule sf_one_racing) simp
  then have "sf_reach UNIV (sf_state Map.empty [''h'' \<mapsto> 0] 1)"
    using sf_step.drop_waiter[of "sf_state [1 \<mapsto> Waiting ''h'' 0] [''h'' \<mapsto> 0] 1" 1 "Waiting ''h'' 0"]
      sf_reach.sf_next_step[of UNIV, OF _ UNIV_I]
    by (simp add: sf_state_def set_task_def)
  then show ?thesis by (intro exI conjI) (assumption, simp_all add: sf_state_def)
qed

end
