(* ===== verification/Flight.thy ===== *)
theory Flight
  imports Served Singleflight
begin

text \<open>
  \<open>Router::resolve\<close> run by many tasks at once: each client lookup is cut at the points where it
  waits, and the pieces of all lookups interleave over one router and one map of mutexes. The run
  refines the single-flight protocol, where a hash counts as answered when the router's caches answer
  it under every environment of a window \<open>W\<close>.
\<close>

section \<open>State and pieces\<close>

record flight =
  fl_router :: router
  fl_inflight :: "string \<rightharpoonup> nat"
  fl_next :: nat
  fl_tasks :: "nat \<rightharpoonup> phase \<times> string list"
  fl_answers :: "(string \<times> (router_error, resolve_result) result) list"

definition flight_init :: "router \<Rightarrow> flight" where
  "flight_init r = \<lparr>fl_router = r, fl_inflight = Map.empty, fl_next = 0, fl_tasks = Map.empty, fl_answers = []\<rparr>"

definition move_task :: "nat \<Rightarrow> (phase \<times> string list) option \<Rightarrow> flight \<Rightarrow> flight" where
  "move_task t p s = s\<lparr>fl_tasks := (fl_tasks s)(t := p)\<rparr>"

definition reply :: "string \<Rightarrow> (router_error, resolve_result) result \<Rightarrow> flight \<Rightarrow> flight" where
  "reply h res s = s\<lparr>fl_answers := fl_answers s @ [(h, res)]\<rparr>"

text \<open>A look into the caches: an answer to give, or none.\<close>

definition look_answer ::
  "(router_error, resolve_result option) result \<Rightarrow> (router_error, resolve_result) result option" where
  "look_answer res = (case res of Err e \<Rightarrow> Some (Err e) | Ok None \<Rightarrow> None | Ok (Some rr) \<Rightarrow> Some (Ok rr))"

definition first_look :: "crypto \<Rightarrow> jiff \<Rightarrow> env \<Rightarrow> nat \<Rightarrow> string \<Rightarrow> string list \<Rightarrow> flight \<Rightarrow> flight" where
  "first_look C J ev t h cands s =
     (let (res, r) = resolve_cached C J ev (fl_router s) h Client; s1 = s\<lparr>fl_router := r\<rparr> in
      case look_answer res of
        Some ans \<Rightarrow> reply h ans s1
      | None \<Rightarrow> move_task t (Some (Entering h, cands))
          (s1\<lparr>fl_router := metrics_add [NarinfoCacheMisses] r\<rparr>))"

definition enter_map :: "nat \<Rightarrow> string \<Rightarrow> string list \<Rightarrow> flight \<Rightarrow> flight" where
  "enter_map t h cands s =
     (case fl_inflight s h of
        Some l \<Rightarrow> move_task t (Some (Waiting h l, cands))
          (s\<lparr>fl_router := metrics_add [NarinfoSingleflightWaiters] (fl_router s)\<rparr>)
      | None \<Rightarrow> move_task t (Some (Waiting h (fl_next s), cands))
          (s\<lparr>fl_inflight := (fl_inflight s)(h \<mapsto> fl_next s), fl_next := fl_next s + 1\<rparr>))"

definition drop_guard :: "string \<Rightarrow> nat \<Rightarrow> flight \<Rightarrow> flight" where
  "drop_guard h l s =
     (if fl_inflight s h = Some l then s\<lparr>fl_inflight := (fl_inflight s)(h := None)\<rparr> else s)"

definition second_look :: "crypto \<Rightarrow> jiff \<Rightarrow> env \<Rightarrow> nat \<Rightarrow> string \<Rightarrow> nat \<Rightarrow> string list \<Rightarrow> flight \<Rightarrow> flight" where
  "second_look C J ev t h l cands s =
     (let (res, r) = resolve_cached C J ev (fl_router s) h Client; s1 = s\<lparr>fl_router := r\<rparr> in
      case look_answer res of
        Some ans \<Rightarrow> move_task t None (drop_guard h l (reply h ans s1))
      | None \<Rightarrow> move_task t (Some (Racing h l, cands)) s1)"

definition run_race :: "crypto \<Rightarrow> jiff \<Rightarrow> env \<Rightarrow> nat \<Rightarrow> string \<Rightarrow> nat \<Rightarrow> string list \<Rightarrow> flight \<Rightarrow> flight" where
  "run_race C J ev t h l cands s =
     (let (res, r) = race C J ev (fl_router s) h cands Client;
          r1 = (if res = Err NotFound then remember_miss J ev r h else r)
      in move_task t None (drop_guard h l (reply h res (s\<lparr>fl_router := r1\<rparr>))))"

section \<open>Interleaving\<close>

text \<open>The hashes that the caches answer, whenever in the window one looks.\<close>

definition answered :: "crypto \<Rightarrow> jiff \<Rightarrow> env set \<Rightarrow> router \<Rightarrow> string set" where
  "answered C J W r = {h. \<forall>ev \<in> W. fst (resolve_cached C J ev r h Client) \<noteq> Ok None}"

text \<open>
  One piece of one task, or what the rest of the program does to the router meanwhile, with the narinfos
  \<open>A\<close> merged from the mesh. A step is named by the event of the protocol it amounts to.
\<close>

inductive flight_step :: "crypto \<Rightarrow> jiff \<Rightarrow> (string \<times> bytes) set \<Rightarrow> env set \<Rightarrow> event \<Rightarrow> flight \<Rightarrow> flight \<Rightarrow> bool" for C J A W where
  look_miss: "ev \<in> W \<Longrightarrow> fl_tasks s t = None \<Longrightarrow> fst (resolve_cached C J ev (fl_router s) h Client) = Ok None \<Longrightarrow>
    flight_step C J A W Arrive s (first_look C J ev t h cands s)"
| look_hit: "ev \<in> W \<Longrightarrow> fl_tasks s t = None \<Longrightarrow> fst (resolve_cached C J ev (fl_router s) h Client) \<noteq> Ok None \<Longrightarrow>
    flight_step C J A W Learn s (first_look C J ev t h cands s)"
| enter: "fl_tasks s t = Some (Entering h, cands) \<Longrightarrow> flight_step C J A W Enter s (enter_map t h cands s)"
| acquire: "fl_tasks s t = Some (Waiting h l, cands) \<Longrightarrow> \<forall>p \<in> ran (fl_tasks s). holds (fst p) \<noteq> Some l \<Longrightarrow>
    flight_step C J A W Acquire s (move_task t (Some (Holding h l, cands)) s)"
| look_again: "ev \<in> W \<Longrightarrow> fl_tasks s t = Some (Holding h l, cands) \<Longrightarrow>
    fst (resolve_cached C J ev (fl_router s) h Client) = Ok None \<or> h \<in> answered C J W (fl_router s) \<Longrightarrow>
    flight_step C J A W Recheck s (second_look C J ev t h l cands s)"
| look_fails: "fl_tasks s t = Some (Holding h l, cands) \<Longrightarrow>
    fst (resolve_cached C J ev (fl_router s) h Client) \<noteq> Ok None \<Longrightarrow>
    flight_step C J A W Fail s (second_look C J ev t h l cands s)"
| finish: "fl_tasks s t = Some (Racing h l, cands) \<Longrightarrow> s' = run_race C J ev t h l cands s \<Longrightarrow>
    flight_step C J A W (Finish (h \<in> answered C J W (fl_router s'))) s s'"
| leave_queue: "fl_tasks s t = Some (p, cands) \<Longrightarrow> holds p = None \<Longrightarrow>
    flight_step C J A W (if abandons (fl_inflight s) (map_option fst \<circ> fl_tasks s) t then Abandon else DropWaiter)
      s (move_task t None s)"
| leave_lock: "fl_tasks s t = Some (p, cands) \<Longrightarrow> uses p = Some (h, l) \<Longrightarrow> holds p = Some l \<Longrightarrow>
    flight_step C J A W DropHolder s (move_task t None (drop_guard h l s))"
| others: "serving C J A (fl_router s) r \<Longrightarrow> flight_step C J A W Learn s (s\<lparr>fl_router := r\<rparr>)"

text \<open>A run over chosen events; unless answers may expire, no step takes one away.\<close>

inductive flight_run :: "crypto \<Rightarrow> jiff \<Rightarrow> (string \<times> bytes) set \<Rightarrow> env set \<Rightarrow> event set \<Rightarrow> router \<Rightarrow> flight \<Rightarrow> bool" for C J A W E r where
  flight_start: "flight_run C J A W E r (flight_init r)"
| flight_next: "flight_run C J A W E r s \<Longrightarrow> e \<in> E \<Longrightarrow> flight_step C J A W e s s' \<Longrightarrow>
    Expire \<in> E \<or> answered C J W (fl_router s) \<subseteq> answered C J W (fl_router s') \<Longrightarrow> flight_run C J A W E r s'"

section \<open>Refinement of the protocol\<close>

definition protocol_state :: "crypto \<Rightarrow> jiff \<Rightarrow> env set \<Rightarrow> flight \<Rightarrow> singleflight" where
  "protocol_state C J W s =
     \<lparr>sf_inflight = fl_inflight s, sf_next = fl_next s, sf_tasks = map_option fst \<circ> fl_tasks s,
      sf_answered = answered C J W (fl_router s)\<rparr>"

lemma flight_simps [simp]:
  "fl_router (move_task t p s) = fl_router s" "fl_inflight (move_task t p s) = fl_inflight s"
  "fl_next (move_task t p s) = fl_next s" "fl_answers (move_task t p s) = fl_answers s"
  "fl_tasks (move_task t p s) = (fl_tasks s)(t := p)"
  "fl_router (reply h res s) = fl_router s" "fl_inflight (reply h res s) = fl_inflight s"
  "fl_next (reply h res s) = fl_next s" "fl_answers (reply h res s) = fl_answers s @ [(h, res)]"
  "fl_tasks (reply h res s) = fl_tasks s"
  "fl_router (drop_guard h l s) = fl_router s" "fl_next (drop_guard h l s) = fl_next s"
  "fl_answers (drop_guard h l s) = fl_answers s" "fl_tasks (drop_guard h l s) = fl_tasks s"
  "fl_inflight (drop_guard h l s) =
     (if fl_inflight s h = Some l then (fl_inflight s)(h := None) else fl_inflight s)"
  by (simp_all add: move_task_def reply_def drop_guard_def)

lemma tasks_update: "map_option fst \<circ> (T(t := p)) = (map_option fst \<circ> T)(t := map_option fst p)"
  by (simp add: fun_eq_iff)

lemma look_answer_None: "look_answer res = None \<longleftrightarrow> res = Ok None"
  by (auto simp: look_answer_def split: sum.split option.split)

text \<open>What the answered set does besides, the protocol does by expiry and learning.\<close>

lemma protocol_drift:
  assumes "sf_reach E s" "Learn \<in> E" "Expire \<in> E \<or> sf_answered s \<subseteq> A"
  shows "sf_reach E (s\<lparr>sf_answered := A\<rparr>)"
proof -
  have "sf_reach E (s\<lparr>sf_answered := sf_answered s \<inter> A\<rparr>)"
  proof (cases "sf_answered s \<subseteq> A")
    case True
    then have "s\<lparr>sf_answered := sf_answered s \<inter> A\<rparr> = s" by (simp add: Int_absorb2)
    with assms(1) show ?thesis by simp
  next
    case False
    have "sf_step Expire s (s\<lparr>sf_answered := sf_answered s - (- A)\<rparr>)" by (rule sf_step.expire)
    with assms(1,3) False show ?thesis by (auto simp: Diff_eq intro: sf_reach.sf_next_step)
  qed
  moreover have "sf_step Learn (s\<lparr>sf_answered := sf_answered s \<inter> A\<rparr>)
      (s\<lparr>sf_answered := sf_answered s \<inter> A\<rparr>\<lparr>sf_answered := sf_answered s \<inter> A \<union> A\<rparr>)"
    using sf_step.learn[of "s\<lparr>sf_answered := sf_answered s \<inter> A\<rparr>" A] by simp
  moreover have "sf_answered s \<inter> A \<union> A = A" by blast
  ultimately show ?thesis using assms(2) by (auto intro: sf_reach.sf_next_step)
qed

lemma protocol_state_simps [simp]:
  "sf_inflight (protocol_state C J W s) = fl_inflight s" "sf_next (protocol_state C J W s) = fl_next s"
  "sf_answered (protocol_state C J W s) = answered C J W (fl_router s)"
  "sf_tasks (protocol_state C J W s) t = map_option fst (fl_tasks s t)"
  by (simp_all add: protocol_state_def)

lemma second_look_cases:
  "second_look C J ev t h l cands s =
     (if fst (resolve_cached C J ev (fl_router s) h Client) = Ok None
      then move_task t (Some (Racing h l, cands)) (s\<lparr>fl_router := snd (resolve_cached C J ev (fl_router s) h Client)\<rparr>)
      else move_task t None (drop_guard h l
        (reply h (the (look_answer (fst (resolve_cached C J ev (fl_router s) h Client))))
          (s\<lparr>fl_router := snd (resolve_cached C J ev (fl_router s) h Client)\<rparr>))))"
  by (cases "resolve_cached C J ev (fl_router s) h Client")
    (auto simp: second_look_def Let_def look_answer_def split: sum.split option.split)

lemma first_look_cases:
  "first_look C J ev t h cands s =
     (if fst (resolve_cached C J ev (fl_router s) h Client) = Ok None
      then move_task t (Some (Entering h, cands))
        (s\<lparr>fl_router := metrics_add [NarinfoCacheMisses] (snd (resolve_cached C J ev (fl_router s) h Client))\<rparr>)
      else reply h (the (look_answer (fst (resolve_cached C J ev (fl_router s) h Client))))
        (s\<lparr>fl_router := snd (resolve_cached C J ev (fl_router s) h Client)\<rparr>))"
  by (cases "resolve_cached C J ev (fl_router s) h Client")
    (auto simp: first_look_def Let_def look_answer_def split: sum.split option.split)

lemma protocol_same:
  assumes "fl_tasks s' = (fl_tasks s)(t := p)" "fl_next s' = fl_next s" "fl_inflight s' = fl_inflight s"
  shows "protocol_state C J W s' =
    set_task t (map_option fst p) (protocol_state C J W s)\<lparr>sf_answered := answered C J W (fl_router s')\<rparr>"
  by (simp add: protocol_state_def set_task_def assms tasks_update)

lemma protocol_dropped:
  assumes "fl_tasks s' = (fl_tasks s)(t := None)" "fl_next s' = fl_next s" "fl_inflight s' = fl_inflight (drop_guard h l s)"
  shows "protocol_state C J W s' =
    set_task t None (inflight_guard_drop h l (protocol_state C J W s))\<lparr>sf_answered := answered C J W (fl_router s')\<rparr>"
  by (simp add: protocol_state_def set_task_def inflight_guard_drop_def assms tasks_update drop_guard_def)

lemma protocol_step:
  assumes "flight_step C J A W e s s'"
  shows "\<exists>p. sf_step e (protocol_state C J W s) p \<and>
    protocol_state C J W s' = p\<lparr>sf_answered := answered C J W (fl_router s')\<rparr> \<and>
    sf_answered p \<subseteq> answered C J W (fl_router s) \<union> answered C J W (fl_router s')"
  using assms
proof (cases rule: flight_step.cases)
  case (look_miss ev t h cands)
  then have "h \<notin> answered C J W (fl_router s)" by (auto simp: answered_def)
  with look_miss show ?thesis
    by (intro exI[of _ "set_task t (Some (Entering h)) (protocol_state C J W s)"] conjI)
      (auto simp: first_look_cases intro!: sf_step.arrive protocol_same[THEN trans])
next
  case (look_hit ev t h cands)
  have "sf_step Learn (protocol_state C J W s)
      (protocol_state C J W s\<lparr>sf_answered := answered C J W (fl_router s) \<union> {}\<rparr>)"
    using sf_step.learn[of "protocol_state C J W s" "{}"] by simp
  with look_hit show ?thesis
    by (intro exI[of _ "protocol_state C J W s\<lparr>sf_answered := answered C J W (fl_router s) \<union> {}\<rparr>"])
      (auto simp: first_look_cases protocol_state_def)
next
  case (enter t h cands)
  obtain l q where q: "sf_entry h (protocol_state C J W s) = (l, q)" by fastforce
  have "sf_step Enter (protocol_state C J W s) (set_task t (Some (Waiting h l)) q)"
    by (rule sf_step.enter[OF _ q]) (simp add: enter)
  moreover have "protocol_state C J W s' =
      set_task t (Some (Waiting h l)) q\<lparr>sf_answered := answered C J W (fl_router s')\<rparr>"
    using q enter by (auto simp: enter_map_def sf_entry_def protocol_state_def set_task_def tasks_update split: option.splits)
  moreover have "sf_answered q = answered C J W (fl_router s)"
    using q by (auto simp: sf_entry_def split: option.splits)
  ultimately show ?thesis using enter(1) by (intro exI[of _ "set_task t (Some (Waiting h l)) q"]) simp
next
  case (acquire t h l cands)
  then have "sf_step Acquire (protocol_state C J W s) (set_task t (Some (Holding h l)) (protocol_state C J W s))"
    by (intro sf_step.acquire) (auto simp: ran_def)
  with acquire show ?thesis
    by (intro exI[of _ "set_task t (Some (Holding h l)) (protocol_state C J W s)"]) (auto intro!: protocol_same[THEN trans])
next
  case (look_again ev t h l cands)
  show ?thesis
  proof (cases "fst (resolve_cached C J ev (fl_router s) h Client) = Ok None")
    case True
    with look_again have "h \<notin> answered C J W (fl_router s)" by (auto simp: answered_def)
    then have "sf_step Recheck (protocol_state C J W s) (set_task t (Some (Racing h l)) (protocol_state C J W s))"
      using sf_step.recheck[of "protocol_state C J W s" t h l] look_again by simp
    with look_again True show ?thesis
      by (intro exI[of _ "set_task t (Some (Racing h l)) (protocol_state C J W s)"])
        (auto simp: second_look_cases intro!: protocol_same[THEN trans])
  next
    case False
    with look_again have "sf_step Recheck (protocol_state C J W s)
        (set_task t None (inflight_guard_drop h l (protocol_state C J W s)))"
      using sf_step.recheck[of "protocol_state C J W s" t h l] by simp
    with look_again False show ?thesis
      by (intro exI[of _ "set_task t None (inflight_guard_drop h l (protocol_state C J W s))"])
        (auto simp: second_look_cases intro!: protocol_dropped[THEN trans])
  qed
next
  case (look_fails t h l cands ev)
  then have "sf_step Fail (protocol_state C J W s) (set_task t None (inflight_guard_drop h l (protocol_state C J W s)))"
    by (intro sf_step.fail) simp
  with look_fails show ?thesis
    by (intro exI[of _ "set_task t None (inflight_guard_drop h l (protocol_state C J W s))"])
      (auto simp: second_look_cases intro!: protocol_dropped[THEN trans])
next
  case (finish t h l cands ev)
  let ?b = "h \<in> answered C J W (fl_router s')"
  let ?p = "set_task t None (inflight_guard_drop h l (if ?b
      then protocol_state C J W s\<lparr>sf_answered := insert h (sf_answered (protocol_state C J W s))\<rparr> else protocol_state C J W s))"
  have "sf_step (Finish ?b) (protocol_state C J W s) ?p" by (rule sf_step.finish) (simp add: finish)
  moreover have "protocol_state C J W s' = ?p\<lparr>sf_answered := answered C J W (fl_router s')\<rparr>"
  proof -
    have "fl_tasks s' = (fl_tasks s)(t := None)" "fl_next s' = fl_next s" "fl_inflight s' = fl_inflight (drop_guard h l s)"
      using finish by (auto simp: run_race_def Let_def split: prod.split)
    then show ?thesis using protocol_dropped[of s' s t h l C J W] by (simp add: set_task_def inflight_guard_drop_def)
  qed
  moreover have "sf_answered ?p \<subseteq> answered C J W (fl_router s) \<union> answered C J W (fl_router s')" by auto
  ultimately show ?thesis using finish by auto
next
  case (leave_queue t p cands)
  then have "sf_step e (protocol_state C J W s) (set_task t None (protocol_state C J W s))"
    using sf_step.drop_waiter[of "protocol_state C J W s" t p] by (simp add: protocol_state_def)
  with leave_queue show ?thesis
    by (intro exI[of _ "set_task t None (protocol_state C J W s)"]) (auto intro!: protocol_same[THEN trans])
next
  case (leave_lock t p cands h l)
  then have "sf_step DropHolder (protocol_state C J W s) (set_task t None (inflight_guard_drop h l (protocol_state C J W s)))"
    by (intro sf_step.drop_holder[where p = p]) auto
  with leave_lock show ?thesis
    by (intro exI[of _ "set_task t None (inflight_guard_drop h l (protocol_state C J W s))"])
      (auto intro!: protocol_dropped[THEN trans])
next
  case (others r)
  have "sf_step Learn (protocol_state C J W s)
      (protocol_state C J W s\<lparr>sf_answered := answered C J W (fl_router s) \<union> {}\<rparr>)"
    using sf_step.learn[of "protocol_state C J W s" "{}"] by simp
  with others show ?thesis
    by (intro exI[of _ "protocol_state C J W s\<lparr>sf_answered := answered C J W (fl_router s) \<union> {}\<rparr>"])
      (auto simp: protocol_state_def)
qed

text \<open>Every run of the program's pieces is, seen through \<open>protocol_state\<close>, a run of the protocol.\<close>

lemma flight_protocol:
  assumes "flight_run C J A W E r s" "Learn \<in> E"
  shows "sf_reach E (protocol_state C J W s)"
  using assms(1)
proof (induction rule: flight_run.induct)
  case flight_start
  have "protocol_state C J W (flight_init r) = sf_init\<lparr>sf_answered := answered C J W r\<rparr>"
    by (simp add: protocol_state_def flight_init_def sf_init_def fun_eq_iff)
  then show ?case using protocol_drift[OF sf_reach.sf_start[of E] assms(2), of "answered C J W r"]
    by (simp add: sf_init_def)
next
  case (flight_next s e s')
  obtain p where p: "sf_step e (protocol_state C J W s) p"
    "protocol_state C J W s' = p\<lparr>sf_answered := answered C J W (fl_router s')\<rparr>"
    "sf_answered p \<subseteq> answered C J W (fl_router s) \<union> answered C J W (fl_router s')"
    using protocol_step[OF flight_next.hyps(3)] by blast
  have "sf_reach E p" by (rule sf_reach.sf_next_step[OF flight_next.IH flight_next.hyps(2) p(1)])
  moreover have "Expire \<in> E \<or> sf_answered p \<subseteq> answered C J W (fl_router s')"
    using p(3) flight_next.hyps(4) by blast
  ultimately show ?case using protocol_drift assms(2) by (simp add: p(2))
qed

section \<open>What a race leaves in the caches\<close>

lemma commit_lru:
  "commit_winner C J ev r w h hp = (res, r') \<Longrightarrow> rt_lru r' =
     (case res of Ok (Accepted rr) \<Rightarrow> cache_insert (e_now ev) h rr (rt_lru r) | _ \<Rightarrow> rt_lru r)"
  unfolding commit_winner_def Let_def
  by (auto simp: metrics_add_def db_set_route_def split: prod.splits sum.splits if_splits)

lemma cooldown_lru: "rt_lru (mark_cooldown now r u) = rt_lru r"
  by (simp add: mark_cooldown_def)

lemma race_while_lru:
  "rt_lru (outcome_router (race_while C J ev h hp grp st)) =
     (case race_while C J ev h hp grp st of
        RaceDone (Ok rr) r' \<Rightarrow> cache_insert (e_now ev) h rr (rt_lru (rs_router st))
      | _ \<Rightarrow> rt_lru (rs_router st))"
proof (induction C J ev h hp grp st rule: race_while.induct)
  case (1 C J ev h hp grp st)
  note unfold = race_while.simps[of C J ev h hp grp st]
  show ?case
  proof (cases "grp = []")
    case True
    then show ?thesis by (simp add: race_while.simps[of C J ev h hp "[]" st])
  next
    case False
    obtain gres n r where g: "race_group ev (rs_router st) h grp hp = (gres, n, r)" by (metis prod_cases3)
    have r: "rt_lru r = rt_lru (rs_router st)" using same_tables_race_group[OF g] by (simp add: same_tables_def)
    show ?thesis
    proof (cases gres)
      case (Inl e)
      with False g r show ?thesis by (simp add: unfold)
    next
      case (Inr w)
      obtain u ms where w: "w = (u, ms)" by (cases w)
      note g = g[unfolded Inr w]
      obtain cres r1 where c: "commit_winner C J ev r (u, ms) h hp = (cres, r1)" by fastforce
      note r1 = commit_lru[OF c, unfolded r]
      note IH = "1.IH"[OF False g[symmetric] refl refl refl refl refl c[symmetric]]
      show ?thesis
      proof (cases cres)
        case (Inl err)
        with False g c r1 IH(1,2)[OF Inl] show ?thesis
          by (cases "commit_error_is_retryable err"; cases "commit_error_is_network_like err")
            (auto simp: unfold Let_def cooldown_lru split: race_outcome.splits sum.splits)
      next
        case (Inr co)
        with False g c r1 IH(3)[OF Inr] show ?thesis
          by (cases co) (auto simp: unfold Let_def metrics_add_def split: race_outcome.splits sum.splits)
      qed
    qed
  qed
qed

lemma race_groups_lru:
  "rt_lru (outcome_router (race_groups C J ev h hp grps st)) =
     (case race_groups C J ev h hp grps st of
        RaceDone (Ok rr) r' \<Rightarrow> cache_insert (e_now ev) h rr (rt_lru (rs_router st))
      | _ \<Rightarrow> rt_lru (rs_router st))"
proof (induction grps arbitrary: st)
  case (Cons grp grps)
  show ?case
    using race_while_lru[of C J ev h hp grp st] Cons.IH
    by (cases "race_while C J ev h hp grp st") (auto split: race_outcome.splits sum.splits)
qed simp

text \<open>A race that a candidate wins puts the answer into the memory.\<close>

lemma race_lru:
  assumes "race C J ev r h cands hp = (Ok rr, r')"
  shows "rt_lru r' = cache_insert (e_now ev) h rr (rt_lru r)"
proof -
  obtain kept r1 where k: "cooldown_filtered_candidates (e_now ev) (race_permit ev r hp) cands = (kept, r1)" by fastforce
  have "rt_lru r1 = rt_lru r"
    using same_tables_cooldown[OF k] by (simp add: same_tables_def race_permit_def metrics_add_def split: if_splits)
  moreover let ?gs = "group_by_priority r1 (if kept = [] then cands else kept)"
  have "race_groups C J ev h hp ?gs \<lparr>rs_router = r1, rs_any_not_found = False, rs_attempts = 0\<rparr> = RaceDone (Ok rr) r'"
    using assms k by (auto simp: race_def Let_def split: if_splits race_outcome.splits)
  ultimately show ?thesis
    using race_groups_lru[of C J ev h hp ?gs "\<lparr>rs_router = r1, rs_any_not_found = False, rs_attempts = 0\<rparr>"] by simp
qed

lemma answered_memory:
  assumes "\<And>ev. ev \<in> W \<Longrightarrow> fst (cache_get (e_now ev) h (rt_miss r)) \<noteq> None \<or>
      (\<exists>rr. fst (cache_get (e_now ev) h (rt_lru r)) = Some rr \<and> rt_filters r (rr_url rr) = None)"
  shows "h \<in> answered C J W r"
proof -
  have "fst (resolve_cached C J ev r h Client) \<noteq> Ok None" if ev: "ev \<in> W" for ev
  proof (cases "fst (cache_get (e_now ev) h (rt_miss r))")
    case (Some x)
    then show ?thesis by (auto simp: resolve_cached_def split: prod.split)
  next
    case None
    with assms[OF ev] obtain rr where rr: "fst (cache_get (e_now ev) h (rt_lru r)) = Some rr"
      "rt_filters r (rr_url rr) = None" by auto
    obtain m where m: "cache_get (e_now ev) h (rt_miss r) = (None, m)" using None by (metis prod.collapse)
    obtain l where l: "cache_get (e_now ev) h (rt_lru r) = (Some rr, l)" using rr(1) by (metis prod.collapse)
    show ?thesis
      using m l rr(2) by (auto simp: resolve_cached_def valid_cached_route_def memory_route_def
          cached_route_filter_check_def Let_def split: sum.splits bool.splits)
  qed
  then show ?thesis by (simp add: answered_def)
qed

text \<open>
  A race that decides, with a narinfo of an upstream without filters or with a confirmed miss, is
  remembered as long as the window lies within the lifetimes of the two memory caches.
\<close>

lemma decisive_race_answers:
  assumes "race C J ev (fl_router s) h cands Client = (res, r')"
    and "res = Err NotFound \<or> (\<exists>rr. res = Ok rr \<and> rt_filters (fl_router s) (rr_url rr) = None)"
    and "cache_inv ttl (rt_lru (fl_router s))" "cache_inv mttl (rt_miss r')"
    and "\<And>ev'. ev' \<in> W \<Longrightarrow> e_now ev' - e_now ev < ttl \<and> e_now ev' - e_now ev < mttl"
  shows "h \<in> answered C J W (fl_router (run_race C J ev t h l cands s))"
  using assms(2)
proof
  assume miss: "res = Err NotFound"
  then have "fl_router (run_race C J ev t h l cands s) = remember_miss J ev r' h"
    using assms(1) by (simp add: run_race_def)
  then show ?thesis using remember_miss_found[OF assms(4)] assms(5) by (intro answered_memory) fastforce
next
  assume "\<exists>rr. res = Ok rr \<and> rt_filters (fl_router s) (rr_url rr) = None"
  then obtain rr where rr: "res = Ok rr" "rt_filters (fl_router s) (rr_url rr) = None" by blast
  have eq: "fl_router (run_race C J ev t h l cands s) = r'" using assms(1) rr(1) by (simp add: run_race_def)
  have "rt_filters r' = rt_filters (fl_router s)"
    using race_cases[OF assms(1)] by (auto simp: same_config_def)
  then show ?thesis
    unfolding eq
    using race_lru[OF assms(1)[unfolded rr(1)]] rr(2) assms(5) lru.lookup_ins[OF assms(3), of _ h "e_now ev" rr]
    by (intro answered_memory) auto
qed

section \<open>Verified answers\<close>

definition flight_vouched :: "crypto \<Rightarrow> (string \<times> bytes) set \<Rightarrow> jiff \<Rightarrow> router \<Rightarrow> flight \<Rightarrow> bool" where
  "flight_vouched C A J r s \<longleftrightarrow> same_config r (fl_router s) \<and> vouched_store C A J (fl_router s) \<and>
     (\<forall>h rr. (h, Ok rr) \<in> set (fl_answers s) \<longrightarrow> vouched_result C A r h rr)"

lemma vouched_move:
  assumes "flight_vouched C A J r s" "kept_vouched C A J (fl_router s) (fl_router s')"
    and "\<And>h rr. (h, Ok rr) \<in> set (fl_answers s') \<Longrightarrow>
      (h, Ok rr) \<in> set (fl_answers s) \<or> vouched_result C A (fl_router s) h rr"
  shows "flight_vouched C A J r s'"
proof -
  have c: "same_config r (fl_router s)" using assms(1) by (simp add: flight_vouched_def)
  have "same_config r (fl_router s')"
    using assms(1,2) same_config_trans[OF c] by (auto simp: flight_vouched_def kept_vouched_def)
  with assms show ?thesis by (auto simp: flight_vouched_def kept_vouched_def vouched_cong[OF c])
qed

lemma kept_metrics: "kept_vouched C A J r r' \<Longrightarrow> kept_vouched C A J r (metrics_add ms r')"
  using vouching.rel_trans[OF _ vouching.rel_metrics] by blast

lemma look_answer_Ok: "look_answer res = Some (Ok rr) \<Longrightarrow> res = Ok (Some rr)"
  by (auto simp: look_answer_def split: sum.splits option.splits)

lemma look_vouched:
  assumes "flight_vouched C A J r s"
  shows "flight_vouched C A J r (first_look C J ev t h cands s)"
    and "flight_vouched C A J r (second_look C J ev t h l cands s)"
proof -
  obtain res r' where look: "resolve_cached C J ev (fl_router s) h Client = (res, r')" by fastforce
  have v: "vouched_store C A J (fl_router s)" using assms by (simp add: flight_vouched_def)
  have k: "kept_vouched C A J (fl_router s) r'"
    using vouched_resolve_cached[OF v look] by (simp add: kept_vouched_def)
  have ok: "vouched_result C A (fl_router s) h rr" if "look_answer res = Some (Ok rr)" for rr
    using vouched_resolve_cached[OF v look] look_answer_Ok[OF that] by simp
  show "flight_vouched C A J r (first_look C J ev t h cands s)"
    by (rule vouched_move[OF assms]) (use look k ok kept_metrics[OF k] in \<open>auto simp: first_look_def Let_def split: option.splits\<close>)
  show "flight_vouched C A J r (second_look C J ev t h l cands s)"
    by (rule vouched_move[OF assms]) (use look k ok in \<open>auto simp: second_look_def Let_def split: option.splits\<close>)
qed

lemma run_race_vouched:
  assumes "flight_vouched C A J r s"
  shows "flight_vouched C A J r (run_race C J ev t h l cands s)"
proof -
  obtain res r' where race: "race C J ev (fl_router s) h cands Client = (res, r')" by fastforce
  have k: "kept_vouched C A J (fl_router s) r'" by (rule vouching.rel_race[OF _ race]) simp
  have "vouched_result C A (fl_router s) h rr" if "res = Ok rr" for rr
    using race_cases[OF race] that serves_vouched[of C ev "fl_router s" h Client rr] by simp
  with race k vouching.rel_trans[OF k remember_miss_kept] show ?thesis
    by (intro vouched_move[OF assms]) (auto simp: run_race_def)
qed

lemma flight_vouched_moved:
  "flight_vouched C A J r (move_task t p s) = flight_vouched C A J r s"
  "flight_vouched C A J r (drop_guard h l s) = flight_vouched C A J r s"
  by (simp_all add: flight_vouched_def)

lemma step_vouched: "flight_step C J A W e s s' \<Longrightarrow> flight_vouched C A J r s \<Longrightarrow> flight_vouched C A J r s'"
proof (induction rule: flight_step.induct)
  case (enter s t h cands)
  show ?case by (rule vouched_move[OF enter.prems])
      (auto simp: enter_map_def intro: vouching.rel_refl vouching.rel_metrics split: option.splits)
next
  case (acquire s t h l cands)
  then show ?case by (simp add: flight_vouched_moved)
next
  case (others s r)
  show ?case by (rule vouched_move[OF others.prems]) (use serving_kept[OF others.hyps] in auto)
qed (simp_all add: look_vouched run_race_vouched flight_vouched_moved)

lemma flight_step_mono: "flight_step C J A W e s s' \<Longrightarrow> A \<subseteq> B \<Longrightarrow> flight_step C J B W e s s'"
proof (induction rule: flight_step.induct)
  case (leave_queue s t p cands)
  show ?case by (rule flight_step.leave_queue[OF leave_queue.hyps])
qed (auto intro: flight_step.intros serving_mono)

lemma flight_run_mono: "flight_run C J A W E r s \<Longrightarrow> A \<subseteq> B \<Longrightarrow> flight_run C J B W E r s"
  by (induction rule: flight_run.induct) (auto intro: flight_run.intros flight_step_mono)

lemma flight_run_vouched:
  "flight_run C J A W E r s \<Longrightarrow> vouched_store C A J r \<Longrightarrow> flight_vouched C A J r s"
proof (induction rule: flight_run.induct)
  case flight_start
  then show ?case by (simp add: flight_vouched_def flight_init_def same_config_refl)
next
  case (flight_next s e s')
  then show ?case using step_vouched by blast
qed

section \<open>A run\<close>

definition blank :: "router \<Rightarrow> bool" where
  "blank r \<longleftrightarrow> rt_db r = rt_db router_demo \<and> rt_lru r = rt_lru router_demo \<and> rt_miss r = rt_miss router_demo"

lemma blank_look: "blank r \<Longrightarrow> resolve_cached C jiff_demo (env_demo present) r h hp = (Ok None, r)"
  by (simp add: blank_def demo_defs resolve_cached_def valid_cached_route_def cache_get_def cache_new_def
      is_negative_def get_route_def optional_route_def db_open_def Let_def)

lemma blank_metrics: "blank (metrics_add ms r) = blank r" "blank router_demo"
  by (simp_all add: blank_def metrics_add_def)

lemma blank_answered: "blank r \<Longrightarrow> answered C jiff_demo {env_demo present} r = {}"
  by (simp add: answered_def blank_look)

lemma demo_flight:
  assumes "{Arrive, Enter, Acquire, Recheck} \<subseteq> E"
  shows "\<exists>s. flight_run C jiff_demo {} {env_demo True} E router_demo s \<and>
    (\<exists>ms. fl_router s = metrics_add ms router_demo) \<and> fl_answers s = [] \<and>
    fl_tasks s = [1 \<mapsto> (Racing ''h'' 0, [''u''])] \<and> fl_inflight s = [''h'' \<mapsto> 0]"
proof -
  let ?R = "flight_run C jiff_demo {} {env_demo True} E router_demo"
  have step: "?R s'" if "?R s" "e \<in> E" "flight_step C jiff_demo {} {env_demo True} e s s'" "blank (fl_router s)"
    for s s' e
    using that blank_answered by (intro flight_run.flight_next[OF that(1-3)]) auto
  let ?s0 = "flight_init router_demo"
  let ?s1 = "first_look C jiff_demo (env_demo True) 1 ''h'' [''u''] ?s0"
  have b0: "blank (fl_router ?s0)" "fl_router ?s0 = router_demo" by (simp_all add: flight_init_def blank_metrics)
  have s1: "?s1 = move_task 1 (Some (Entering ''h'', [''u'']))
      (?s0\<lparr>fl_router := metrics_add [NarinfoCacheMisses] router_demo\<rparr>)"
    using blank_look[OF b0(1)] by (simp add: first_look_cases b0(2))
  have r1: "?R ?s1"
    by (rule step[OF flight_run.flight_start _ flight_step.look_miss])
      (use assms b0 blank_look[OF b0(1)] in \<open>auto simp: flight_init_def\<close>)
  have t1: "fl_tasks ?s1 1 = Some (Entering ''h'', [''u''])" "blank (fl_router ?s1)"
    unfolding s1 by (simp_all add: blank_metrics)
  let ?s2 = "enter_map 1 ''h'' [''u''] ?s1"
  have r2: "?R ?s2" by (rule step[OF r1 _ flight_step.enter[OF t1(1)] t1(2)]) (use assms in auto)
  have s2: "fl_tasks ?s2 = [1 \<mapsto> (Waiting ''h'' 0, [''u''])]" "fl_inflight ?s2 = [''h'' \<mapsto> 0]" "blank (fl_router ?s2)"
    "fl_router ?s2 = metrics_add [NarinfoCacheMisses] router_demo" "fl_answers ?s2 = []"
    unfolding s1 by (simp_all add: enter_map_def flight_init_def blank_metrics)
  let ?s3 = "move_task 1 (Some (Holding ''h'' 0, [''u''])) ?s2"
  have r3: "?R ?s3"
    by (rule step[OF r2 _ flight_step.acquire s2(3)]) (use assms s2 in \<open>auto simp: ran_def split: if_splits\<close>)
  have s3: "fl_tasks ?s3 1 = Some (Holding ''h'' 0, [''u''])" "blank (fl_router ?s3)" "env_demo True \<in> {env_demo True}"
    using s2(3) by simp_all
  let ?s4 = "second_look C jiff_demo (env_demo True) 1 ''h'' 0 [''u''] ?s3"
  have r4: "?R ?s4"
    by (rule step[OF r3 _ flight_step.look_again[OF s3(3,1)] s3(2)]) (use assms blank_look[OF s3(2)] in auto)
  moreover have "fl_router ?s4 = metrics_add [NarinfoCacheMisses] router_demo \<and> fl_answers ?s4 = [] \<and> fl_tasks ?s4 = [1 \<mapsto> (Racing ''h'' 0, [''u''])] \<and> fl_inflight ?s4 = [''h'' \<mapsto> 0]"
    using blank_look[OF s3(2)] s2 by (simp add: second_look_cases)
  ultimately show ?thesis by blast
qed

section \<open>Properties\<close>

text \<open>
  C6: Single flight of the program's own lookups: however the pieces of any number of client lookups
  and everything else the program does interleave, while every race leaves an answer in the caches, none
  expires, and no second look fails and no request goes away, two tasks that race for one hash are one
  task, and no other lookup can have replaced its mutex in the map.
\<close>

theorem lookups_race_once:
  assumes "flight_run C J A W calm_events r s"
    and "fl_tasks s t = Some (Racing h l, cands)" "fl_tasks s t' = Some (Racing h l', cands')"
  shows "t = t' \<and> cands = cands' \<and> fl_inflight s h = Some l"
proof -
  have "sf_reach calm_events (protocol_state C J W s)"
    by (rule flight_protocol[OF assms(1)]) (simp add: calm_events_def)
  from single_flight_exclusive[OF this, of t h l t' l'] assms(2,3) show ?thesis by auto
qed

theorem lookups_race_once_witness:
  "\<exists>s. flight_run crypto_demo jiff_demo {} {env_demo True} calm_events router_demo s \<and>
     fl_tasks s 1 = Some (Racing ''h'' 0, [''u'']) \<and> fl_inflight s ''h'' = Some 0"
proof -
  obtain s where s: "flight_run crypto_demo jiff_demo {} {env_demo True} calm_events router_demo s"
    "fl_tasks s = [1 \<mapsto> (Racing ''h'' 0, [''u''])]"
    using demo_flight[of calm_events crypto_demo] by (auto simp: calm_events_def)
  have t: "fl_tasks s 1 = Some (Racing ''h'' 0, [''u''])" using s(2) by simp
  from lookups_race_once[OF s(1) t t] s(1) t show ?thesis by blast
qed

text \<open>
  C7: The interleaved lookups implement the single-flight protocol: every run of the program's pieces,
  with any events as long as the caches may learn, is seen through \<open>protocol_state\<close> a run of the
  protocol with the same events.
\<close>

theorem flight_refines_single_flight:
  assumes "flight_run C J A W E r s" "Learn \<in> E"
  shows "sf_reach E (protocol_state C J W s)"
  by (rule flight_protocol[OF assms])

theorem flight_refines_single_flight_witness:
  "\<exists>s. fl_tasks s = [1 \<mapsto> (Racing ''h'' 0, [''u''])] \<and>
     sf_reach UNIV (protocol_state crypto_demo jiff_demo {env_demo True} s)"
proof -
  obtain s where s: "flight_run crypto_demo jiff_demo {} {env_demo True} UNIV router_demo s"
    "fl_tasks s = [1 \<mapsto> (Racing ''h'' 0, [''u''])]"
    using demo_flight[of UNIV crypto_demo] by auto
  from flight_refines_single_flight[OF s(1)] s(2) show ?thesis by blast
qed

text \<open>
  C8: Where every answered narinfo comes from, however many lookups run at once: from a router with an
  empty memory, in every interleaving of lookups with each other and with the rest of the program, merges
  from the mesh included, every answer given is a narinfo that some key registered at the start for its
  upstream verifies, if it has keys, with at most the URL rewritten, unless these bytes were stored for
  that upstream at the start or were merged for it from the mesh (\<open>A\<close>).
\<close>

theorem concurrent_answers_vouched:
  assumes "flight_run C J A W E r s" "t_entries (rt_lru r) = []" "(h, Ok rr) \<in> set (fl_answers s)"
  shows "\<exists>body. ((rr_url rr, body) \<in> A \<union> stored_narinfos J (rt_db r) \<or>
      (\<exists>ni. narinfo_parse body = Ok ni \<and>
        (case rt_keys r (rr_url rr) of None \<Rightarrow> True | Some keys \<Rightarrow> \<exists>k \<in> set keys. narinfo_verify C ni k = Ok True))) \<and>
    rr_narinfo rr = Some (if nar_url_mode r (rr_url rr) = Keep then body
      else rewrite_narinfo_url body (rr_url rr) h (nar_url_mode r (rr_url rr)))"
proof -
  have "flight_run C J (A \<union> stored_narinfos J (rt_db r)) W E r s" using assms(1) by (rule flight_run_mono) simp
  from flight_run_vouched[OF this vouched_start[OF assms(2)]] assms(3) have
    "vouched_result C (A \<union> stored_narinfos J (rt_db r)) r h rr" by (auto simp: flight_vouched_def)
  then show ?thesis by (rule vouched_answer)
qed

text \<open>A lookup that races and is answered.\<close>

theorem concurrent_answers_vouched_witness:
  "\<exists>s rr body ni. flight_run crypto_demo jiff_demo {} {env_demo True} UNIV router_demo s \<and>
     fl_answers s = [(''h'', Ok rr)] \<and> narinfo_parse body = Ok ni \<and>
     rr_narinfo rr = Some (if nar_url_mode router_demo (rr_url rr) = Keep then body
       else rewrite_narinfo_url body (rr_url rr) ''h'' (nar_url_mode router_demo (rr_url rr)))"
proof -
  obtain s ms where s: "flight_run crypto_demo jiff_demo {} {env_demo True} UNIV router_demo s"
    "fl_router s = metrics_add ms router_demo" "fl_tasks s = [1 \<mapsto> (Racing ''h'' 0, [''u''])]" "fl_answers s = []"
    using demo_flight[of UNIV crypto_demo] by auto
  obtain rr r' where race: "race crypto_demo jiff_demo (env_demo True) (fl_router s) ''h'' [''u''] Client = (Ok rr, r')"
    using demo_race_logged s(2) by metis
  let ?s = "run_race crypto_demo jiff_demo (env_demo True) 1 ''h'' 0 [''u''] s"
  have t: "fl_tasks s 1 = Some (Racing ''h'' 0, [''u''])" using s(3) by simp
  have run: "flight_run crypto_demo jiff_demo {} {env_demo True} UNIV router_demo ?s"
    by (rule flight_run.flight_next[OF s(1) UNIV_I flight_step.finish[OF t refl]]) simp
  have ans: "fl_answers ?s = [(''h'', Ok rr)]" using race s(4) by (simp add: run_race_def)
  have "t_entries (rt_lru router_demo) = []" by (simp add: demo_defs cache_new_def)
  from concurrent_answers_vouched[OF run this, of "''h''" rr] ans obtain body ni where
    "narinfo_parse body = Ok ni" "rr_narinfo rr = Some (if nar_url_mode router_demo (rr_url rr) = Keep then body
      else rewrite_narinfo_url body (rr_url rr) ''h'' (nar_url_mode router_demo (rr_url rr)))"
    by (auto simp only: demo_nothing_stored list.set Un_empty_right empty_iff simp_thms insert_iff)
  with run ans show ?thesis by blast
qed

end
