(* ===== verification/Discovery.thy ===== *)
theory Discovery
  imports Config Health
begin

text \<open>
  crates/discovery/src/lib.rs: the peers that mDNS resolves, and the upstreams they register with the
  prober. The mDNS daemon is the sequence of events the loop receives; addresses and their printing
  are those of the standard library.
\<close>

section \<open>Addresses\<close>

text \<open>An IPv4 address is its four octets, an IPv6 address its eight segments.\<close>

datatype ip_addr = V4 "u8 list" | V6 "16 word list"

definition is_loopback :: "ip_addr \<Rightarrow> bool" where
  "is_loopback ip = (case ip of V4 os \<Rightarrow> take 1 os = [127] | V6 ss \<Rightarrow> ss = [0, 0, 0, 0, 0, 0, 0, 1])"

definition is_unspecified :: "ip_addr \<Rightarrow> bool" where
  "is_unspecified ip = (case ip of V4 os \<Rightarrow> os = [0, 0, 0, 0] | V6 ss \<Rightarrow> ss = [0, 0, 0, 0, 0, 0, 0, 0])"

definition family_matches :: "address_family \<Rightarrow> ip_addr \<Rightarrow> bool" where
  "family_matches af ip =
     (case af of
        AnyFamily \<Rightarrow> True
      | Ipv4 \<Rightarrow> (case ip of V4 _ \<Rightarrow> True | V6 _ \<Rightarrow> False)
      | Ipv6 \<Rightarrow> (case ip of V4 _ \<Rightarrow> False | V6 _ \<Rightarrow> True))"

definition hex_digit :: "nat \<Rightarrow> char" where
  "hex_digit n = (if n < 10 then digit_char n else char_of (87 + n))"

fun show_hex :: "nat \<Rightarrow> string" where
  "show_hex n = (if n < 16 then [hex_digit n] else show_hex (n div 16) @ [hex_digit (n mod 16)])"

declare show_hex.simps [simp del]

definition show_v4 :: "u8 list \<Rightarrow> string" where
  "show_v4 os = join ''.'' (map (\<lambda>b. show_nat (unat b)) os)"

definition show_segments :: "16 word list \<Rightarrow> string" where
  "show_segments ss = join '':'' (map (\<lambda>s. show_hex (unat s)) ss)"

text \<open>The first longest run of zero segments, as its start and length.\<close>

fun zero_run :: "nat \<Rightarrow> nat \<times> nat \<Rightarrow> nat \<times> nat \<Rightarrow> 16 word list \<Rightarrow> nat \<times> nat" where
  "zero_run i current longest [] = longest"
| "zero_run i (start, len) longest (s # ss) =
     (if s = 0
      then let current = (if len = 0 then i else start, len + 1)
           in zero_run (i + 1) current (if snd current > snd longest then current else longest) ss
      else zero_run (i + 1) (0, 0) longest ss)"

definition show_v6 :: "16 word list \<Rightarrow> string" where
  "show_v6 ss =
     (if take 6 ss = [0, 0, 0, 0, 0, 0xffff] \<and> length ss = 8
      then ''::ffff:'' @ show_v4 (concat (map (\<lambda>s. [ucast (drop_bit 8 s), ucast s]) (drop 6 ss)))
      else case zero_run 0 (0, 0) (0, 0) ss of
        (start, len) \<Rightarrow>
          if len > 1 then show_segments (take start ss) @ ''::'' @ show_segments (drop (start + len) ss)
          else show_segments ss)"

definition show_socket :: "ip_addr \<Rightarrow> nat \<Rightarrow> string" where
  "show_socket ip port =
     (case ip of
        V4 os \<Rightarrow> show_v4 os @ '':'' @ show_nat port
      | V6 ss \<Rightarrow> ''['' @ show_v6 ss @ '']:'' @ show_nat port)"

section \<open>Peers\<close>

record peers =
  pe_by_name :: "(string \<times> string list \<times> instant) list"
  pe_owned :: "string set"

definition peers_default :: peers where
  "peers_default = \<lparr>pe_by_name = [], pe_owned = {}\<rparr>"

definition advertised :: "peers \<Rightarrow> string \<Rightarrow> bool" where
  "advertised ps url = list_ex (\<lambda>e. url \<in> set (fst (snd e))) (pe_by_name ps)"

text \<open>\<open>release\<close>: the peer's upstream goes once no live peer advertises it and discovery added it.\<close>

definition release :: "peers \<times> prober \<Rightarrow> string \<Rightarrow> peers \<times> prober" where
  "release st url =
     (case st of (ps, p) \<Rightarrow>
        if advertised ps url \<or> url \<notin> pe_owned ps then (ps, p)
        else (ps\<lparr>pe_owned := pe_owned ps - {url}\<rparr>, remove_upstream p url))"

fun register_new :: "int \<Rightarrow> string list \<Rightarrow> peers \<times> prober \<Rightarrow> peers \<times> prober" where
  "register_new pri [] st = st"
| "register_new pri (url # urls) (ps, p) =
     register_new pri urls
       (case add_upstream p url pri of
          (True, p') \<Rightarrow> (ps\<lparr>pe_owned := insert url (pe_owned ps)\<rparr>, p')
        | (False, p') \<Rightarrow> (ps, p'))"

definition resolved :: "instant \<Rightarrow> string \<Rightarrow> string list \<Rightarrow> int \<Rightarrow> peers \<times> prober \<Rightarrow> peers \<times> prober" where
  "resolved now name urls pri st =
     (case st of (ps, p) \<Rightarrow>
        let previous = (case map_of (pe_by_name ps) name of Some (previous, _) \<Rightarrow> previous | None \<Rightarrow> []);
            ps1 = ps\<lparr>pe_by_name := remove_key name (pe_by_name ps)\<rparr>;
            (ps2, p2) = register_new pri (filter (\<lambda>url. url \<notin> set previous) urls) (ps1, p);
            dropped = filter (\<lambda>url. url \<notin> set urls) previous;
            ps3 = ps2\<lparr>pe_by_name := upsert name (urls, now) (pe_by_name ps2)\<rparr>
        in foldl release (ps3, p2) dropped)"

definition stale :: "instant \<Rightarrow> duration \<Rightarrow> string \<times> string list \<times> instant \<Rightarrow> bool" where
  "stale now expiration e \<longleftrightarrow> expiration < now - snd (snd e)"

definition expire_peers :: "instant \<Rightarrow> duration \<Rightarrow> peers \<times> prober \<Rightarrow> peers \<times> prober" where
  "expire_peers now expiration st =
     (case st of (ps, p) \<Rightarrow>
        let gone = concat (map (\<lambda>e. fst (snd e)) (filter (stale now expiration) (pe_by_name ps)));
            ps1 = ps\<lparr>pe_by_name := filter (\<lambda>e. \<not> stale now expiration e) (pe_by_name ps)\<rparr>
        in foldl release (ps1, p) gone)"

section \<open>The event loop\<close>

definition service_of :: "discovery_config \<Rightarrow> string" where
  "service_of cfg = trim_end_matches CHR ''.'' (dc_service_name cfg) @ ''.''
     @ trim_end_matches CHR ''.'' (dc_domain cfg) @ ''.''"

text \<open>A duration too long to triple panics before the loop starts.\<close>

definition expiration_of :: "discovery_config \<Rightarrow> duration option" where
  "expiration_of cfg =
     (if dc_discovery_time cfg = 0 then Some (secs 30)
      else if duration_max < dc_discovery_time cfg * 3 then None
      else Some (dc_discovery_time cfg * 3))"

definition peer_urls :: "address_family \<Rightarrow> ip_addr list \<Rightarrow> nat \<Rightarrow> string list" where
  "peer_urls af addresses port =
     map (\<lambda>ip. ''http://'' @ show_socket ip port)
       (filter (family_matches af) (filter (\<lambda>ip. \<not> is_loopback ip \<and> \<not> is_unspecified ip) addresses))"

datatype discovery_event = CleanupTick instant | ServiceResolved instant string "ip_addr list" nat | OtherEvent

definition discovery_step ::
  "discovery_config \<Rightarrow> duration \<Rightarrow> discovery_event \<Rightarrow> peers \<times> prober \<Rightarrow> peers \<times> prober" where
  "discovery_step cfg expiration ev st =
     (case ev of
        CleanupTick now \<Rightarrow> expire_peers now expiration st
      | ServiceResolved now name addresses port \<Rightarrow>
          let urls = peer_urls (dc_address_family cfg) addresses port
          in if urls = [] then st else resolved now name urls (dc_priority cfg) st
      | OtherEvent \<Rightarrow> st)"

text \<open>The loop from its start: none when the expiration panics.\<close>

definition discovery_run :: "discovery_config \<Rightarrow> discovery_event list \<Rightarrow> prober \<Rightarrow> (peers \<times> prober) option" where
  "discovery_run cfg evs p =
     map_option (\<lambda>expiration. fold (discovery_step cfg expiration) evs (peers_default, p)) (expiration_of cfg)"

section \<open>What the operations do to the probed upstreams\<close>

definition probed :: "prober \<Rightarrow> string set" where
  "probed p = fst ` set (p_table p)"

definition live :: "peers \<Rightarrow> string set" where
  "live ps = {url. advertised ps url}"

lemma probed_add: "probed (snd (add_upstream p url pri)) = insert url (probed p)"
  by (auto simp: probed_def add_upstream_def get_health_def set_keys_upsert map_of_eq_None_iff split: if_splits)

lemma fst_add: "fst (add_upstream p url pri) \<longleftrightarrow> url \<notin> probed p"
  by (simp add: add_upstream_def get_health_def probed_def map_of_eq_None_iff)

lemma probed_remove: "probed (remove_upstream p url) = probed p - {url}"
  by (auto simp: probed_def remove_upstream_def remove_key_def)

lemma probed_upsert: "get_health p url = Some h \<Longrightarrow> fst ` set (upsert url h' (p_table p)) = probed p"
  by (auto simp: probed_def set_keys_upsert get_health_def dest: map_of_SomeD intro: rev_image_eqI)

lemma probed_callback [simp]: "probed (run_callback h p) = probed p"
  by (simp add: run_callback_def probed_def)

lemma probed_record:
  "probed (record_latency p now url ms) = probed p" "probed (record_failure p url) = probed p"
  "probed (seed p url ema fails queries) = probed p" "probed (set_health_persistence p) = probed p"
  "probed (probe_upstream p now url ha ga timed_out ms) = probed p"
proof -
  show 1: "probed (record_latency p now url ms) = probed p" for p
    using probed_upsert[of p url] by (auto simp: record_latency_def Let_def split: option.split) (auto simp: probed_def)
  show 2: "probed (record_failure p url) = probed p" for p
    using probed_upsert[of p url] by (auto simp: record_failure_def Let_def split: option.split) (auto simp: probed_def)
  show "probed (seed p url ema fails queries) = probed p"
    using probed_upsert[of p url] by (auto simp: seed_def split: option.split) (auto simp: probed_def)
  show "probed (set_health_persistence p) = probed p" by (simp add: set_health_persistence_def probed_def)
  show "probed (probe_upstream p now url ha ga timed_out ms) = probed p"
    using 1 2 by (simp add: probe_upstream_def)
qed

lemma register_new_spec:
  "register_new pri urls (ps, p) = (ps', p') \<Longrightarrow>
     pe_by_name ps' = pe_by_name ps \<and> pe_owned ps' = pe_owned ps \<union> (set urls - probed p) \<and>
     probed p' = probed p \<union> set urls"
proof (induction urls arbitrary: ps p)
  case (Cons url urls)
  show ?case
  proof (cases "url \<in> probed p")
    case True
    then have "add_upstream p url pri = (False, p)" using fst_add[of p url pri] by (auto simp: add_upstream_def split: if_splits)
    with Cons.prems have "register_new pri urls (ps, p) = (ps', p')" by simp
    from Cons.IH[OF this] True show ?thesis by auto
  next
    case False
    obtain p1 where p1: "add_upstream p url pri = (True, p1)" "probed p1 = insert url (probed p)"
      using fst_add[of p url pri] probed_add[of p url pri] False by (cases "add_upstream p url pri") auto
    with Cons.prems have "register_new pri urls (ps\<lparr>pe_owned := insert url (pe_owned ps)\<rparr>, p1) = (ps', p')" by simp
    from Cons.IH[OF this] p1(2) False show ?thesis by auto
  qed
qed simp

lemma live_owned [simp]: "live (ps\<lparr>pe_owned := X\<rparr>) = live ps"
  by (simp add: live_def advertised_def)

lemma release_eq:
  "release (ps, p) url = (if advertised ps url \<or> url \<notin> pe_owned ps then (ps, p)
     else (ps\<lparr>pe_owned := pe_owned ps - {url}\<rparr>, remove_upstream p url))"
  by (simp add: release_def)

lemma release_all_spec:
  "foldl release (ps, p) gone = (ps', p') \<Longrightarrow>
     pe_by_name ps' = pe_by_name ps \<and> pe_owned ps' = pe_owned ps - (set gone - live ps) \<and>
     probed p' = probed p - (set gone \<inter> pe_owned ps - live ps)"
proof (induction gone arbitrary: ps p)
  case (Cons url gone)
  show ?case
  proof (cases "advertised ps url \<or> url \<notin> pe_owned ps")
    case True
    with Cons.prems have "foldl release (ps, p) gone = (ps', p')" by (simp add: release_eq)
    from Cons.IH[OF this] True show ?thesis by (auto simp: live_def)
  next
    case False
    with Cons.prems have "foldl release (ps\<lparr>pe_owned := pe_owned ps - {url}\<rparr>, remove_upstream p url) gone = (ps', p')"
      by (simp add: release_eq)
    from Cons.IH[OF this] have ih: "pe_by_name ps' = pe_by_name ps"
      "pe_owned ps' = pe_owned ps - {url} - (set gone - live ps)"
      "probed p' = probed p - {url} - (set gone \<inter> (pe_owned ps - {url}) - live ps)"
      by (simp_all add: probed_remove)
    have "url \<notin> live ps" "url \<in> pe_owned ps" using False by (simp_all add: live_def)
    with ih show ?thesis by auto
  qed
qed auto

section \<open>The specification: a table of peers\<close>

text \<open>A peer is its name with the URLs it advertises and the time it was last resolved.\<close>

type_synonym peer_table = "string \<rightharpoonup> string list \<times> instant"

definition peer_step :: "discovery_config \<Rightarrow> duration \<Rightarrow> discovery_event \<Rightarrow> peer_table \<Rightarrow> peer_table" where
  "peer_step cfg expiration ev M =
     (case ev of
        CleanupTick now \<Rightarrow> (\<lambda>name. case M name of
            Some (urls, seen) \<Rightarrow> if expiration < now - seen then None else Some (urls, seen)
          | None \<Rightarrow> None)
      | ServiceResolved now name addresses port \<Rightarrow>
          let urls = peer_urls (dc_address_family cfg) addresses port
          in if urls = [] then M else M(name \<mapsto> (urls, now))
      | OtherEvent \<Rightarrow> M)"

definition peer_table_urls :: "peer_table \<Rightarrow> string set" where
  "peer_table_urls M = {url. \<exists>name urls seen. M name = Some (urls, seen) \<and> url \<in> set urls}"

text \<open>
  The simulation relation, over the upstreams \<open>conf\<close> that were there before: owned and configured
  upstreams are disjoint and together are the probed ones, and so are configured and advertised ones.
\<close>

definition discovery_rel :: "string set \<Rightarrow> peer_table \<Rightarrow> peers \<times> prober \<Rightarrow> bool" where
  "discovery_rel conf M st \<longleftrightarrow> (case st of (ps, p) \<Rightarrow>
     keys_distinct (pe_by_name ps) \<and> map_of (pe_by_name ps) = M \<and> conf \<inter> pe_owned ps = {} \<and>
     probed p = conf \<union> pe_owned ps \<and> probed p = conf \<union> live ps)"

lemma live_table: "keys_distinct (pe_by_name ps) \<Longrightarrow> live ps = peer_table_urls (map_of (pe_by_name ps))"
proof -
  assume d: "keys_distinct (pe_by_name ps)"
  have "advertised ps url \<longleftrightarrow> url \<in> peer_table_urls (map_of (pe_by_name ps))" for url
    using d unfolding advertised_def peer_table_urls_def list_ex_iff keys_distinct_def
    by (force simp: map_of_eq_Some_iff)
  then show ?thesis by (auto simp: live_def)
qed

lemma remove_key_upsert_live:
  assumes "keys_distinct t"
  shows "live \<lparr>pe_by_name = upsert name (urls, now) (remove_key name t), pe_owned = X\<rparr>
    = live \<lparr>pe_by_name = remove_key name t, pe_owned = Y\<rparr> \<union> set urls"
  using assms by (auto simp: live_table peer_table_urls_def map_of_upsert map_of_remove_key split: if_splits)

lemma live_split:
  assumes "keys_distinct t"
  shows "live \<lparr>pe_by_name = t, pe_owned = X\<rparr> = live \<lparr>pe_by_name = remove_key name t, pe_owned = Y\<rparr>
    \<union> (case map_of t name of Some (urls, _) \<Rightarrow> set urls | None \<Rightarrow> {})"
proof -
  have split: "peer_table_urls M = peer_table_urls (M(name := None)) \<union> (case M name of Some (urls, _) \<Rightarrow> set urls | None \<Rightarrow> {})"
    for M :: peer_table
  proof (rule set_eqI)
    fix x
    have "(\<exists>n urls seen. M n = Some (urls, seen) \<and> x \<in> set urls) \<longleftrightarrow>
        (\<exists>n urls seen. n \<noteq> name \<and> M n = Some (urls, seen) \<and> x \<in> set urls) \<or>
        (\<exists>urls seen. M name = Some (urls, seen) \<and> x \<in> set urls)" by metis
    moreover have "(M(name := None)) n = Some v \<longleftrightarrow> n \<noteq> name \<and> M n = Some v" for n v by simp
    moreover have "x \<in> (case M name of Some (urls, _) \<Rightarrow> set urls | None \<Rightarrow> {}) \<longleftrightarrow>
        (\<exists>urls seen. M name = Some (urls, seen) \<and> x \<in> set urls)" by (cases "M name") auto
    ultimately show "x \<in> peer_table_urls M \<longleftrightarrow>
        x \<in> peer_table_urls (M(name := None)) \<union> (case M name of Some (urls, _) \<Rightarrow> set urls | None \<Rightarrow> {})"
      unfolding peer_table_urls_def Un_iff mem_Collect_eq by presburger
  qed
  have tab: "live \<lparr>pe_by_name = u, pe_owned = Z\<rparr> = peer_table_urls (map_of u)" if "keys_distinct u" for u Z
    using live_table[of "\<lparr>pe_by_name = u, pe_owned = Z\<rparr>"] that by simp
  show ?thesis
    unfolding tab[OF assms] tab[OF keys_distinct_remove_key[OF assms, of name]] map_of_remove_key by (rule split)
qed

lemma resolved_rel:
  assumes "discovery_rel conf M st"
  shows "discovery_rel conf (M(name \<mapsto> (urls, now))) (resolved now name urls pri st)"
proof -
  obtain ps p where st: "st = (ps, p)" by (cases st)
  obtain t own where ps: "ps = \<lparr>pe_by_name = t, pe_owned = own\<rparr>" by (cases ps)
  define prev where "prev = (case map_of t name of Some (previous, _) \<Rightarrow> previous | None \<Rightarrow> [])"
  define rest where "rest = remove_key name t"
  let ?ps1 = "\<lparr>pe_by_name = rest, pe_owned = own\<rparr>"
  obtain ps2 p2 where 2: "register_new pri (filter (\<lambda>url. url \<notin> set prev) urls) (?ps1, p) = (ps2, p2)"
    by fastforce
  let ?ps3 = "ps2\<lparr>pe_by_name := upsert name (urls, now) (pe_by_name ps2)\<rparr>"
  obtain ps4 p4 where 4: "foldl release (?ps3, p2) (filter (\<lambda>url. url \<notin> set urls) prev) = (ps4, p4)"
    by fastforce
  have res: "resolved now name urls pri st = (ps4, p4)"
    using 2 4 by (simp add: resolved_def st ps prev_def rest_def Let_def)
  have inv: "keys_distinct t" "map_of t = M" "conf \<inter> own = {}" "probed p = conf \<union> own" "probed p = conf \<union> live ps"
    using assms by (auto simp: discovery_rel_def st ps)
  let ?L = "live ?ps1"
  have prev_set: "set prev = (case map_of t name of Some (urls, _) \<Rightarrow> set urls | None \<Rightarrow> {})"
    by (simp add: prev_def split: option.split)
  have L: "live ps = ?L \<union> set prev"
    unfolding ps prev_set rest_def by (rule live_split[OF inv(1)])
  note s2 = register_new_spec[OF 2, simplified]
  note s4 = release_all_spec[OF 4, simplified]
  have L3: "live ?ps3 = ?L \<union> set urls"
    using remove_key_upsert_live[OF inv(1), of name urls now "pe_owned ps2" own] s2
    by (cases ps2) (simp add: rest_def)
  have tab: "pe_by_name ps4 = upsert name (urls, now) rest" using s2 s4 by simp
  have L4: "live ps4 = ?L \<union> set urls" using L3 s4 by (simp add: live_def advertised_def)
  have "keys_distinct (pe_by_name ps4)" using inv(1) by (simp add: tab rest_def)
  moreover have "map_of (pe_by_name ps4) = M(name \<mapsto> (urls, now))"
    using inv(2) by (simp add: tab rest_def map_of_upsert map_of_remove_key)
  moreover have "conf \<inter> pe_owned ps4 = {}" "probed p4 = conf \<union> pe_owned ps4" "probed p4 = conf \<union> live ps4"
    using s2 s4 inv(3-5) L L3 L4 by auto
  ultimately show ?thesis by (simp add: discovery_rel_def res)
qed

lemma expire_rel:
  assumes "discovery_rel conf M st"
  shows "discovery_rel conf (peer_step cfg expiration (CleanupTick now) M) (expire_peers now expiration st)"
proof -
  obtain ps p where st: "st = (ps, p)" by (cases st)
  let ?gone = "concat (map (\<lambda>e. fst (snd e)) (filter (stale now expiration) (pe_by_name ps)))"
  let ?ps1 = "ps\<lparr>pe_by_name := filter (\<lambda>e. \<not> stale now expiration e) (pe_by_name ps)\<rparr>"
  obtain ps2 p2 where 2: "foldl release (?ps1, p) ?gone = (ps2, p2)" by fastforce
  have res: "expire_peers now expiration st = (ps2, p2)" using 2 by (simp add: expire_peers_def st Let_def)
  have inv: "keys_distinct (pe_by_name ps)" "map_of (pe_by_name ps) = M" "conf \<inter> pe_owned ps = {}"
    "probed p = conf \<union> pe_owned ps" "probed p = conf \<union> live ps"
    using assms by (auto simp: discovery_rel_def st)
  note s2 = release_all_spec[OF 2, simplified]
  have L2: "live ps2 = live ?ps1" using s2 by (simp add: live_def advertised_def)
  have L: "live ps = live ?ps1 \<union> set ?gone"
  proof (rule set_eqI)
    fix x
    show "x \<in> live ps \<longleftrightarrow> x \<in> live ?ps1 \<union> set ?gone"
      unfolding live_def advertised_def list_ex_iff by (simp add: Bex_def del: split_paired_Ex) blast
  qed
  have "keys_distinct (pe_by_name ps2)" using inv(1) s2 by simp
  moreover have "map_of (pe_by_name ps2) = peer_step cfg expiration (CleanupTick now) M"
    using s2 inv(1,2)
    by (auto simp: peer_step_def map_of_filter_distinct stale_def fun_eq_iff split: option.split)
  moreover have "conf \<inter> pe_owned ps2 = {}" "probed p2 = conf \<union> pe_owned ps2" "probed p2 = conf \<union> live ps2"
    using s2 inv(3-5) L unfolding L2 by auto
  ultimately show ?thesis by (simp add: discovery_rel_def res)
qed

lemma discovery_step_rel:
  "discovery_rel conf M st \<Longrightarrow> discovery_rel conf (peer_step cfg expiration ev M) (discovery_step cfg expiration ev st)"
  using resolved_rel[of conf M st] expire_rel[of conf M st]
  by (cases ev) (auto simp: discovery_step_def peer_step_def Let_def)

section \<open>Runs\<close>

text \<open>
  What the router and the prober do to the health table meanwhile: measurements, probes and restored
  rows, but no registration.
\<close>

inductive steady_step :: "prober \<Rightarrow> prober \<Rightarrow> bool" where
  steady_latency: "steady_step p (record_latency p now url ms)"
| steady_failure: "steady_step p (record_failure p url)"
| steady_seed: "steady_step p (seed p url ema fails queries)"
| steady_persist: "steady_step p (set_health_persistence p)"
| steady_probe: "steady_step p (probe_upstream p now url ha ga timed_out ms)"

inductive discovery_trace ::
  "discovery_config \<Rightarrow> duration \<Rightarrow> prober \<Rightarrow> discovery_event list \<Rightarrow> peers \<times> prober \<Rightarrow> bool"
  for cfg expiration p0 where
  trace_start: "discovery_trace cfg expiration p0 [] (peers_default, p0)"
| trace_event: "discovery_trace cfg expiration p0 evs st \<Longrightarrow>
    discovery_trace cfg expiration p0 (evs @ [ev]) (discovery_step cfg expiration ev st)"
| trace_steady: "discovery_trace cfg expiration p0 evs (ps, p) \<Longrightarrow> steady_step p q \<Longrightarrow>
    discovery_trace cfg expiration p0 evs (ps, q)"

lemma steady_probed: "steady_step p q \<Longrightarrow> probed q = probed p"
  by (induction rule: steady_step.induct) (simp_all add: probed_record)

lemma discovery_trace_rel:
  "discovery_trace cfg expiration p0 evs st \<Longrightarrow>
     discovery_rel (probed p0) (fold (peer_step cfg expiration) evs Map.empty) st"
proof (induction rule: discovery_trace.induct)
  case trace_start
  show ?case by (simp add: discovery_rel_def peers_default_def live_def advertised_def)
next
  case (trace_event evs st ev)
  then show ?case by (simp add: discovery_step_rel)
next
  case (trace_steady evs ps p q)
  then show ?case by (auto simp: discovery_rel_def steady_probed)
qed

lemma discovery_run_trace:
  assumes "discovery_run cfg evs p = Some st" "expiration_of cfg = Some expiration"
  shows "discovery_trace cfg expiration p evs st"
proof -
  have "discovery_trace cfg expiration p evs (fold (discovery_step cfg expiration) evs (peers_default, p))"
  proof (induction evs rule: rev_induct)
    case Nil
    show ?case by (simp add: trace_start)
  next
    case (snoc ev evs)
    from trace_event[OF this] show ?case by simp
  qed
  with assms show ?thesis by (simp add: discovery_run_def)
qed

lemma peer_step_resolved:
  "peer_step cfg expiration (ServiceResolved now name addresses port) M =
    (let urls = peer_urls (dc_address_family cfg) addresses port
     in if urls = [] then M else M(name \<mapsto> (urls, now)))"
  by (simp add: peer_step_def)

lemma peer_step_tick:
  "peer_step cfg expiration (CleanupTick now) M name =
     (case M name of Some (urls, seen) \<Rightarrow> if expiration < now - seen then None else Some (urls, seen) | None \<Rightarrow> None)"
  "peer_step cfg expiration OtherEvent M = M"
  by (simp_all add: peer_step_def)

text \<open>
  A row of the peer table comes from the last event that resolved addresses for the peer, and no
  clean-up since found it older than the expiration.
\<close>

lemma peer_table_origin:
  "fold (peer_step cfg expiration) evs Map.empty name = Some (urls, seen) \<Longrightarrow>
     \<exists>before addresses port after. evs = before @ ServiceResolved seen name addresses port # after \<and>
       urls = peer_urls (dc_address_family cfg) addresses port \<and>
       (\<forall>now. CleanupTick now \<in> set after \<longrightarrow> now - seen \<le> expiration) \<and>
       (\<forall>t addresses' port'. ServiceResolved t name addresses' port' \<in> set after \<longrightarrow>
          peer_urls (dc_address_family cfg) addresses' port' = [])"
proof (induction evs arbitrary: urls seen rule: rev_induct)
  case (snoc ev evs)
  have extend: ?case
    if "fold (peer_step cfg expiration) evs Map.empty name = Some (urls, seen)"
      "\<And>now. ev = CleanupTick now \<Longrightarrow> now - seen \<le> expiration"
      "\<And>t addresses port. ev = ServiceResolved t name addresses port \<Longrightarrow> peer_urls (dc_address_family cfg) addresses port = []"
  proof -
    from snoc.IH[OF that(1)] obtain before addresses port after where
      o: "evs = before @ ServiceResolved seen name addresses port # after"
      "urls = peer_urls (dc_address_family cfg) addresses port"
      "\<forall>now. CleanupTick now \<in> set after \<longrightarrow> now - seen \<le> expiration"
      "\<forall>t addresses' port'. ServiceResolved t name addresses' port' \<in> set after \<longrightarrow>
          peer_urls (dc_address_family cfg) addresses' port' = []" by blast
    show ?thesis
      by (rule exI[of _ before], rule exI[of _ addresses], rule exI[of _ port], rule exI[of _ "after @ [ev]"])
        (use o that(2,3) in auto)
  qed
  show ?case
  proof (cases ev)
    case (CleanupTick now)
    with snoc.prems show ?thesis
      by (intro extend) (auto simp: peer_step_tick split: option.splits prod.splits if_splits)
  next
    case (ServiceResolved now name' addresses port)
    let ?urls = "peer_urls (dc_address_family cfg) addresses port"
    show ?thesis
    proof (cases "?urls \<noteq> [] \<and> name' = name")
      case True
      with snoc.prems ServiceResolved have "urls = ?urls" "seen = now" by (auto simp: peer_step_resolved Let_def)
      with True ServiceResolved show ?thesis
        by (intro exI[of _ evs] exI[of _ addresses] exI[of _ port] exI[of _ "[]"]) simp
    next
      case False
      with snoc.prems ServiceResolved show ?thesis
        by (intro extend) (auto simp: peer_step_resolved Let_def split: if_splits)
    qed
  next
    case OtherEvent
    with snoc.prems show ?thesis by (intro extend) (auto simp: peer_step_tick)
  qed
qed simp

section \<open>Properties\<close>

text \<open>
  C5: Discovery refines a table of peers: however its events interleave with measurements and probes,
  the upstreams the prober knows are exactly those configured before and those that a peer of the table
  advertises, where the table is what resolving (replacing the peer's row) and expiring (dropping the
  rows not resolved within the expiration) make of it. A configured upstream is never removed and an
  address of no live peer never stays.
\<close>

theorem discovery_refines_peer_table:
  assumes "discovery_trace cfg expiration p0 evs (ps, p)"
  shows "map_of (pe_by_name ps) = fold (peer_step cfg expiration) evs Map.empty \<and>
    fst ` set (p_table p) =
      fst ` set (p_table p0) \<union> peer_table_urls (fold (peer_step cfg expiration) evs Map.empty)"
proof -
  from discovery_trace_rel[OF assms]
  have rel: "keys_distinct (pe_by_name ps)" "map_of (pe_by_name ps) = fold (peer_step cfg expiration) evs Map.empty"
    "probed p = probed p0 \<union> live ps" by (auto simp: discovery_rel_def)
  with live_table[OF rel(1)] show ?thesis by (simp add: probed_def)
qed

definition discovery_demo :: discovery_config where
  "discovery_demo = discovery_default\<lparr>dc_enabled := True, dc_address_family := Ipv4\<rparr>"

definition events_demo :: "discovery_event list" where
  "events_demo = [ServiceResolved 5 ''peer'' [V4 [127, 0, 0, 1], V4 [10, 0, 0, 7], V6 [0xfe80, 0, 0, 0, 0, 0, 0, 7]] 80]"

lemma discovery_demo_trace:
  "discovery_trace discovery_demo (secs 15) (prober_new (Fin 1)) events_demo
     (the (discovery_run discovery_demo events_demo (prober_new (Fin 1))))"
proof -
  have "expiration_of discovery_demo = Some (secs 15)"
    by (simp add: expiration_of_def discovery_demo_def discovery_default_def secs_def duration_max_def u64_max_def)
  then show ?thesis by (intro discovery_run_trace) (simp_all add: discovery_run_def)
qed

lemma events_demo_urls:
  "peer_urls Ipv4 [V4 [127, 0, 0, 1], V4 [10, 0, 0, 7], V6 [0xfe80, 0, 0, 0, 0, 0, 0, 7]] 80
     = [''http://'' @ show_socket (V4 [10, 0, 0, 7]) 80]"
  by (simp add: peer_urls_def is_loopback_def is_unspecified_def family_matches_def)

theorem discovery_refines_peer_table_witness:
  "fst ` set (p_table (snd (the (discovery_run discovery_demo events_demo (prober_new (Fin 1))))))
     = {''http://'' @ show_socket (V4 [10, 0, 0, 7]) 80}"
proof -
  let ?url = "''http://'' @ show_socket (V4 [10, 0, 0, 7]) 80"
  have table: "fold (peer_step discovery_demo (secs 15)) events_demo Map.empty = [''peer'' \<mapsto> ([?url], 5)]"
    by (simp add: events_demo_def peer_step_def discovery_demo_def events_demo_urls Let_def)
  have tr: "discovery_trace discovery_demo (secs 15) (prober_new (Fin 1)) events_demo
      (fst (the (discovery_run discovery_demo events_demo (prober_new (Fin 1)))),
       snd (the (discovery_run discovery_demo events_demo (prober_new (Fin 1)))))"
    using discovery_demo_trace by simp
  from discovery_refines_peer_table[OF tr] show ?thesis
    by (simp add: table prober_new_def peer_table_urls_def)
qed

text \<open>
  C39: What discovery adds is reachable, and as current as the last clean-up left it: at any moment, a
  probed upstream that was not configured is an address of the configured family, neither loopback nor
  unspecified, from the last event that resolved usable addresses of some peer; and no clean-up since
  that event found it older than the expiration. (Between two clean-ups it may grow older.)
\<close>

theorem discovered_upstreams_current:
  assumes "discovery_trace cfg expiration p0 evs (ps, p)"
    and "url \<in> fst ` set (p_table p)" "url \<notin> fst ` set (p_table p0)"
  shows "\<exists>before seen name addresses port after ip. evs = before @ ServiceResolved seen name addresses port # after \<and>
    ip \<in> set addresses \<and> \<not> is_loopback ip \<and> \<not> is_unspecified ip \<and>
    family_matches (dc_address_family cfg) ip \<and> url = ''http://'' @ show_socket ip port \<and>
    (\<forall>now. CleanupTick now \<in> set after \<longrightarrow> now - seen \<le> expiration) \<and>
    (\<forall>t addresses' port'. ServiceResolved t name addresses' port' \<in> set after \<longrightarrow>
       peer_urls (dc_address_family cfg) addresses' port' = [])"
proof -
  let ?M = "fold (peer_step cfg expiration) evs Map.empty"
  from discovery_trace_rel[OF assms(1)]
  have rel: "keys_distinct (pe_by_name ps)" "map_of (pe_by_name ps) = ?M"
    "probed p = probed p0 \<union> live ps" by (auto simp: discovery_rel_def)
  with assms(2,3) have "url \<in> peer_table_urls ?M"
    using live_table[OF rel(1)] by (auto simp: probed_def)
  then obtain name urls seen where row: "?M name = Some (urls, seen)" "url \<in> set urls"
    by (auto simp: peer_table_urls_def)
  from peer_table_origin[OF row(1)] obtain before addresses port after where
    o: "evs = before @ ServiceResolved seen name addresses port # after"
    "urls = peer_urls (dc_address_family cfg) addresses port"
    "\<forall>now. CleanupTick now \<in> set after \<longrightarrow> now - seen \<le> expiration"
    "\<forall>t addresses' port'. ServiceResolved t name addresses' port' \<in> set after \<longrightarrow>
       peer_urls (dc_address_family cfg) addresses' port' = []" by blast
  from row(2) obtain ip where "ip \<in> set addresses" "\<not> is_loopback ip" "\<not> is_unspecified ip"
    "family_matches (dc_address_family cfg) ip" "url = ''http://'' @ show_socket ip port"
    unfolding o(2) by (auto simp: peer_urls_def)
  with o(1,3,4) show ?thesis by blast
qed

theorem discovered_upstreams_current_witness:
  "\<exists>before seen name addresses port after ip.
     events_demo @ [CleanupTick 10] = before @ ServiceResolved seen name addresses port # after \<and>
     ip \<in> set addresses \<and> family_matches Ipv4 ip \<and> (\<forall>now. CleanupTick now \<in> set after \<longrightarrow> now - seen \<le> secs 15)"
proof -
  let ?st = "discovery_step discovery_demo (secs 15) (CleanupTick 10)
      (the (discovery_run discovery_demo events_demo (prober_new (Fin 1))))"
  let ?url = "''http://'' @ show_socket (V4 [10, 0, 0, 7]) 80"
  have tr: "discovery_trace discovery_demo (secs 15) (prober_new (Fin 1)) (events_demo @ [CleanupTick 10]) (fst ?st, snd ?st)"
    using trace_event[OF discovery_demo_trace, of "CleanupTick 10"] by simp
  have table: "fold (peer_step discovery_demo (secs 15)) (events_demo @ [CleanupTick 10]) Map.empty = [''peer'' \<mapsto> ([?url], 5)]"
    by (simp add: events_demo_def peer_step_def discovery_demo_def events_demo_urls Let_def secs_def fun_eq_iff)
  have "discovery_rel {} [''peer'' \<mapsto> ([?url], 5)] (fst ?st, snd ?st)"
    using discovery_trace_rel[OF tr] unfolding table by (simp add: probed_def prober_new_def)
  then have "?url \<in> fst ` set (p_table (snd ?st))"
    using live_table[of "fst ?st"] by (auto simp: discovery_rel_def probed_def peer_table_urls_def)
  from discovered_upstreams_current[OF tr this] show ?thesis
    by (simp add: prober_new_def discovery_demo_def) blast
qed

end
