(* ===== verification/Startup.thy ===== *)
theory Startup
  imports Server Discovery Mesh
begin

text \<open>
  ncro/src/cli.rs: the command line, the listening sockets, the order in which \<open>serve\<close> builds the
  program out of its components, and the worker that writes health rows. What the operating system
  answers (sockets, environment, entropy) is the record \<open>boot\<close>; the logging subscriber, the service
  manager's notification and the trimming of the heap have no state of the program.
\<close>

section \<open>The command line\<close>

record args =
  a_config :: "string option"
  a_generate_mesh_key :: "string option"
  a_check :: bool

datatype command = Serve "string option" | CheckConfig string | GenerateMeshKey string

definition command_of_args :: "args \<Rightarrow> (string, command) result" where
  "command_of_args a =
     (let config = (case a_config a of Some path \<Rightarrow> if path = [] then None else Some path | None \<Rightarrow> None) in
      case a_generate_mesh_key a of
        Some path \<Rightarrow> Ok (GenerateMeshKey path)
      | None \<Rightarrow>
          if a_check a
          then (case config of None \<Rightarrow> Err ''--check requires --config'' | Some path \<Rightarrow> Ok (CheckConfig path))
          else Ok (Serve config))"

section \<open>Listening sockets\<close>

definition parse_listen_fds :: "string option \<Rightarrow> nat option" where
  "parse_listen_fds val =
     (case val of
        None \<Rightarrow> None
      | Some s \<Rightarrow> (case parse_uint u32_max s of Err _ \<Rightarrow> None | Ok n \<Rightarrow> if 1 \<le> n then Some n else None))"

text \<open>
  The descriptors from 3 on, each made non-blocking; the end of the range is a 32-bit sum, which wraps
  in the release profile.
\<close>

definition fd_end :: "nat \<Rightarrow> int" where
  "fd_end n = sint (word_of_int (3 + int n) :: 32 word)"

definition inherited_listeners :: "(string \<Rightarrow> string option) \<Rightarrow> nat \<Rightarrow> (int \<Rightarrow> bool) \<Rightarrow> int list option" where
  "inherited_listeners var pid nonblocking =
     (case parse_listen_fds (var ''LISTEN_FDS'') of
        None \<Rightarrow> None
      | Some n \<Rightarrow>
          if var ''LISTEN_PID'' \<noteq> Some (show_nat pid) then None
          else if i32_max < int n then None
          else let fds = [3..fd_end n - 1] in if list_all nonblocking fds then Some fds else None)"

datatype 'sock bind_target = Exact 'sock | V4Localhost nat | V6Localhost nat | V4Any nat | DualStack nat

datatype io_kind = AddrInUse | OtherIo

datatype 'sock listener = Inherited int | Bound "'sock bind_target"

datatype 'sock bind_error = AdoptSockets | NoSockets | BindError "'sock bind_target" io_kind

definition tcp_bind :: "('sock bind_target \<Rightarrow> io_kind option) \<Rightarrow> 'sock bind_target \<Rightarrow> ('sock bind_error, 'sock listener) result" where
  "tcp_bind fault t = (case fault t of Some k \<Rightarrow> Err (BindError t k) | None \<Rightarrow> Ok (Bound t))"

definition bind_listeners ::
  "int list option \<Rightarrow> (int \<Rightarrow> bool) \<Rightarrow> ('sock bind_target \<Rightarrow> io_kind option) \<Rightarrow> 'sock listen_addr option
     \<Rightarrow> ('sock bind_error, 'sock listener list) result" where
  "bind_listeners inherited adopts fault listen =
     (case inherited of
        Some fds \<Rightarrow> if list_all adopts fds then Ok (map Inherited fds) else Err AdoptSockets
      | None \<Rightarrow>
          (case listen of
             None \<Rightarrow> Err NoSockets
           | Some (Socket addr) \<Rightarrow> and_then (tcp_bind fault (Exact addr)) (\<lambda>l. Ok [l])
           | Some (Localhost port) \<Rightarrow>
               and_then (tcp_bind fault (V4Localhost port)) (\<lambda>l.
                 case tcp_bind fault (V6Localhost port) of
                   Ok l6 \<Rightarrow> Ok [l, l6]
                 | Err (BindError t AddrInUse) \<Rightarrow> Err (BindError t AddrInUse)
                 | Err _ \<Rightarrow> Ok [l])
           | Some (AnyAddr port) \<Rightarrow>
               (case tcp_bind fault (DualStack port) of
                  Ok l \<Rightarrow> Ok [l]
                | Err (BindError t AddrInUse) \<Rightarrow> Err (BindError t AddrInUse)
                | Err _ \<Rightarrow> and_then (tcp_bind fault (V4Any port)) (\<lambda>l. Ok [l]))))"

section \<open>Opening the database\<close>

record tables =
  tb_schema :: schema
  tb_indexes :: "string set"
  tb_routes :: "(string \<times> route_row) list"
  tb_negative :: "(string \<times> int) list"
  tb_health :: "(string \<times> f64 \<times> int \<times> int) list"

definition empty_tables :: tables where
  "empty_tables = \<lparr>tb_schema = [], tb_indexes = {}, tb_routes = [], tb_negative = [], tb_health = []\<rparr>"

text \<open>A database in memory starts empty whatever is on disk.\<close>

definition db_connect ::
  "string option \<Rightarrow> sqlx_error option \<Rightarrow> tables \<Rightarrow> string \<Rightarrow> int \<Rightarrow> (db_error, db) result" where
  "db_connect mkdir_fault open_fault disk path max_entries =
     (let memory = (path = '':memory:''); T = (if memory then empty_tables else disk) in
      case (if memory then None else mkdir_fault) of
        Some e \<Rightarrow> Err (CreateDir path e)
      | None \<Rightarrow>
          (case open_fault of
             Some e \<Rightarrow> Err (OpenDb path e)
           | None \<Rightarrow> and_then (migrate (tb_indexes T) (tb_schema T)) (\<lambda>_.
               Ok (db_open max_entries (tb_routes T) (tb_negative T) (tb_health T)))))"

section \<open>Building the program\<close>

definition router_upstream_of :: "upstream_config \<Rightarrow> router_upstream" where
  "router_upstream_of u =
     \<lparr>ru_url = uc_url u, ru_public_key = uc_public_key u, ru_public_keys = uc_public_keys u,
      ru_filters = uc_filters u, ru_nar_url_mode = uc_nar_url_mode u, ru_narinfo_timeout = uc_narinfo_timeout u\<rparr>"

fun register_all :: "crypto \<Rightarrow> upstream_config list \<Rightarrow> router \<Rightarrow> (narinfo_error, router) result" where
  "register_all C [] r = Ok r"
| "register_all C (u # us) r =
     (case register_upstream C r (router_upstream_of u) of
        (Err e, _) \<Rightarrow> Err e
      | (Ok _, r') \<Rightarrow> register_all C us r')"

definition register_backends :: "upstream_config list \<Rightarrow> upstreams" where
  "register_backends us =
     fold (\<lambda>u b. register_backend b (uc_url u) (uc_location u) (uc_username u) (uc_password u)) us Map.empty"

definition seed_all :: "health_row list \<Rightarrow> prober \<Rightarrow> prober" where
  "seed_all rows p = fold (\<lambda>row p. seed p (hr_url row) (hr_ema row) (hr_fails row) (hr_queries row)) rows p"

definition tuning_of :: "mass_query_config \<Rightarrow> tuning" where
  "tuning_of mq =
     \<lparr>tn_max_concurrent_races = mq_max_concurrent_races mq, tn_per_upstream_max_inflight = mq_per_upstream_max_inflight mq,
      tn_in_memory_negative_ttl = mq_in_memory_negative_ttl mq, tn_upstream_cooldown = mq_upstream_cooldown mq\<rparr>"

text \<open>The upstreams that take part: the configured ones and, when enabled, the fallback.\<close>

definition fallback_of :: "'sock config \<Rightarrow> upstream_config option" where
  "fallback_of cfg = (if fb_enabled (cf_fallback cfg) then Some (fb_upstream (cf_fallback cfg)) else None)"

definition all_upstreams :: "'sock config \<Rightarrow> upstream_config list" where
  "all_upstreams cfg = cf_upstreams cfg @ (case fallback_of cfg of Some u \<Rightarrow> [u] | None \<Rightarrow> [])"

text \<open>The health table that \<open>serve\<close> starts with: the configured upstreams and what the database knows of them.\<close>

definition start_prober :: "sqlx_error option \<Rightarrow> db \<Rightarrow> 'sock config \<Rightarrow> prober" where
  "start_prober health_fault d cfg =
     set_health_persistence
       (seed_all (case load_all_health health_fault d of Ok rows \<Rightarrow> rows | Err _ \<Rightarrow> [])
         (init_upstreams (prober_new (cc_latency_alpha (cf_cache cfg)))
           (map (\<lambda>u. (uc_url u, uc_priority u)) (cf_upstreams cfg))))"

definition start_router :: "crypto \<Rightarrow> db \<Rightarrow> prober \<Rightarrow> 'sock config \<Rightarrow> (narinfo_error, router) result" where
  "start_router C d p cfg =
     (let c = cf_cache cfg in
      register_all C (all_upstreams cfg)
        (router_new d p (cc_ttl c) (secs 5) (cc_negative_ttl c) (tuning_of (cc_mass_query c))))"

definition start_app :: "router \<Rightarrow> 'sock config \<Rightarrow> instant \<Rightarrow> app_state" where
  "start_app r cfg now =
     app r (register_backends (all_upstreams cfg)) (cf_upstreams cfg) (fallback_of cfg) (cc_nar_hedging (cf_cache cfg))
       (sc_cache_priority (cf_server cfg)) (sc_want_mass_query (cf_server cfg)) (sc_read_timeout (cf_server cfg)) now"

record ('sock, 'k) boot =
  bo_os :: os
  bo_libs :: "'sock libs"
  bo_crypto :: crypto
  bo_pid :: nat
  bo_now :: instant
  bo_mkdir :: "string option"
  bo_open :: "sqlx_error option"
  bo_tables :: tables
  bo_health :: "sqlx_error option"
  bo_client :: "string option"
  bo_mdns :: "string option"
  bo_mesh :: "'k mesh_lib"
  bo_disk_fault :: "disk_op \<Rightarrow> string option"
  bo_seed :: "(string, octets) result"
  bo_temp :: "(string, octets) result"
  bo_udp :: "string \<Rightarrow> string option"
  bo_nonblocking :: "int \<Rightarrow> bool"
  bo_adopts :: "int \<Rightarrow> bool"
  bo_bind :: "'sock bind_target \<Rightarrow> io_kind option"

datatype 'sock startup_error =
    StartConfig config_error
  | StartDb db_error
  | StartClient string
  | StartPublicKey narinfo_error
  | StartMdns string
  | StartMesh mesh_error
  | StartListen "'sock bind_error"

text \<open>What runs after start-up: the handlers' state, the discovery loop, the mesh with the keys it admits and its peers.\<close>

record ('sock, 'k) started =
  sd_app :: app_state
  sd_discovery :: "discovery_config option"
  sd_mesh :: "('k \<times> octets list \<times> string list) option"
  sd_listeners :: "'sock listener list"

definition start_mesh ::
  "('sock, 'k) boot \<Rightarrow> mesh_config \<Rightarrow> disk \<Rightarrow> (mesh_error, ('k \<times> octets list \<times> string list) option) result \<times> disk" where
  "start_mesh B m files =
     (if \<not> mc_enabled m then (Ok None, files)
      else case node_new (bo_mesh B) (bo_disk_fault B) (bo_seed B) (bo_temp B) (mc_private_key_path m) files of
          (Err e, files') \<Rightarrow> (Err e, files')
        | (Ok node, files') \<Rightarrow>
            (case bo_udp B (mc_bind_addr m) of
               Some e \<Rightarrow> (Err (MeshBind (mc_bind_addr m) e), files')
             | None \<Rightarrow> (Ok (Some (node, map pc_public_key (mc_peers m), map pc_addr (mc_peers m))), files')))"

definition serve_start ::
  "('sock, 'k) boot \<Rightarrow> string option \<Rightarrow> disk \<Rightarrow> ('sock startup_error, ('sock, 'k) started) result \<times> disk" where
  "serve_start B path files =
     (case config_load (bo_os B) (bo_libs B) path of
        Err e \<Rightarrow> (Err (StartConfig e), files)
      | Ok cfg \<Rightarrow>
     (case config_validate (bo_libs B) cfg of
        Err e \<Rightarrow> (Err (StartConfig e), files)
      | Ok _ \<Rightarrow>
     (case db_connect (bo_mkdir B) (bo_open B) (bo_tables B) (cc_db_path (cf_cache cfg)) (cc_max_entries (cf_cache cfg)) of
        Err e \<Rightarrow> (Err (StartDb e), files)
      | Ok d \<Rightarrow>
     (case bo_client B of
        Some e \<Rightarrow> (Err (StartClient e), files)
      | None \<Rightarrow>
     (case start_router (bo_crypto B) d (start_prober (bo_health B) d cfg) cfg of
        Err e \<Rightarrow> (Err (StartPublicKey e), files)
      | Ok r \<Rightarrow>
     (case (if dc_enabled (cf_discovery cfg) then bo_mdns B else None) of
        Some e \<Rightarrow> (Err (StartMdns e), files)
      | None \<Rightarrow>
     (case start_mesh B (cf_mesh cfg) files of
        (Err e, files') \<Rightarrow> (Err (StartMesh e), files')
      | (Ok mesh, files') \<Rightarrow>
     (case bind_listeners (inherited_listeners (os_var (bo_os B)) (bo_pid B) (bo_nonblocking B)) (bo_adopts B)
             (bo_bind B) (sc_listen (cf_server cfg)) of
        Err e \<Rightarrow> (Err (StartListen e), files')
      | Ok ls \<Rightarrow>
          (Ok \<lparr>sd_app = start_app r cfg (bo_now B),
               sd_discovery = (if dc_enabled (cf_discovery cfg) then Some (cf_discovery cfg) else None),
               sd_mesh = mesh, sd_listeners = ls\<rparr>, files')))))))))"

text \<open>\<open>run\<close>: a check loads nothing but the file, and a key is printed in hexadecimal.\<close>

datatype ('sock, 'k) run_result =
    Refused string
  | ServeFailed "'sock startup_error"
  | Serving "('sock, 'k) started"
  | Checked "(config_error, unit) result"
  | KeyPrinted string
  | KeyFailed mesh_error

definition run_command :: "('sock, 'k) boot \<Rightarrow> args \<Rightarrow> disk \<Rightarrow> ('sock, 'k) run_result \<times> disk" where
  "run_command B a files =
     (case command_of_args a of
        Err e \<Rightarrow> (Refused e, files)
      | Ok (Serve config) \<Rightarrow>
          (case serve_start B config files of
             (Err e, files') \<Rightarrow> (ServeFailed e, files')
           | (Ok st, files') \<Rightarrow> (Serving st, files'))
      | Ok (CheckConfig config) \<Rightarrow> (Checked (config_check (bo_os B) (bo_libs B) config), files)
      | Ok (GenerateMeshKey path) \<Rightarrow>
          (case node_new (bo_mesh B) (bo_disk_fault B) (bo_seed B) (bo_temp B) path files of
             (Err e, files') \<Rightarrow> (KeyFailed e, files')
           | (Ok node, files') \<Rightarrow> (KeyPrinted (ml_hex (bo_mesh B) (ml_public (bo_mesh B) node)), files')))"

section \<open>The health worker and the expiry task\<close>

record worker =
  hw_pending :: "(string \<times> health_row) list"
  hw_db :: db

text \<open>The row that the persistence callback sends of a snapshot.\<close>

definition row_of_snapshot :: "health_snapshot \<Rightarrow> health_row" where
  "row_of_snapshot s =
     (case s of (url, ema, fails, queries) \<Rightarrow>
        \<lparr>hr_url = url, hr_ema = ema, hr_fails = uint fails,
         hr_queries = (if uint queries \<le> i64_max then uint queries else i64_max)\<rparr>)"

record save_faults =
  sf_begin :: "sqlx_error option"
  sf_rows :: "sqlx_error option list"
  sf_commit :: "sqlx_error option"

definition insert_row :: "health_row \<Rightarrow> (string \<times> health_row) list \<Rightarrow> (string \<times> health_row) list" where
  "insert_row row pending = upsert (hr_url row) row pending"

definition flush_health :: "save_faults \<Rightarrow> worker \<Rightarrow> bool \<times> worker" where
  "flush_health F w =
     (let rows = map snd (hw_pending w) in
      case save_health (sf_begin F) (sf_rows F) (sf_commit F) (hw_db w) rows of
        (Ok _, d) \<Rightarrow> (True, \<lparr>hw_pending = [], hw_db = d\<rparr>)
      | (Err _, d) \<Rightarrow> (False, \<lparr>hw_pending = fold insert_row rows [], hw_db = d\<rparr>))"

datatype worker_event = RowReceived health_row | FlushTick save_faults

definition worker_step :: "worker_event \<Rightarrow> worker \<Rightarrow> worker" where
  "worker_step ev w =
     (case ev of
        RowReceived row \<Rightarrow> w\<lparr>hw_pending := insert_row row (hw_pending w)\<rparr>
      | FlushTick F \<Rightarrow> snd (flush_health F w))"

text \<open>At shutdown: drain the channel, then flush up to three times.\<close>

fun flush_retry :: "save_faults list \<Rightarrow> worker \<Rightarrow> bool \<times> worker" where
  "flush_retry [] w = (False, w)"
| "flush_retry (F # Fs) w = (case flush_health F w of (True, w') \<Rightarrow> (True, w') | (False, w') \<Rightarrow> flush_retry Fs w')"

definition worker_stop :: "health_row list \<Rightarrow> save_faults \<times> save_faults \<times> save_faults \<Rightarrow> worker \<Rightarrow> bool \<times> worker" where
  "worker_stop rows Fs w =
     (case Fs of (F1, F2, F3) \<Rightarrow>
        flush_retry [F1, F2, F3] (w\<lparr>hw_pending := fold insert_row rows (hw_pending w)\<rparr>))"

definition expiry_tick ::
  "jiff \<Rightarrow> sqlx_error option \<Rightarrow> sqlx_error option \<Rightarrow> sqlx_error option \<Rightarrow> timestamp \<Rightarrow> timestamp \<Rightarrow> db \<Rightarrow> db \<times> int option" where
  "expiry_tick J f1 f2 f3 now1 now2 d =
     (let d2 = snd (expire_negatives J f2 now2 (snd (expire_old_routes J f1 now1 d)))
      in (d2, case route_count f3 d2 of Ok n \<Rightarrow> Some n | Err _ \<Rightarrow> None))"

section \<open>Ready, and the end of the program\<close>

text \<open>
  A path as the address of a Unix socket: the standard library refuses a NUL octet anywhere and a
  path that does not fit \<open>sun_path\<close>; otherwise the kernel decides.
\<close>

definition send_to_path :: "(string \<Rightarrow> string option) \<Rightarrow> string \<Rightarrow> string option" where
  "send_to_path send path =
     (if CHR 0x00 \<in> set path then Some ''paths must not contain interior null bytes''
      else if 108 \<le> length path then Some ''path must be shorter than SUN_LEN''
      else send path)"

text \<open>\<open>sd_notify_ready\<close>: the warnings it logs, given a failure to create the socket and what sending does.\<close>

definition sd_notify_ready :: "string option \<Rightarrow> (string \<Rightarrow> string option) \<Rightarrow> string option \<Rightarrow> string list" where
  "sd_notify_ready unbound send notify_socket =
     (case notify_socket of
        None \<Rightarrow> []
      | Some socket_path \<Rightarrow>
     (case unbound of
        Some e \<Rightarrow> [''sd_notify: failed to create socket: '' @ e]
      | None \<Rightarrow>
     (case (case strip_prefix ''@'' socket_path of
              None \<Rightarrow> send_to_path send socket_path
            | Some name \<Rightarrow> send_to_path send (CHR 0x00 # name)) of
        None \<Rightarrow> []
      | Some e \<Rightarrow> [''sd_notify failed: '' @ e])))"

text \<open>How the task of one listener ends, in the order in which they end.\<close>

datatype server_end = Panicked string | Ended "(string, unit) result"

fun join_servers :: "server_end list \<Rightarrow> (string, unit) result" where
  "join_servers [] = Ok ()"
| "join_servers (Panicked e # ends) = Err e"
| "join_servers (Ended (Err e) # ends) = Err e"
| "join_servers (Ended (Ok _) # ends) = join_servers ends"

text \<open>After the servers, up to the first that fails, the worker is stopped and awaited in any case.\<close>

definition serve_end ::
  "server_end list \<Rightarrow> health_row list \<Rightarrow> save_faults \<times> save_faults \<times> save_faults \<Rightarrow> worker \<Rightarrow> (string, unit) result \<times> worker" where
  "serve_end ends rows Fs w = (join_servers ends, snd (worker_stop rows Fs w))"

section \<open>Logging\<close>

text \<open>The filter of \<open>init_logging\<close>: the directives, or everything from info on.\<close>

definition init_filter :: "(string \<Rightarrow> (string, 'f) result) \<Rightarrow> 'f \<Rightarrow> string \<Rightarrow> 'f" where
  "init_filter targets info level = (case targets level of Ok f \<Rightarrow> f | Err _ \<Rightarrow> info)"

text \<open>The layer it installs: the format and whether lines carry a time.\<close>

datatype log_layer = JsonLayer bool | TextLayer bool

definition init_layer :: "log_format \<Rightarrow> bool \<Rightarrow> log_layer" where
  "init_layer f timestamps = (case f of Json \<Rightarrow> JsonLayer timestamps | TextFormat \<Rightarrow> TextLayer timestamps)"

text \<open>Warnings before logging is configured.\<close>

datatype log_level = Trace | Debug | Info | Warn | LogError

record log_event =
  le_level :: log_level
  le_fields :: "(string \<times> string) list"

text \<open>\<open>MessageVisitor\<close> over the fields in their debug form.\<close>

definition message_of :: "(string \<times> string) list \<Rightarrow> string" where
  "message_of fs = concat (map snd (filter (\<lambda>f. fst f = ''message'') fs))"

definition buffer_event :: "log_event \<Rightarrow> string list \<Rightarrow> string list" where
  "buffer_event ev warnings = (if le_level ev \<noteq> Warn then warnings else warnings @ [message_of (le_fields ev)])"

text \<open>\<open>replay\<close>: the warnings it emits and the emptied buffer.\<close>

definition replay :: "string list \<Rightarrow> string list \<times> string list" where
  "replay warnings = (warnings, [])"

end
