(* ===== verification/StartupProps.thy ===== *)
theory StartupProps
  imports Startup
begin

text \<open>
  What start-up establishes and keeps: the sockets that listen, the upstreams known to every component,
  the keys that verify, the rows that reach the database.
\<close>

section \<open>Listening\<close>

lemma and_then_cases: "and_then r f = (case r of Err e \<Rightarrow> Err e | Ok x \<Rightarrow> f x)"
  by (simp add: and_then_def)

lemma tcp_bind_simps: "fault t = None \<Longrightarrow> tcp_bind fault t = Ok (Bound t)"
  "fault t = Some k \<Longrightarrow> tcp_bind fault t = Err (BindError t k)"
  by (simp_all add: tcp_bind_def)

lemma fd_end_small: "int n \<le> i32_max - 3 \<Longrightarrow> fd_end n = 3 + int n"
  unfolding fd_end_def sint_sbintrunc' by (simp add: i32_max_def signed_take_bit_int_eq_self)

lemma fd_end_wraps: "i32_max - 3 < int n \<Longrightarrow> int n \<le> i32_max \<Longrightarrow> fd_end n < 0"
proof -
  assume n: "i32_max - 3 < int n" "int n \<le> i32_max"
  then consider "int n = 2147483645" | "int n = 2147483646" | "int n = 2147483647" by (force simp: i32_max_def)
  then show ?thesis by cases (simp_all add: fd_end_def)
qed

text \<open>The descriptors a service manager announces are adopted, all of them and no other.\<close>

lemma inherited_all:
  assumes "var ''LISTEN_FDS'' = Some (show_nat n)" "var ''LISTEN_PID'' = Some (show_nat pid)"
    and "1 \<le> n" "int n \<le> i32_max - 3" "\<And>fd. nonblocking fd"
  shows "inherited_listeners var pid nonblocking = Some [3..2 + int n]"
proof -
  have "n \<le> u32_max" using assms(4) by (simp add: i32_max_def u32_max_def)
  with assms show ?thesis
    by (simp add: inherited_listeners_def parse_listen_fds_def fd_end_small Let_def list_all_iff i32_max_def)
qed

text \<open>Close to the bound of \<open>i32\<close> the range is empty: the sockets are taken for granted, and none listens.\<close>

lemma inherited_none:
  assumes "var ''LISTEN_FDS'' = Some (show_nat n)" "var ''LISTEN_PID'' = Some (show_nat pid)"
    and "i32_max - 3 < int n" "int n \<le> i32_max"
  shows "bind_listeners (inherited_listeners var pid nonblocking) adopts fault listen = Ok []"
proof -
  have n: "n \<le> u32_max" "1 \<le> n" using assms(3,4) by (simp_all add: i32_max_def u32_max_def)
  have "[3..fd_end n - 1] = []" using fd_end_wraps[OF assms(3,4)] by simp
  with assms n show ?thesis
    by (simp add: inherited_listeners_def parse_listen_fds_def bind_listeners_def Let_def)
qed

section \<open>Registration\<close>

lemma parse_keys_Ok: "parse_keys C ks = Ok () \<longleftrightarrow> (\<forall>k \<in> set ks. \<exists>v. parse_public_key C k = Ok v)"
  by (induction ks) (auto split: sum.split)

lemma set_normalized: "set (normalized_public_keys k ks) = (if k = [] then {} else {k}) \<union> set ks"
  by (simp add: normalized_public_keys_def)

definition keys_parse :: "crypto \<Rightarrow> router \<Rightarrow> bool" where
  "keys_parse C r \<longleftrightarrow> (\<forall>url ks. rt_keys r url = Some ks \<longrightarrow> (\<forall>k \<in> set ks. \<exists>v. parse_public_key C k = Ok v))"

lemma register_upstream_Ok:
  assumes "register_upstream C r (router_upstream_of u) = (Ok v, r')"
  shows "rt_prober r' = rt_prober r" "rt_db r' = rt_db r" "keys_parse C r \<Longrightarrow> keys_parse C r'"
    "parse_keys C (normalized_public_keys (uc_public_key u) (uc_public_keys u)) = Ok ()"
proof -
  from assms have ok: "parse_keys C (normalized_public_keys (uc_public_key u) (uc_public_keys u)) = Ok ()"
    by (auto simp: register_upstream_def register_upstream_keys_def router_upstream_of_def Let_def split: sum.splits)
  have r': "rt_prober r' = rt_prober r \<and> rt_db r' = rt_db r \<and>
    rt_keys r' = (rt_keys r)(uc_url u := if normalized_public_keys (uc_public_key u) (uc_public_keys u) = [] then None
      else Some (normalized_public_keys (uc_public_key u) (uc_public_keys u)))"
    using assms ok
    by (auto simp: register_upstream_def register_upstream_keys_def router_upstream_of_def Let_def
        register_upstream_filters_def register_upstream_nar_url_mode_def register_upstream_narinfo_timeout_def)
  then show "rt_prober r' = rt_prober r" "rt_db r' = rt_db r" by simp_all
  show "keys_parse C r \<Longrightarrow> keys_parse C r'"
    using r' ok by (auto simp: keys_parse_def parse_keys_Ok split: if_splits)
  show "parse_keys C (normalized_public_keys (uc_public_key u) (uc_public_keys u)) = Ok ()" by (rule ok)
qed

lemma register_all_Ok:
  "register_all C us r = Ok r' \<Longrightarrow>
     rt_prober r' = rt_prober r \<and> rt_db r' = rt_db r \<and> (keys_parse C r \<longrightarrow> keys_parse C r') \<and>
     (\<forall>u \<in> set us. parse_keys C (normalized_public_keys (uc_public_key u) (uc_public_keys u)) = Ok ())"
proof (induction us arbitrary: r)
  case (Cons u us)
  from Cons.prems obtain v r1 where 1: "register_upstream C r (router_upstream_of u) = (Ok v, r1)" "register_all C us r1 = Ok r'"
    by (auto split: prod.splits sum.splits)
  from Cons.IH[OF 1(2)] register_upstream_Ok[OF 1(1)] show ?case by auto
qed simp







section \<open>Health rows on their way to the database\<close>

definition cells :: "health_row \<Rightarrow> f64 \<times> int \<times> int" where
  "cells r = (the (sql_real (hr_ema r)), hr_fails r, hr_queries r)"

definition worker_inv :: "worker \<Rightarrow> bool" where
  "worker_inv w \<longleftrightarrow> keys_distinct (hw_pending w) \<and> (\<forall>(k, r) \<in> set (hw_pending w). hr_url r = k \<and> hr_ema r \<noteq> NaN)"

text \<open>What the database will hold once the pending rows are written.\<close>

definition recorded :: "worker \<Rightarrow> string \<rightharpoonup> f64 \<times> int \<times> int" where
  "recorded w = map_of (d_health (hw_db w)) ++ (map_option cells \<circ> map_of (hw_pending w))"

definition latest :: "health_row list \<Rightarrow> string \<rightharpoonup> f64 \<times> int \<times> int" where
  "latest rows = map_of (map (\<lambda>r. (hr_url r, cells r)) (rev rows))"

lemma latest_snoc: "latest (rows @ [r]) = (latest rows)(hr_url r \<mapsto> cells r)"
  by (simp add: latest_def)

lemma upsert_health_faults: "upsert_health fs rows t = Ok t' \<Longrightarrow> upsert_health [] rows t = Ok t'"
  by (induction fs rows t rule: upsert_health.induct) (auto split: option.splits)

lemma pending_rows:
  assumes "keys_distinct P" "\<forall>(k, r) \<in> set P. hr_url r = k \<and> hr_ema r \<noteq> NaN"
  shows "latest (map snd P) = map_option cells \<circ> map_of P"
    and "map_of (fold insert_row (map snd P) []) = map_of P"
proof -
  have keyed: "map (\<lambda>r. (hr_url r, f r)) (rev (map snd P)) = rev (map (\<lambda>(k, r). (k, f r)) P)" for f
    using assms(2) by (simp add: rev_map) (auto intro!: map_cong)
  have flip: "map_of (rev (map (\<lambda>(k, r). (k, f r)) P)) = map_option f \<circ> map_of P" for f
  proof -
    have "map fst (map (\<lambda>(k, r). (k, f r)) P) = map fst P" by (auto intro: map_cong)
    then have "distinct (map fst (map (\<lambda>(k, r). (k, f r)) P))" using assms(1) by (simp only: keys_distinct_def)
    then have "map_of (rev (map (\<lambda>(k, r). (k, f r)) P)) = map_of (map (\<lambda>(k, r). (k, f r)) P)"
      by (subst map_of_inject_set) (simp_all only: rev_map[symmetric] distinct_rev set_rev)
    then show ?thesis by (simp add: map_of_map)
  qed
  show "latest (map snd P) = map_option cells \<circ> map_of P"
    unfolding latest_def keyed flip ..
  have "map_of (fold insert_row rows Q) = map_of Q ++ map_of (map (\<lambda>r. (hr_url r, r)) (rev rows))" for rows Q
    by (induction rows arbitrary: Q) (simp_all add: insert_row_def map_of_upsert map_add_upd_left)
  from this[of "map snd P" "[]"] show "map_of (fold insert_row (map snd P) []) = map_of P"
    unfolding keyed[of "\<lambda>r. r"] flip by (simp add: option.map_ident comp_def)
qed

lemma insert_rows_inv:
  "keys_distinct Q \<Longrightarrow> \<forall>(k, r) \<in> set Q. hr_url r = k \<and> hr_ema r \<noteq> NaN \<Longrightarrow> \<forall>r \<in> set rows. hr_ema r \<noteq> NaN \<Longrightarrow>
     keys_distinct (fold insert_row rows Q) \<and> (\<forall>(k, r) \<in> set (fold insert_row rows Q). hr_url r = k \<and> hr_ema r \<noteq> NaN)"
proof (induction rows arbitrary: Q)
  case (Cons r rows)
  have "\<forall>(k, r) \<in> set (insert_row r Q). hr_url r = k \<and> hr_ema r \<noteq> NaN"
    using Cons.prems set_upsert[of "hr_url r" r Q] by (fastforce simp: insert_row_def)
  moreover have "keys_distinct (insert_row r Q)" using Cons.prems by (simp add: insert_row_def)
  ultimately show ?case using Cons.IH[of "insert_row r Q"] Cons.prems(3) by simp
qed simp

lemma insert_row_recorded:
  "recorded (w\<lparr>hw_pending := insert_row r (hw_pending w)\<rparr>) = (recorded w)(hr_url r \<mapsto> cells r)"
  by (simp add: recorded_def insert_row_def map_of_upsert fun_upd_comp)

lemma save_health_cases:
  assumes "save_health b fs c d rows = (res, d')" "\<forall>r \<in> set rows. hr_ema r \<noteq> NaN"
  shows "case res of Err _ \<Rightarrow> d' = d
    | Ok _ \<Rightarrow> map_of (d_health d') = map_of (d_health d) ++ latest rows \<and> d' = d\<lparr>d_health := d_health d'\<rparr>"
proof (cases res)
  case (Inl e)
  with assms(1) show ?thesis by (auto simp: save_health_def split: if_splits option.splits sum.splits)
next
  case (Inr u)
  show ?thesis
  proof (cases "rows = []")
    case True
    with assms(1) Inr show ?thesis by (simp add: save_health_def latest_def)
  next
    case False
    with assms(1) Inr obtain t where t: "upsert_health fs rows (d_health d) = Ok t" "d' = d\<lparr>d_health := t\<rparr>"
      by (auto simp: save_health_def split: option.splits sum.splits)
    from upsert_health_ok[OF assms(2), of "d_health d"] upsert_health_faults[OF t(1)]
    have "map_of t = map_of (d_health d) ++ latest rows" by (auto simp: latest_def cells_def)
    with t(2) Inr show ?thesis by simp
  qed
qed

lemma flush_health_inv:
  assumes "worker_inv w" "flush_health F w = (saved, w')"
  shows "worker_inv w' \<and> recorded w' = recorded w \<and> hw_db w' = (hw_db w)\<lparr>d_health := d_health (hw_db w')\<rparr> \<and>
    (if saved then hw_pending w' = [] else d_health (hw_db w') = d_health (hw_db w))"
proof -
  let ?rows = "map snd (hw_pending w)"
  have inv: "keys_distinct (hw_pending w)" "\<forall>(k, r) \<in> set (hw_pending w). hr_url r = k \<and> hr_ema r \<noteq> NaN"
    using assms(1) by (simp_all add: worker_inv_def)
  then have nan: "\<forall>r \<in> set ?rows. hr_ema r \<noteq> NaN" by auto
  obtain res d where s: "save_health (sf_begin F) (sf_rows F) (sf_commit F) (hw_db w) ?rows = (res, d)" by fastforce
  note sc = save_health_cases[OF s nan]
  show ?thesis
  proof (cases res)
    case (Inl e)
    then have "saved = False" "hw_pending w' = fold insert_row ?rows []" "hw_db w' = hw_db w"
      using assms(2) s sc by (simp_all add: flush_health_def Let_def) (auto split: sum.splits)
    with insert_rows_inv[of "[]" ?rows] nan pending_rows(2)[OF inv] show ?thesis
      by (auto simp: worker_inv_def recorded_def)
  next
    case (Inr u)
    then have "saved = True" "hw_pending w' = []" "hw_db w' = d"
      using assms(2) s by (auto simp: flush_health_def Let_def)
    with sc Inr pending_rows(1)[OF inv] show ?thesis
      by (auto simp: worker_inv_def recorded_def)
  qed
qed

text \<open>An abstract notification socket is never told: its address is refused as a path.\<close>

lemma notify_abstract_fails:
  "sd_notify_ready None send (Some (CHR ''@'' # name)) =
     [''sd_notify failed: paths must not contain interior null bytes'']"
  by (simp add: sd_notify_ready_def strip_prefix_def send_to_path_def)

section \<open>Finite averages\<close>














section \<open>A start-up\<close>

text \<open>One upstream with the given key, a database in memory's place, and nothing that fails.\<close>

definition upstream_with_key :: "string \<Rightarrow> upstream_config" where
  "upstream_with_key key = upstream_config_default\<lparr>uc_url := ''http://c'', uc_priority := 3, uc_public_key := key\<rparr>"

definition config_with_key :: "string \<Rightarrow> unit config" where
  "config_with_key key = config_default\<lparr>cf_upstreams := [upstream_with_key key]\<rparr>"

definition libs_with_key :: "string \<Rightarrow> unit libs" where
  "libs_with_key key = libs_demo\<lparr>lib_toml := (\<lambda>_. Ok (config_with_key key))\<rparr>"

definition boot_demo :: "string \<Rightarrow> (unit, u8) boot" where
  "boot_demo key =
     \<lparr>bo_os = os_demo, bo_libs = libs_with_key key, bo_crypto = crypto_demo, bo_pid = 7, bo_now = 0, bo_mkdir = None,
      bo_open = None, bo_tables = empty_tables, bo_health = None, bo_client = None, bo_mdns = None,
      bo_mesh = mesh_demo 3, bo_disk_fault = (\<lambda>_. None), bo_seed = Ok [], bo_temp = Ok [], bo_udp = (\<lambda>_. None),
      bo_nonblocking = (\<lambda>_. True), bo_adopts = (\<lambda>_. True),
      bo_bind = (\<lambda>t. case t of V6Localhost _ \<Rightarrow> Some OtherIo | _ \<Rightarrow> None)\<rparr>"

lemma load_with_key:
  "config_parse os_demo (libs_with_key key) ''c.toml'' = Ok (config_with_key key)"
  "config_load os_demo (libs_with_key key) (Some ''c.toml'') = Ok (config_with_key key)"
proof -
  show parse: "config_parse os_demo (libs_with_key key) ''c.toml'' = Ok (config_with_key key)"
    by (simp add: config_parse_def each_and_fallback_def locate_def location_parse_def config_demo_defs Let_def
        libs_with_key_def config_with_key_def upstream_with_key_def)
  show "config_load os_demo (libs_with_key key) (Some ''c.toml'') = Ok (config_with_key key)"
    unfolding config_load_def option.case parse sum.case
    by (simp add: env_overrides_def env_var_def each_and_fallback_def resolve_password_file_def load_netrc_def
        netrc_overrides_def config_demo_defs config_with_key_def upstream_with_key_def)
qed

lemma valid_with_key: "CHR '':'' \<in> set key \<Longrightarrow> valid_config (libs_with_key key) (config_with_key key)"
proof -
  assume "CHR '':'' \<in> set key"
  moreover have "\<not> is_blank ''info''" by (simp add: is_blank_def split_whitespace_def)
  ultimately show ?thesis
    by (simp add: valid_config_def valid_upstream_def valid_cache_def config_demo_defs secs_def
        libs_with_key_def config_with_key_def upstream_with_key_def)
qed

lemma connect_demo: "db_connect None None empty_tables path n = Ok (db_open n [] [] [])"
  by (simp add: db_connect_def empty_tables_def migrate_fresh)


lemma all_upstreams_with_key: "all_upstreams (config_with_key key) = [upstream_with_key key]"
  by (simp add: all_upstreams_def fallback_of_def config_with_key_def config_demo_defs)




section \<open>Properties\<close>

text \<open>
  When nothing is inherited, a started server listens: on the address that is configured, on
  localhost over IPv4 always and over IPv6 unless it is unavailable, on every interface over both or,
  where IPv6 is unavailable, over IPv4. A port in use is never passed over, and every socket it reports
  was bound.
\<close>

theorem listening_sockets:
  assumes "bind_listeners None adopts fault listen = Ok ls"
  shows "ls \<noteq> [] \<and> set ls \<subseteq> Bound ` {t. fault t = None} \<and>
    (case listen of
       None \<Rightarrow> False
     | Some (Socket a) \<Rightarrow> ls = [Bound (Exact a)]
     | Some (Localhost p) \<Rightarrow>
         ls = [Bound (V4Localhost p), Bound (V6Localhost p)] \<or>
         ls = [Bound (V4Localhost p)] \<and> fault (V6Localhost p) = Some OtherIo
     | Some (AnyAddr p) \<Rightarrow>
         ls = [Bound (DualStack p)] \<or> ls = [Bound (V4Any p)] \<and> fault (DualStack p) = Some OtherIo)"
proof (cases listen)
  case None
  with assms show ?thesis by (simp add: bind_listeners_def)
next
  case (Some addr)
  show ?thesis
  proof (cases addr)
    case (Localhost p)
    with Some assms show ?thesis
      by (auto simp: bind_listeners_def tcp_bind_def split: option.splits io_kind.splits)
  next
    case (AnyAddr p)
    with Some assms show ?thesis
      by (auto simp: bind_listeners_def tcp_bind_def split: option.splits io_kind.splits)
  next
    case (Socket a)
    with Some assms show ?thesis by (auto simp: bind_listeners_def tcp_bind_def split: option.splits)
  qed
qed

theorem listening_sockets_witness:
  "set [Bound (V4Localhost 8080) :: unit listener] \<subseteq> Bound ` {t. (case t of V6Localhost _ \<Rightarrow> Some OtherIo | _ \<Rightarrow> None) = None}"
proof -
  have "bind_listeners None (\<lambda>_. True) (\<lambda>t. case t of V6Localhost _ \<Rightarrow> Some OtherIo | _ \<Rightarrow> None) (Some (Localhost 8080))
      = Ok [Bound (V4Localhost 8080) :: unit listener]"
    by (simp add: bind_listeners_def tcp_bind_def)
  from listening_sockets[OF this] show ?thesis by blast
qed



lemma register_bad_key:
  assumes "u \<in> set us" "parse_keys C (normalized_public_keys (uc_public_key u) (uc_public_keys u)) \<noteq> Ok ()"
  shows "\<exists>e. register_all C us r = Err e"
proof (cases "register_all C us r")
  case (Inr r')
  from register_all_Ok[OF this] assms show ?thesis by blast
qed blast

text \<open>
  C40: A valid configuration can fail to start: validation accepts any key with a colon, but a key that
  does not parse, of any upstream or of the enabled fallback, stops the start-up with an error, after
  the check of the same file succeeded.
\<close>

theorem unparsable_key_stops_start:
  assumes "config_load (bo_os B) (bo_libs B) path = Ok cfg" "valid_config (bo_libs B) cfg"
    and "db_connect (bo_mkdir B) (bo_open B) (bo_tables B) (cc_db_path (cf_cache cfg)) (cc_max_entries (cf_cache cfg)) = Ok d"
    and "bo_client B = None" "u \<in> set (all_upstreams cfg)"
    and "k \<in> set (uc_public_keys u) \<or> k = uc_public_key u \<and> k \<noteq> []" "parse_public_key (bo_crypto B) k = Err e"
  shows "\<exists>e'. fst (serve_start B path files) = Err (StartPublicKey e')"
proof -
  have "k \<in> set (normalized_public_keys (uc_public_key u) (uc_public_keys u))"
    using assms(6) by (auto simp: set_normalized)
  with assms(7) have "parse_keys (bo_crypto B) (normalized_public_keys (uc_public_key u) (uc_public_keys u)) \<noteq> Ok ()"
    unfolding parse_keys_Ok by force
  from register_bad_key[OF assms(5) this] obtain e' where
    "start_router (bo_crypto B) d (start_prober (bo_health B) d cfg) cfg = Err e'"
    unfolding start_router_def Let_def by blast
  moreover have "config_validate (bo_libs B) cfg = Ok ()" using assms(2) config_validate_Ok by blast
  ultimately show ?thesis using assms(1,3,4) by (simp add: serve_start_def)
qed

theorem unparsable_key_stops_start_witness:
  "config_check os_demo (libs_with_key ''a:b'') ''c.toml'' = Ok () \<and>
   (\<exists>e. fst (serve_start (boot_demo ''a:b'') (Some ''c.toml'') Map.empty) = Err (StartPublicKey e))"
proof
  have valid: "valid_config (libs_with_key ''a:b'') (config_with_key ''a:b'')" by (rule valid_with_key) simp
  then show "config_check os_demo (libs_with_key ''a:b'') ''c.toml'' = Ok ()"
    by (simp add: config_check_def load_with_key config_validate_Ok)
  have key: "parse_public_key crypto_demo ''a:b'' = Err (InvalidPublicKeySize 1)" by code_simp
  show "\<exists>e. fst (serve_start (boot_demo ''a:b'') (Some ''c.toml'') Map.empty) = Err (StartPublicKey e)"
  proof (rule unparsable_key_stops_start)
    show "upstream_with_key ''a:b'' \<in> set (all_upstreams (config_with_key ''a:b''))"
      by (simp add: all_upstreams_with_key)
    show "db_connect (bo_mkdir (boot_demo ''a:b'')) (bo_open (boot_demo ''a:b'')) (bo_tables (boot_demo ''a:b''))
        (cc_db_path (cf_cache (config_with_key ''a:b''))) (cc_max_entries (cf_cache (config_with_key ''a:b'')))
      = Ok (db_open (cc_max_entries (cf_cache (config_with_key ''a:b''))) [] [] [])"
      by (simp add: boot_demo_def connect_demo)
  qed (use valid key in \<open>simp_all add: boot_demo_def load_with_key upstream_with_key_def\<close>)
qed

text \<open>The rows a sequence of events brings.\<close>

definition rows_of :: "worker_event list \<Rightarrow> health_row list" where
  "rows_of evs = concat (map (\<lambda>ev. case ev of RowReceived r \<Rightarrow> [r] | FlushTick _ \<Rightarrow> []) evs)"

lemma worker_step_simps:
  "worker_step (RowReceived r) w = w\<lparr>hw_pending := insert_row r (hw_pending w)\<rparr>"
  "worker_step (FlushTick F) w = snd (flush_health F w)"
  by (simp_all add: worker_step_def)

lemma recorded_inserts:
  "recorded (w\<lparr>hw_pending := fold insert_row rows (hw_pending w)\<rparr>) = recorded w ++ latest rows"
proof (induction rows rule: rev_induct)
  case (snoc r rows)
  then show ?case
    using insert_row_recorded[of r "w\<lparr>hw_pending := fold insert_row rows (hw_pending w)\<rparr>"]
    unfolding latest_snoc map_add_upd by simp
qed (simp add: latest_def)

lemma worker_run_inv:
  "\<forall>r \<in> set (rows_of evs). hr_ema r \<noteq> NaN \<Longrightarrow> worker_inv w \<Longrightarrow>
     worker_inv (fold worker_step evs w) \<and> recorded (fold worker_step evs w) = recorded w ++ latest (rows_of evs) \<and>
     d_routes (hw_db (fold worker_step evs w)) = d_routes (hw_db w)"
proof (induction evs rule: rev_induct)
  case Nil
  then show ?case by (simp add: rows_of_def latest_def)
next
  case (snoc ev evs)
  let ?w = "fold worker_step evs w"
  from snoc have IH: "worker_inv ?w" "recorded ?w = recorded w ++ latest (rows_of evs)"
    "d_routes (hw_db ?w) = d_routes (hw_db w)" by (simp_all add: rows_of_def)
  show ?case
  proof (cases ev)
    case (RowReceived r)
    with snoc.prems have "hr_ema r \<noteq> NaN" by (simp add: rows_of_def)
    with IH(1) insert_rows_inv[of "hw_pending ?w" "[r]"]
    have "worker_inv (?w\<lparr>hw_pending := insert_row r (hw_pending ?w)\<rparr>)" by (simp add: worker_inv_def)
    moreover have "rows_of (evs @ [ev]) = rows_of evs @ [r]" by (simp add: rows_of_def RowReceived)
    ultimately show ?thesis using IH insert_row_recorded[of r ?w]
      unfolding RowReceived fold_append comp_apply fold_simps worker_step_simps
      by (simp only: latest_snoc map_add_upd) simp
  next
    case (FlushTick F)
    obtain saved w' where f: "flush_health F ?w = (saved, w')" by fastforce
    have w': "worker_inv w'" "recorded w' = recorded ?w" "hw_db w' = (hw_db ?w)\<lparr>d_health := d_health (hw_db w')\<rparr>"
      using flush_health_inv[OF IH(1) f] by blast+
    have "d_routes (hw_db w') = d_routes (hw_db ?w)" by (subst w'(3)) simp
    moreover have "rows_of (evs @ [ev]) = rows_of evs" by (simp add: rows_of_def FlushTick)
    moreover have "fold worker_step (evs @ [ev]) w = w'"
      unfolding FlushTick fold_append comp_apply fold_simps worker_step_simps f by simp
    ultimately show ?thesis using w'(1,2) IH(2,3) by simp
  qed
qed

lemma flush_retry_inv:
  "worker_inv w \<Longrightarrow> flush_retry Fs w = (saved, w') \<Longrightarrow>
     worker_inv w' \<and> recorded w' = recorded w \<and> d_routes (hw_db w') = d_routes (hw_db w) \<and> (saved \<longrightarrow> hw_pending w' = [])"
proof (induction Fs arbitrary: w)
  case (Cons F Fs)
  obtain ok w1 where f: "flush_health F w = (ok, w1)" by fastforce
  have w1: "worker_inv w1" "recorded w1 = recorded w" "hw_db w1 = (hw_db w)\<lparr>d_health := d_health (hw_db w1)\<rparr>"
    "ok \<longrightarrow> hw_pending w1 = []"
    using flush_health_inv[OF Cons.prems(1) f] by (auto split: if_splits)
  have routes: "d_routes (hw_db w1) = d_routes (hw_db w)" by (subst w1(3)) simp
  show ?case
  proof (cases ok)
    case True
    with Cons.prems(2) f w1 routes show ?thesis by simp
  next
    case False
    with Cons.prems(2) f have "flush_retry Fs w1 = (saved, w')" by simp
    from Cons.IH[OF w1(1) this] w1(2) routes show ?thesis by simp
  qed
qed simp

text \<open>However the servers end, what the worker and the channel hold at the end is not lost.\<close>

lemma serve_end_keeps_rows:
  assumes "worker_inv w" "\<forall>r \<in> set rows. hr_ema r \<noteq> NaN"
  shows "recorded (snd (serve_end ends rows Fs w)) = recorded w ++ latest rows"
proof -
  obtain F1 F2 F3 where Fs: "Fs = (F1, F2, F3)" by (cases Fs)
  let ?w = "w\<lparr>hw_pending := fold insert_row rows (hw_pending w)\<rparr>"
  have "worker_inv ?w" using insert_rows_inv[of "hw_pending w" rows] assms by (simp add: worker_inv_def)
  then have "recorded (snd (flush_retry [F1, F2, F3] ?w)) = recorded ?w"
    using flush_retry_inv prod.collapse by metis
  then show ?thesis by (simp add: serve_end_def worker_stop_def Fs recorded_inserts)
qed

text \<open>
  C16: The health worker loses nothing: whatever rows arrive, whenever it flushes and whichever statements
  fail, what the database holds together with what is pending is the old table overwritten by the latest
  row of every upstream; if one of the three attempts at shutdown succeeds nothing is pending, so the
  database itself holds it. The routes are untouched.
\<close>

theorem health_worker_keeps_latest:
  assumes "\<forall>r \<in> set (rows_of evs @ rest). hr_ema r \<noteq> NaN"
    and "worker_stop rest Fs (fold worker_step evs \<lparr>hw_pending = [], hw_db = d\<rparr>) = (saved, w)"
  shows "map_of (d_health (hw_db w)) ++ (map_option cells \<circ> map_of (hw_pending w))
      = map_of (d_health d) ++ latest (rows_of evs @ rest) \<and>
    (if saved then map_of (d_health (hw_db w)) = map_of (d_health d) ++ latest (rows_of evs @ rest) else True) \<and>
    d_routes (hw_db w) = d_routes d"
proof -
  let ?w0 = "\<lparr>hw_pending = [], hw_db = d\<rparr>"
  let ?w1 = "fold worker_step evs ?w0"
  let ?w2 = "?w1\<lparr>hw_pending := fold insert_row rest (hw_pending ?w1)\<rparr>"
  obtain F1 F2 F3 where Fs: "Fs = (F1, F2, F3)" by (cases Fs)
  have w1: "worker_inv ?w1" "recorded ?w1 = recorded ?w0 ++ latest (rows_of evs)" "d_routes (hw_db ?w1) = d_routes d"
    using worker_run_inv[of evs ?w0] assms(1) by (simp_all add: worker_inv_def)
  have "worker_inv ?w2"
    using insert_rows_inv[of "hw_pending ?w1" rest] w1(1) assms(1) by (simp add: worker_inv_def)
  moreover have "flush_retry [F1, F2, F3] ?w2 = (saved, w)" using assms(2) by (simp add: worker_stop_def Fs)
  ultimately have w: "recorded w = recorded ?w2" "d_routes (hw_db w) = d_routes (hw_db ?w2)" "saved \<longrightarrow> hw_pending w = []"
    using flush_retry_inv by blast+
  have "latest (rows_of evs @ rest) = latest (rows_of evs) ++ latest rest"
    by (simp add: latest_def map_of_append)
  then have "recorded w = map_of (d_health d) ++ latest (rows_of evs @ rest)"
    unfolding w(1) recorded_inserts w1(2) by (simp add: recorded_def)
  with w(2,3) w1(3) show ?thesis by (auto simp: recorded_def)
qed

definition faults_demo :: "sqlx_error option \<Rightarrow> save_faults" where
  "faults_demo e = \<lparr>sf_begin = e, sf_rows = [], sf_commit = None\<rparr>"

definition row_demo :: "string \<Rightarrow> rat \<Rightarrow> health_row" where
  "row_demo url ema = \<lparr>hr_url = url, hr_ema = Fin ema, hr_fails = 0, hr_queries = 1\<rparr>"

theorem health_worker_keeps_latest_witness:
  "map_of (d_health (hw_db (snd (worker_stop [row_demo ''b'' 4] (faults_demo (Some ''busy''), faults_demo None, faults_demo None)
     (fold worker_step [RowReceived (row_demo ''a'' 2), FlushTick (faults_demo (Some ''busy'')), RowReceived (row_demo ''a'' 3)]
       \<lparr>hw_pending = [], hw_db = db_open 9 [] [] []\<rparr>))))) ''a'' = Some (Fin 3, 0, 1)"
proof -
  let ?evs = "[RowReceived (row_demo ''a'' 2), FlushTick (faults_demo (Some ''busy'')), RowReceived (row_demo ''a'' 3)]"
  let ?Fs = "(faults_demo (Some ''busy''), faults_demo None, faults_demo None)"
  let ?w = "fold worker_step ?evs \<lparr>hw_pending = [], hw_db = db_open 9 [] [] []\<rparr>"
  have rows: "rows_of ?evs = [row_demo ''a'' 2, row_demo ''a'' 3]" by (simp add: rows_of_def)
  have nan: "\<forall>r \<in> set (rows_of ?evs @ [row_demo ''b'' 4]). hr_ema r \<noteq> NaN"
    unfolding rows by (simp add: row_demo_def)
  have saved: "fst (worker_stop [row_demo ''b'' 4] ?Fs ?w)"
    by (simp add: worker_stop_def worker_step_simps flush_health_def faults_demo_def insert_row_def save_health_def
        row_demo_def db_open_def sql_real_def)
  have "map_of (d_health (hw_db (snd (worker_stop [row_demo ''b'' 4] ?Fs ?w))))
      = map_of (d_health (db_open 9 [] [] [])) ++ latest (rows_of ?evs @ [row_demo ''b'' 4])"
    using health_worker_keeps_latest[OF nan prod.collapse[symmetric], of ?Fs "db_open 9 [] [] []"] saved
    by presburger
  then show ?thesis
    unfolding rows by (simp add: latest_def db_open_def row_demo_def cells_def sql_real_def)
qed




end
