(* ===== verification/Metrics.thy ===== *)
theory Metrics
  imports Prelude
begin

text \<open>
  crates/metrics/src/lib.rs: the Prometheus collectors of the program and their registration. The
  Prometheus library is a parameter: which descriptors it accepts, how it renders. A failing \<open>expect\<close>
  is None.
\<close>

datatype metric_kind = Counter | CounterVec | Gauge | HistogramVec

record collector =
  mc_kind :: metric_kind
  mc_name :: string
  mc_desc :: string
  mc_labels :: "string list"

definition collector_of :: "metric_kind \<Rightarrow> string \<Rightarrow> string \<Rightarrow> string list \<Rightarrow> collector" where
  "collector_of kind name desc labels = \<lparr>mc_kind = kind, mc_name = name, mc_desc = desc, mc_labels = labels\<rparr>"

text \<open>The collectors in the order they are registered.\<close>

definition collectors :: "collector list" where
  "collectors =
     [collector_of Counter ''ncro_narinfo_cache_hits_total'' ''Narinfo requests served from route cache.'' [],
      collector_of Counter ''ncro_narinfo_cache_misses_total'' ''Narinfo requests requiring upstream race.'' [],
      collector_of Counter ''ncro_narinfo_memory_negative_hits_total''
        ''Narinfo requests denied by short-lived in-memory negative cache.'' [],
      collector_of Counter ''ncro_narinfo_singleflight_waiters_total''
        ''Narinfo requests that waited on an in-flight same-hash lookup.'' [],
      collector_of CounterVec ''ncro_narinfo_requests_total'' ''Narinfo requests by status.'' [''status''],
      collector_of Counter ''ncro_nar_requests_total'' ''NAR streaming requests.'' [],
      collector_of CounterVec ''ncro_nar_hedges_total'' ''NAR hedge events.'' [''event'', ''upstream''],
      collector_of CounterVec ''ncro_nar_hedge_failures_total'' ''Failed NAR hedge attempts.'' [''kind'', ''upstream''],
      collector_of Counter ''ncro_narinfo_upstream_attempts_total''
        ''Total upstream narinfo attempts made during races.'' [],
      collector_of HistogramVec ''ncro_narinfo_upstream_attempts_per_resolve''
        ''Upstream attempts per narinfo resolution.'' [''result''],
      collector_of HistogramVec ''ncro_narinfo_race_wait_seconds''
        ''Time spent waiting for race concurrency permit.'' [''kind''],
      collector_of CounterVec ''ncro_upstream_race_wins_total''
        ''Times each upstream won the narinfo race.'' [''upstream''],
      collector_of Gauge ''ncro_route_entries'' ''Current number of route entries in SQLite.'' [],
      collector_of HistogramVec ''ncro_upstream_latency_seconds'' ''Upstream narinfo race latency.'' [''upstream'']]"

record prometheus =
  pr_valid :: "collector \<Rightarrow> bool"
  pr_collides :: "collector \<Rightarrow> collector \<Rightarrow> bool"
  pr_encode :: "collector list \<Rightarrow> (string, bytes) result"
  pr_lossy :: "bytes \<Rightarrow> string"

fun register_collectors :: "prometheus \<Rightarrow> collector list \<Rightarrow> collector list \<Rightarrow> collector list option" where
  "register_collectors P [] registry = Some registry"
| "register_collectors P (c # cs) registry =
     (if list_ex (pr_collides P c) registry then None else register_collectors P cs (registry @ [c]))"

text \<open>\<open>get\<close>: every collector is built, then every collector is registered.\<close>

definition metrics_get :: "prometheus \<Rightarrow> collector list option" where
  "metrics_get P = (if list_all (pr_valid P) collectors then register_collectors P collectors [] else None)"

definition gather :: "prometheus \<Rightarrow> collector list \<Rightarrow> string" where
  "gather P registry = (case pr_encode P registry of Err _ \<Rightarrow> [] | Ok buf \<Rightarrow> pr_lossy P buf)"

section \<open>Initialisation never panics\<close>

definition name_start :: "char \<Rightarrow> bool" where
  "name_start c \<longleftrightarrow> c \<in> set ''ABCDEFGHIJKLMNOPQRSTUVWXYZabcdefghijklmnopqrstuvwxyz_''"

definition name_char :: "char \<Rightarrow> bool" where
  "name_char c \<longleftrightarrow> name_start c \<or> c \<in> set ''0123456789''"

text \<open>The documented form of metric and label names, without the colon the program does not use.\<close>

definition well_named :: "string \<Rightarrow> bool" where
  "well_named s \<longleftrightarrow> s \<noteq> [] \<and> name_start (hd s) \<and> list_all name_char s"

definition well_formed :: "collector \<Rightarrow> bool" where
  "well_formed c \<longleftrightarrow> well_named (mc_name c) \<and> list_all well_named (mc_labels c) \<and> distinct (mc_labels c) \<and> mc_desc c \<noteq> []"

lemma collectors_well_formed: "list_all well_formed collectors"
  by (simp add: collectors_def collector_of_def well_formed_def well_named_def name_char_def name_start_def)

lemma collectors_distinct: "distinct (map mc_name collectors)"
  by (simp add: collectors_def collector_of_def)

lemma register_distinct:
  assumes "\<And>a b. pr_collides P a b \<Longrightarrow> mc_name a = mc_name b"
  shows "distinct (map mc_name (registry @ cs)) \<Longrightarrow> register_collectors P cs registry = Some (registry @ cs)"
proof (induction cs arbitrary: registry)
  case (Cons c cs)
  from Cons.prems assms have "\<not> list_ex (pr_collides P c) registry"
    by (fastforce simp: list_ex_iff)
  with Cons.IH[of "registry @ [c]"] Cons.prems show ?case by simp
qed simp

text \<open>With a library that accepts well-formed descriptors and tells metrics apart by their names, \<open>get\<close> returns.\<close>

lemma metrics_never_panic:
  assumes "\<And>c. well_formed c \<Longrightarrow> pr_valid P c" "\<And>a b. pr_collides P a b \<Longrightarrow> mc_name a = mc_name b"
  shows "metrics_get P = Some collectors"
proof -
  have "list_all (pr_valid P) collectors" using collectors_well_formed assms(1) by (auto simp: list_all_iff)
  moreover have "register_collectors P collectors [] = Some ([] @ collectors)"
    by (rule register_distinct) (use assms(2) collectors_distinct in simp_all)
  ultimately show ?thesis by (simp add: metrics_get_def)
qed

end
