(* ===== verification/AwsHttp.thy ===== *)
theory AwsHttp
  imports Upstream
begin

text \<open>
  crates/upstream/src/s3/aws_http.rs: the HTTP client that the AWS credential providers are given,
  a translation of their requests, answers and failures to and from those of reqwest.
\<close>

record aws_request =
  aq_method :: bytes
  aq_uri :: string
  aq_headers :: "(string \<times> string) list"
  aq_body :: "bytes option"

record aws_response =
  ap_status :: nat
  ap_headers :: "(string \<times> string) list"
  ap_body :: bytes

datatype connector_error = UserError string | TimeoutError | IoFailure | OtherError string

record client_error =
  ce_timeout :: bool
  ce_connect :: bool
  ce_body :: bool
  ce_reason :: string

text \<open>What reqwest answers: status, headers as they came and the body or its failure.\<close>

record wire_response =
  wr_status :: nat
  wr_headers :: "(string \<times> bytes) list"
  wr_body :: "(client_error, bytes) result"

record connector_settings =
  cs_connect_timeout :: "duration option"
  cs_read_timeout :: "duration option"

record reqwest_lib =
  rl_build :: "duration option \<Rightarrow> duration option \<Rightarrow> (string, unit) result"
  rl_method_ok :: "bytes \<Rightarrow> bool"
  rl_send :: "bytes \<Rightarrow> string \<Rightarrow> (string \<times> string) list \<Rightarrow> bytes \<Rightarrow> (client_error, wire_response) result"
  rl_status_ok :: "nat \<Rightarrow> bool"
  rl_text :: "bytes \<Rightarrow> string option"

definition http_connector :: "reqwest_lib \<Rightarrow> connector_settings \<Rightarrow> (string, unit) result" where
  "http_connector R s = rl_build R (cs_connect_timeout s) (cs_read_timeout s)"

definition connector_error_of :: "client_error \<Rightarrow> connector_error" where
  "connector_error_of e =
     (if ce_timeout e then TimeoutError
      else if ce_connect e \<or> ce_body e then IoFailure
      else OtherError (ce_reason e))"

text \<open>Headers whose value is not text are dropped.\<close>

definition text_headers :: "(bytes \<Rightarrow> string option) \<Rightarrow> (string \<times> bytes) list \<Rightarrow> (string \<times> string) list" where
  "text_headers to_str hs =
     concat (map (\<lambda>h. case to_str (snd h) of Some v \<Rightarrow> [(fst h, v)] | None \<Rightarrow> []) hs)"

definition connector_call ::
  "reqwest_lib \<Rightarrow> (string, unit) result \<Rightarrow> aws_request \<Rightarrow> (connector_error, aws_response) result" where
  "connector_call R client q =
     (if \<not> rl_method_ok R (aq_method q) then Err (UserError ''invalid method'')
      else case client of
        Err e \<Rightarrow> Err (OtherError e)
      | Ok _ \<Rightarrow>
          (case aq_body q of
             None \<Rightarrow> Err (UserError ''streaming request bodies are not supported'')
           | Some body \<Rightarrow>
               (case rl_send R (aq_method q) (aq_uri q) (aq_headers q) body of
                  Err e \<Rightarrow> Err (connector_error_of e)
                | Ok resp \<Rightarrow>
                    if \<not> rl_status_ok R (wr_status resp) then Err (OtherError ''invalid status'')
                    else (case wr_body resp of
                        Err e \<Rightarrow> Err (connector_error_of e)
                      | Ok bs \<Rightarrow> Ok \<lparr>ap_status = wr_status resp, ap_headers = text_headers (rl_text R) (wr_headers resp),
                                   ap_body = bs\<rparr>))))"

lemma text_headers_sound: "(n, v) \<in> set (text_headers to_str hs) \<longleftrightarrow> (\<exists>b. (n, b) \<in> set hs \<and> to_str b = Some v)"
  by (force simp: text_headers_def split: option.splits)

text \<open>An answer is that of the request, its status and body unchanged.\<close>

lemma connector_call_Ok:
  "connector_call R client q = Ok p \<Longrightarrow>
     \<exists>body resp. aq_body q = Some body \<and> rl_send R (aq_method q) (aq_uri q) (aq_headers q) body = Ok resp \<and>
       ap_status p = wr_status resp \<and> wr_body resp = Ok (ap_body p) \<and>
       set (map fst (ap_headers p)) \<subseteq> set (map fst (wr_headers resp))"
  by (force simp: connector_call_def text_headers_def split: if_splits sum.splits option.splits)

text \<open>A request that times out is reported as a time-out, which the providers retry.\<close>

lemma connector_call_timeout:
  assumes "rl_method_ok R (aq_method q)" "client = Ok ()" "aq_body q = Some body"
    and "rl_send R (aq_method q) (aq_uri q) (aq_headers q) body = Err e" "ce_timeout e"
  shows "connector_call R client q = Err TimeoutError"
  using assms by (simp add: connector_call_def connector_error_of_def)

end
